(* ===== verification/Prelude.thy ===== *)
theory Prelude
  imports Main
begin

text \<open>
  Shared ground of the development: the collections its automation is gathered in and
  the generic facts on lists, options and look-ups that the component theories use.
  Tables are lists of rows, and a \<^verbatim>\<open>SELECT ... WHERE id = $1\<close> is a \<open>find\<close> by key, so
  most facts are about \<open>find\<close> after a filter, an append or an update of the rows.
\<close>

named_theorems go_simps "unfolding rules of the small Go library functions"
named_theorems frame_simps "what an operation leaves unchanged"
named_theorems sql_simps "the effect of one SQL statement on the tables"

section \<open>Rows found by key\<close>

lemma find_filter_other:
  "(\<And>x. x \<in> set xs \<Longrightarrow> P x \<Longrightarrow> Q x) \<Longrightarrow> find P (filter Q xs) = find P xs"
  by (induction xs) auto

lemma find_filter_none:
  "(\<And>x. x \<in> set xs \<Longrightarrow> P x \<Longrightarrow> \<not> Q x) \<Longrightarrow> find P (filter Q xs) = None"
  by (induction xs) auto

lemma find_append:
  "find P (xs @ ys) = (case find P xs of None \<Rightarrow> find P ys | Some x \<Rightarrow> Some x)"
  by (induction xs) auto

lemma find_map_keep:
  "(\<And>x. P (f x) = P x) \<Longrightarrow> find P (map f xs) = map_option f (find P xs)"
  by (induction xs) auto

lemma find_SomeD: "find P xs = Some x \<Longrightarrow> P x \<and> x \<in> set xs"
  by (induction xs) (auto split: if_splits)

lemma find_NoneD: "find P xs = None \<Longrightarrow> x \<in> set xs \<Longrightarrow> \<not> P x"
  by (induction xs) (auto split: if_splits)

lemma find_None_image: "k \<notin> f ` set xs \<Longrightarrow> find (\<lambda>x. f x = k) xs = None"
  by (induction xs) auto

lemma set_map_filter: "set (List.map_filter f xs) = {y. \<exists>x \<in> set xs. f x = Some y}"
  by (induction xs) (auto simp: List.map_filter_simps split: option.splits)

lemma find_None_filter: "find P xs = None \<longleftrightarrow> filter P xs = []"
  by (induction xs) auto

lemma find_key_distinct:
  "distinct (map f xs) \<Longrightarrow> x \<in> set xs \<Longrightarrow> find (\<lambda>y. f y = f x) xs = Some x"
  by (induction xs) (auto simp: image_iff)

lemma find_key_eq:
  "distinct (map f xs) \<Longrightarrow> x \<in> set xs \<Longrightarrow> f x = k \<Longrightarrow> find (\<lambda>y. f y = k) xs = Some x"
  using find_key_distinct by fastforce

lemma distinct_key_eq:
  "distinct (map f xs) \<Longrightarrow> x \<in> set xs \<Longrightarrow> y \<in> set xs \<Longrightarrow> f x = f y \<Longrightarrow> x = y"
  by (metis find_key_distinct option.inject)

lemma distinct_map_snoc:
  "distinct (map f (xs @ [x])) \<longleftrightarrow> distinct (map f xs) \<and> f x \<notin> f ` set xs"
  by auto

lemma distinct_map_filter_key:
  "distinct (map f xs) \<Longrightarrow> distinct (map f (filter P xs))"
  by (rule distinct_map_filter)

lemma find_filter_key:
  assumes "distinct (map f xs)"
  shows "find (\<lambda>x. f x = k) (filter Q xs) =
    (case find (\<lambda>x. f x = k) xs of None \<Rightarrow> None | Some x \<Rightarrow> if Q x then Some x else None)"
  using assms
proof (induction xs)
  case (Cons a xs)
  have "find (\<lambda>x. f x = k) xs = None" if "f a = k"
    using Cons.prems that by (auto simp: find_None_iff image_iff)
  then show ?case using Cons by auto
qed simp

lemma length_filter_Suc: "length (filter P xs) = Suc n \<Longrightarrow> \<exists>x \<in> set xs. P x"
  by (metis filter_False length_0_conv nat.distinct(1))

section \<open>\<open>UPDATE ... WHERE\<close>\<close>

text \<open>\<open>upd_where P g\<close> applies \<open>g\<close> to the rows that satisfy \<open>P\<close> and keeps the others.\<close>

definition upd_where :: "('a \<Rightarrow> bool) \<Rightarrow> ('a \<Rightarrow> 'a) \<Rightarrow> 'a list \<Rightarrow> 'a list" where
  "upd_where P g = map (\<lambda>x. if P x then g x else x)"

lemma map_upd_where: "(\<And>x. f (g x) = f x) \<Longrightarrow> map f (upd_where P g xs) = map f xs"
  by (simp add: upd_where_def)

lemma image_upd_where: "(\<And>x. f (g x) = f x) \<Longrightarrow> f ` set (upd_where P g xs) = f ` set xs"
  by (metis map_upd_where set_map)

lemma ball_upd_where:
  "(\<And>x. Q x \<Longrightarrow> P x \<Longrightarrow> Q (g x)) \<Longrightarrow> \<forall>x \<in> set xs. Q x \<Longrightarrow> \<forall>x \<in> set (upd_where P g xs). Q x"
  by (auto simp: upd_where_def)

lemma find_upd_where:
  "(\<And>x. R (g x) = R x) \<Longrightarrow>
   find R (upd_where P g xs) = map_option (\<lambda>x. if P x then g x else x) (find R xs)"
  unfolding upd_where_def by (rule find_map_keep) simp

lemma upd_where_none: "(\<And>x. x \<in> set xs \<Longrightarrow> \<not> P x) \<Longrightarrow> upd_where P g xs = xs"
  by (simp add: upd_where_def map_idI)

lemma upd_where_simps [simp]:
  "upd_where P g [] = []"
  "upd_where P g (x # xs) = (if P x then g x else x) # upd_where P g xs"
  by (simp_all add: upd_where_def)

section \<open>Iterating a state function\<close>

lemma rtranclp_const_fn:
  assumes "\<And>n d. f n d = d" and "(\<lambda>d d'. \<exists>n. d' = f n d)\<^sup>*\<^sup>* a b"
  shows "b = a"
  using assms(2) by (induction rule: rtranclp_induct) (auto simp: assms(1))

end
