(* ===== verification/GoLib.thy ===== *)
theory GoLib
  imports Prelude
begin

text \<open>
  The pieces of Go and of its standard library that the source is written with: error
  values and \<^verbatim>\<open>errors.Is\<close>, the \<^verbatim>\<open>strings\<close> functions on byte strings, decimal rendering,
  and the unit of \<^verbatim>\<open>time.Duration\<close> (nanoseconds, as \<open>int\<close>).

  A function that returns \<^verbatim>\<open>error\<close> is modelled with \<open>goerr option\<close> (\<open>None\<close> is nil), one that
  returns a value and an error with \<open>goerr + 'a\<close>.
\<close>

section \<open>Errors\<close>

text \<open>
  The sentinel errors of the packages. Two sentinels of different packages are different
  values even where their texts agree, as \<^verbatim>\<open>errors.New\<close> makes them.
\<close>

datatype sentinel =
    DomainErrNotFound        \<comment> \<open>subscription/domain.ErrNotFound\<close>
  | DomainErrAlreadyExists   \<comment> \<open>subscription/domain.ErrAlreadyExists\<close>
  | AppErrInvalidEmail
  | AppErrInvalidRepo
  | AppErrRepoNotFound
  | AppErrAlreadyExists
  | AppErrNotFound
  | AppErrRateLimit
  | GithubErrNotFound
  | GithubErrRateLimit
  | ErrPublisherNotReady
  | ErrUpstreamUnavailable
  | ErrSessionEnded
  | ErrRepliesChannelClosed
  | PgxErrNoRows             \<comment> \<open>pgx.ErrNoRows\<close>
  | CtxDeadlineExceeded      \<comment> \<open>context.DeadlineExceeded\<close>
  | CtxCanceled              \<comment> \<open>context.Canceled\<close>
  | MigrateErrNoChange       \<comment> \<open>migrate.ErrNoChange\<close>
  | HttpErrServerClosed      \<comment> \<open>http.ErrServerClosed\<close>

fun sentinel_text :: "sentinel \<Rightarrow> string" where
  "sentinel_text DomainErrNotFound = ''subscription not found''"
| "sentinel_text DomainErrAlreadyExists = ''subscription already exists''"
| "sentinel_text AppErrInvalidEmail = ''invalid email format''"
| "sentinel_text AppErrInvalidRepo = ''invalid repository format, expected owner/repo''"
| "sentinel_text AppErrRepoNotFound = ''repository not found on GitHub''"
| "sentinel_text AppErrAlreadyExists = ''email already subscribed to this repository''"
| "sentinel_text AppErrNotFound = ''not found''"
| "sentinel_text AppErrRateLimit = ''GitHub API rate limit exceeded, try again later''"
| "sentinel_text GithubErrNotFound = ''repository not found''"
| "sentinel_text GithubErrRateLimit = ''github api rate limit exceeded''"
| "sentinel_text ErrPublisherNotReady = ''rabbitmq publisher not ready''"
| "sentinel_text ErrUpstreamUnavailable = ''upstream email provider unavailable''"
| "sentinel_text ErrSessionEnded = ''rabbitmq consumer session ended''"
| "sentinel_text ErrRepliesChannelClosed = ''saga replies channel closed''"
| "sentinel_text PgxErrNoRows = ''no rows in result set''"
| "sentinel_text CtxDeadlineExceeded = ''context deadline exceeded''"
| "sentinel_text CtxCanceled = ''context canceled''"
| "sentinel_text MigrateErrNoChange = ''no change''"
| "sentinel_text HttpErrServerClosed = ''http: Server closed''"

datatype grpc_code = DeadlineExceeded | Unavailable | Internal | InvalidArgument

text \<open>
  An error value: a sentinel, a \<^verbatim>\<open>fmt.Errorf\<close> with one prefix and \<^verbatim>\<open>%w\<close>, a \<^verbatim>\<open>fmt.Errorf("%w: %w")\<close>,
  an \<^verbatim>\<open>errors.Join\<close>, a gRPC status, a server error of PostgreSQL with its SQLSTATE, or an
  error of a library of which the source sees only the text.
\<close>

datatype goerr =
    Sentinel sentinel
  | Errorf string goerr
  | Errorf2 goerr goerr
  | Join goerr goerr
  | StatusError grpc_code string
  | PgError string string
  | Opaque string

fun errors_Is :: "goerr \<Rightarrow> sentinel \<Rightarrow> bool" where
  "errors_Is (Sentinel s) t = (s = t)"
| "errors_Is (Errorf p e) t = errors_Is e t"
| "errors_Is (Errorf2 e f) t = (errors_Is e t \<or> errors_Is f t)"
| "errors_Is (Join e f) t = (errors_Is e t \<or> errors_Is f t)"
| "errors_Is (StatusError c m) t = False"
| "errors_Is (PgError c m) t = False"
| "errors_Is (Opaque m) t = False"

text \<open>
  \<^verbatim>\<open>err.Error()\<close>. A status and a PostgreSQL error carry the text their library renders.
\<close>

fun error_text :: "goerr \<Rightarrow> string" where
  "error_text (Sentinel s) = sentinel_text s"
| "error_text (Errorf p e) = p @ '': '' @ error_text e"
| "error_text (Errorf2 e f) = error_text e @ '': '' @ error_text f"
| "error_text (Join e f) = error_text e @ [CHR 0x0A] @ error_text f"
| "error_text (StatusError c m) = m"
| "error_text (PgError c m) = m"
| "error_text (Opaque m) = m"

section \<open>Strings\<close>

text \<open>\<^verbatim>\<open>strings.Split(s, sep)\<close> for a one-byte separator: always at least one part.\<close>

fun strings_Split :: "string \<Rightarrow> char \<Rightarrow> string list" where
  "strings_Split [] sep = [[]]"
| "strings_Split (c # s) sep =
     (if c = sep then [] # strings_Split s sep
      else (case strings_Split s sep of
              [] \<Rightarrow> [[c]]
            | p # ps \<Rightarrow> (c # p) # ps))"

text \<open>\<^verbatim>\<open>strings.SplitN(s, sep, n)\<close> for a one-byte separator and \<open>n \<ge> 0\<close>.\<close>

fun strings_SplitN :: "string \<Rightarrow> char \<Rightarrow> nat \<Rightarrow> string list" where
  "strings_SplitN s sep 0 = []"
| "strings_SplitN s sep (Suc 0) = [s]"
| "strings_SplitN s sep (Suc (Suc n)) =
     (if sep \<in> set s
      then takeWhile (\<lambda>c. c \<noteq> sep) s #
           strings_SplitN (tl (dropWhile (\<lambda>c. c \<noteq> sep) s)) sep (Suc n)
      else [s])"

text \<open>\<^verbatim>\<open>strings.Contains(s, sub)\<close> for a one-byte \<^verbatim>\<open>sub\<close>.\<close>

definition strings_Contains :: "string \<Rightarrow> char \<Rightarrow> bool" where
  "strings_Contains s c = (c \<in> set s)"

text \<open>\<^verbatim>\<open>%d\<close> and \<^verbatim>\<open>strconv.Itoa\<close> on a natural number.\<close>

fun itoa :: "nat \<Rightarrow> string" where
  "itoa n = (if n < 10 then [char_of (n + 48)] else itoa (n div 10) @ [char_of (n mod 10 + 48)])"

declare itoa.simps [simp del]

lemma strings_Split_nonempty [simp]: "strings_Split s c \<noteq> []"
  by (induction s) (auto split: list.splits)

lemma length_strings_Split: "length (strings_Split s c) = Suc (count_list s c)"
  by (induction s) (auto split: list.splits)

text \<open>Joining the parts with the separator gives the string back.\<close>

fun strings_Join :: "string list \<Rightarrow> char \<Rightarrow> string" where
  "strings_Join [] c = []"
| "strings_Join [p] c = p"
| "strings_Join (p # q # ps) c = p @ c # strings_Join (q # ps) c"

lemma strings_Join_Split: "strings_Join (strings_Split s c) c = s"
proof (induction s)
  case (Cons x s)
  obtain p ps where "strings_Split s c = p # ps"
    by (cases "strings_Split s c") auto
  with Cons show ?case by (cases ps) auto
qed simp

lemma strings_Split_no_sep: "p \<in> set (strings_Split s c) \<Longrightarrow> c \<notin> set p"
  by (induction s arbitrary: p) (auto split: list.splits if_splits)

lemma strings_SplitN_two:
  assumes "c \<notin> set a"
  shows "strings_SplitN (a @ c # b) c 2 = [a, b]"
proof -
  have "takeWhile (\<lambda>x. x \<noteq> c) (a @ c # b) = a" "dropWhile (\<lambda>x. x \<noteq> c) (a @ c # b) = c # b"
    using assms by (induction a) auto
  then show ?thesis by (simp add: numeral_2_eq_2)
qed

lemma strings_SplitN_none: "c \<notin> set s \<Longrightarrow> strings_SplitN s c 2 = [s]"
  by (simp add: numeral_2_eq_2)

section \<open>Durations\<close>

definition Millisecond :: int where "Millisecond = 1000000"
definition Second :: int where "Second = 1000 * Millisecond"
definition Minute :: int where "Minute = 60 * Second"
definition Hour :: int where "Hour = 60 * Minute"

lemmas duration_defs = Hour_def Minute_def Second_def Millisecond_def

end
