(* ===== verification/Domain.thy ===== *)
theory Domain
  imports GoLib
begin

text \<open>
  The data of the domain packages: \<^verbatim>\<open>internal/subscription/domain\<close>, \<^verbatim>\<open>internal/release/domain\<close>,
  \<^verbatim>\<open>internal/notifier/domain\<close> and the release type of \<^verbatim>\<open>internal/release/adapter/github\<close>. A field
  \<^verbatim>\<open>F\<close> of a struct becomes a field with the struct's short name before it, times are
  nanoseconds, and a nilable \<^verbatim>\<open>*string\<close> or \<^verbatim>\<open>*time.Time\<close> is an option.
\<close>

type_synonym SagaState = string

definition SagaStatePending :: SagaState where "SagaStatePending = ''pending''"
definition SagaStateCompleted :: SagaState where "SagaStateCompleted = ''completed''"
definition SagaStateCompensated :: SagaState where "SagaStateCompensated = ''compensated''"
definition SagaStateTimedOut :: SagaState where "SagaStateTimedOut = ''timed_out''"

lemmas SagaState_defs =
  SagaStatePending_def SagaStateCompleted_def SagaStateCompensated_def SagaStateTimedOut_def

lemma SagaState_distinct [simp]:
  "SagaStatePending \<noteq> SagaStateCompleted" "SagaStateCompleted \<noteq> SagaStatePending"
  "SagaStatePending \<noteq> SagaStateCompensated" "SagaStateCompensated \<noteq> SagaStatePending"
  "SagaStatePending \<noteq> SagaStateTimedOut" "SagaStateTimedOut \<noteq> SagaStatePending"
  "SagaStateCompleted \<noteq> SagaStateCompensated" "SagaStateCompensated \<noteq> SagaStateCompleted"
  "SagaStateCompleted \<noteq> SagaStateTimedOut" "SagaStateTimedOut \<noteq> SagaStateCompleted"
  "SagaStateCompensated \<noteq> SagaStateTimedOut" "SagaStateTimedOut \<noteq> SagaStateCompensated"
  by (simp_all add: SagaState_defs)

record Saga =
  saga_ID :: string
  saga_SubscriptionID :: string
  saga_State :: SagaState
  saga_LastError :: "string option"
  saga_StartedAt :: int
  saga_CompletedAt :: "int option"

record Subscription =
  sub_ID :: string
  sub_RepoID :: string
  sub_Repo :: string
  sub_Email :: string
  sub_Confirmed :: bool
  sub_LastSeenTag :: "string option"
  sub_ConfirmToken :: string
  sub_UnsubscribeToken :: string
  sub_CreatedAt :: int

record Repository =
  repo_ID :: string
  repo_FullName :: string
  repo_LastSeenTag :: "string option"
  repo_CreatedAt :: int

text \<open>\<^verbatim>\<open>github.Release\<close>; \<^verbatim>\<open>PublishedAt\<close> is decoded and never read.\<close>

record Release =
  rel_TagName :: string
  rel_Name :: string
  rel_Body :: string
  rel_HTMLURL :: string
  rel_PublishedAt :: int

record ConfirmData =
  cd_Repo :: string
  cd_ConfirmURL :: string

record ReleaseData =
  rd_Repo :: string
  rd_TagName :: string
  rd_ReleaseName :: string
  rd_Body :: string
  rd_ReleaseURL :: string
  rd_UnsubscribeURL :: string

end
