(* ===== verification/World.thy ===== *)
theory World
  imports Domain
begin

text \<open>
  The state a process runs on. \<open>proc\<close> is what both binaries have: a clock, a source of
  UUIDs, the cancellation flag of the process context, the Prometheus counters, and
  \<open>outside\<close>, the state of everything the process talks to that is not in the repository
  (GitHub, Redis, the broker, Resend). Readings of the clock, of the UUID source and of the
  context are functions of the number of readings made so far, so a theorem about every
  state is a theorem about every sequence of readings.

  \<open>world\<close> is the process of \<^verbatim>\<open>cmd/server\<close>: it adds the PostgreSQL database. Before each
  statement the other sessions may have changed the tables (\<open>db_env\<close>), and each statement
  succeeds, fails, or takes effect while its answer is lost (\<open>db_oracle\<close>).
\<close>

section \<open>Processes\<close>

datatype metric =
    SubscriptionsCreatedTotal
  | SubscriptionsConfirmedTotal
  | SubscriptionsRemovedTotal
  | ScannerRunsTotal string
  | ScannerDuration
  | ReleasesDetectedTotal
  | GithubAPIRequestsTotal string string
  | EmailsSentTotal string
  | EmailSendErrorsTotal string
  | RabbitMQMessagesPublishedTotal string string
  | RabbitMQPublishDuration string
  | RabbitMQMessagesConsumedTotal string string
  | RabbitMQMessageProcessingDuration string
  | HTTPRequestsTotal string string string
  | HTTPRequestDuration string string

record 'x proc =
  clock :: "nat \<Rightarrow> int"
  clock_reads :: nat
  uuids :: "nat \<Rightarrow> string"
  uuid_reads :: nat
  ctx_done :: "nat \<Rightarrow> bool"
  ctx_reads :: nat
  metrics :: "metric \<Rightarrow> nat"
  outside :: 'x

definition time_Now :: "('x, 'm) proc_scheme \<Rightarrow> int \<times> ('x, 'm) proc_scheme" where
  "time_Now w = (clock w (clock_reads w), w\<lparr>clock_reads := Suc (clock_reads w)\<rparr>)"

definition uuid_New :: "('x, 'm) proc_scheme \<Rightarrow> string \<times> ('x, 'm) proc_scheme" where
  "uuid_New w = (uuids w (uuid_reads w), w\<lparr>uuid_reads := Suc (uuid_reads w)\<rparr>)"

text \<open>\<^verbatim>\<open>ctx.Err() != nil\<close> of the process context.\<close>

definition ctx_Err :: "('x, 'm) proc_scheme \<Rightarrow> bool \<times> ('x, 'm) proc_scheme" where
  "ctx_Err w = (ctx_done w (ctx_reads w), w\<lparr>ctx_reads := Suc (ctx_reads w)\<rparr>)"

text \<open>\<^verbatim>\<open>Inc()\<close> of a counter; for a histogram, the number of observations.\<close>

definition inc :: "metric \<Rightarrow> ('x, 'm) proc_scheme \<Rightarrow> ('x, 'm) proc_scheme" where
  "inc m w = w\<lparr>metrics := (metrics w)(m := Suc (metrics w m))\<rparr>"

text \<open>A call to the outside: it sees and changes the outside state only.\<close>

definition call_outside ::
    "('x \<Rightarrow> 'r \<times> 'x) \<Rightarrow> ('x, 'm) proc_scheme \<Rightarrow> 'r \<times> ('x, 'm) proc_scheme" where
  "call_outside f w = (fst (f (outside w)), w\<lparr>outside := snd (f (outside w))\<rparr>)"

text \<open>
  \<open>io_only w w'\<close>: the process has read its clock, UUIDs or context, counted, and called the
  outside, and nothing else of it has changed.
\<close>

definition rewind :: "('x, 'm) proc_scheme \<Rightarrow> ('x, 'm) proc_scheme \<Rightarrow> ('x, 'm) proc_scheme" where
  "rewind w w' = w'\<lparr>clock_reads := clock_reads w, uuid_reads := uuid_reads w,
     ctx_reads := ctx_reads w, metrics := metrics w, outside := outside w\<rparr>"

definition io_only :: "('x, 'm) proc_scheme \<Rightarrow> ('x, 'm) proc_scheme \<Rightarrow> bool" where
  "io_only w w' \<longleftrightarrow> rewind w w' = w"

lemma io_only_refl [simp]: "io_only w w"
  by (simp add: io_only_def rewind_def)

lemma io_only_trans [trans]:
  assumes "io_only w w'" "io_only w' w''"
  shows "io_only w w''"
proof -
  have "rewind w w'' = rewind w (rewind w' w'')" by (simp add: rewind_def)
  then show ?thesis using assms by (simp add: io_only_def)
qed

lemma io_only_basic [simp]:
  "io_only w (snd (time_Now w))" "io_only w (snd (uuid_New w))" "io_only w (snd (ctx_Err w))"
  "io_only w (inc m w)" "io_only w (snd (call_outside f w))"
  by (simp_all add: io_only_def rewind_def time_Now_def uuid_New_def ctx_Err_def inc_def call_outside_def)

lemma io_only_calls:
  "time_Now w = (t, w') \<Longrightarrow> io_only w w'" "uuid_New w = (u, w') \<Longrightarrow> io_only w w'"
  "ctx_Err w = (b, w') \<Longrightarrow> io_only w w'" "call_outside f w = (r, w') \<Longrightarrow> io_only w w'"
  by (metis io_only_basic snd_conv)+

section \<open>The database\<close>

text \<open>
  One record per table, with the columns the migrations leave it. The columns of
  \<^verbatim>\<open>subscription_sagas\<close> and of \<^verbatim>\<open>repositories\<close> are the fields of the domain structs.
\<close>

record sub_row =
  sr_id :: string
  sr_email :: string
  sr_repo_id :: string
  sr_confirmed :: bool
  sr_confirm_token :: string
  sr_unsubscribe_token :: string
  sr_created_at :: int

record tables =
  t_repositories :: "Repository list"
  t_subscriptions :: "sub_row list"
  t_sagas :: "Saga list"

datatype db_outcome = DbOk | DbFail string | DbLost string

record 'x world = "'x proc" +
  db :: tables
  db_env :: "nat \<Rightarrow> tables \<Rightarrow> tables"
  db_oracle :: "nat \<Rightarrow> db_outcome"
  db_calls :: nat

text \<open>
  One statement on the pool. \<open>stmt\<close> is its meaning on the tables: a result or a server
  error (then with the tables unchanged), and the tables after it.
\<close>

type_synonym 'r sql = "tables \<Rightarrow> (goerr + 'r) \<times> tables"

definition db_turn :: "'x world \<Rightarrow> 'x world" where
  "db_turn w = w\<lparr>db := db_env w (db_calls w) (db w), db_calls := Suc (db_calls w)\<rparr>"

definition exec_sql :: "'r sql \<Rightarrow> 'x world \<Rightarrow> (goerr + 'r) \<times> 'x world" where
  "exec_sql stmt w =
     (let w1 = db_turn w in
      case db_oracle w (db_calls w) of
        DbOk \<Rightarrow> (fst (stmt (db w1)), w1\<lparr>db := snd (stmt (db w1))\<rparr>)
      | DbFail m \<Rightarrow> (Inl (Opaque m), w1)
      | DbLost m \<Rightarrow> (Inl (Opaque m), w1\<lparr>db := snd (stmt (db w1))\<rparr>))"

section \<open>What other sessions may have done\<close>

text \<open>
  \<open>others w w'\<close>: the tables of \<open>w'\<close> are those of \<open>w\<close> after some turns of the other
  sessions, and nothing else that governs the run has changed.
\<close>

definition env_step :: "(nat \<Rightarrow> tables \<Rightarrow> tables) \<Rightarrow> tables \<Rightarrow> tables \<Rightarrow> bool" where
  "env_step env d d' = (\<exists>n. d' = env n d)"

definition others :: "'x world \<Rightarrow> 'x world \<Rightarrow> bool" where
  "others w w' \<longleftrightarrow>
     db_env w' = db_env w \<and> db_oracle w' = db_oracle w \<and> ctx_done w' = ctx_done w \<and>
     (env_step (db_env w))\<^sup>*\<^sup>* (db w) (db w')"

lemma others_refl [intro, simp]: "others w w"
  by (simp add: others_def)

lemma others_trans [trans]: "others w w' \<Longrightarrow> others w' w'' \<Longrightarrow> others w w''"
  by (auto simp: others_def)

lemma others_turn [intro, simp]: "others w (db_turn w)"
  by (auto simp: others_def db_turn_def env_step_def intro!: r_into_rtranclp)

text \<open>I/O of the process itself leaves the database alone.\<close>

lemma io_only_world:
  assumes "io_only w (w' :: 'x world)"
  shows "db w' = db w" "db_env w' = db_env w" "db_oracle w' = db_oracle w" "db_calls w' = db_calls w"
    "ctx_done w' = ctx_done w"
proof -
  let ?v = "rewind w w'"
  have v: "?v = w" using assms by (simp add: io_only_def)
  have "db ?v = db w'" "db_env ?v = db_env w'" "db_oracle ?v = db_oracle w'" "db_calls ?v = db_calls w'"
    "ctx_done ?v = ctx_done w'"
    by (simp_all add: rewind_def)
  then show "db w' = db w" "db_env w' = db_env w" "db_oracle w' = db_oracle w" "db_calls w' = db_calls w"
    "ctx_done w' = ctx_done w"
    unfolding v by simp_all
qed

lemma io_only_others: "io_only w (w' :: 'x world) \<Longrightarrow> others w w'"
  using io_only_world[of w w'] by (simp add: others_def)

text \<open>A quiet world has no other sessions. In a healthy one the database always answers and the
  context of the process is not done.\<close>

definition quiet :: "'x world \<Rightarrow> bool" where
  "quiet w = (\<forall>n d. db_env w n d = d)"

definition healthy :: "'x world \<Rightarrow> bool" where
  "healthy w = (\<forall>n. db_oracle w n = DbOk \<and> \<not> ctx_done w n)"

lemma healthy_ctx: "healthy w \<Longrightarrow> \<not> fst (ctx_Err w)"
  by (simp add: healthy_def ctx_Err_def)

lemma quiet_others: "quiet w \<Longrightarrow> others w w' \<Longrightarrow> db w' = db w \<and> quiet w'"
  unfolding quiet_def others_def env_step_def
  using rtranclp_const_fn[of "db_env w" "db w" "db w'"] by auto

lemma quiet_turn [simp]: "quiet w \<Longrightarrow> db (db_turn w) = db w"
  by (simp add: quiet_def db_turn_def)

lemma turn_frame [simp, frame_simps]:
  "clock (db_turn w) = clock w" "clock_reads (db_turn w) = clock_reads w"
  "uuids (db_turn w) = uuids w" "uuid_reads (db_turn w) = uuid_reads w"
  "ctx_done (db_turn w) = ctx_done w" "ctx_reads (db_turn w) = ctx_reads w"
  "metrics (db_turn w) = metrics w" "outside (db_turn w) = outside w"
  "db_env (db_turn w) = db_env w" "db_oracle (db_turn w) = db_oracle w"
  "db_calls (db_turn w) = Suc (db_calls w)"
  by (simp_all add: db_turn_def)

text \<open>The three ways a statement can go, as one case rule.\<close>

lemma exec_sql_cases:
  assumes "exec_sql stmt w = (r, w')"
  obtains (ran) w1 where "others w w1" "r = fst (stmt (db w1))"
      "w' = w1\<lparr>db := snd (stmt (db w1))\<rparr>"
  | (failed) m where "others w w'" "r = Inl (Opaque m)"
  | (lost) w1 m where "others w w1" "r = Inl (Opaque m)" "w' = w1\<lparr>db := snd (stmt (db w1))\<rparr>"
  using assms others_turn[of w]
  by (fastforce simp: exec_sql_def Let_def split: db_outcome.splits)

lemma exec_sql_quiet:
  "quiet w \<Longrightarrow> healthy w \<Longrightarrow>
   exec_sql stmt w = (fst (stmt (db w)), (db_turn w)\<lparr>db := snd (stmt (db w))\<rparr>)"
  by (simp add: exec_sql_def healthy_def Let_def)

lemma quiet_upd [simp]:
  "quiet (w\<lparr>db := d\<rparr>) = quiet w" "quiet (db_turn w) = quiet w"
  "quiet (w\<lparr>clock_reads := k\<rparr>) = quiet w" "quiet (w\<lparr>uuid_reads := k\<rparr>) = quiet w"
  "quiet (w\<lparr>ctx_reads := k\<rparr>) = quiet w" "quiet (w\<lparr>metrics := f\<rparr>) = quiet w"
  "quiet (w\<lparr>outside := x\<rparr>) = quiet w" "quiet (w\<lparr>db_calls := k\<rparr>) = quiet w"
  by (simp_all add: quiet_def)

lemma healthy_upd [simp]:
  "healthy (w\<lparr>db := d\<rparr>) = healthy w" "healthy (db_turn w) = healthy w"
  "healthy (w\<lparr>clock_reads := k\<rparr>) = healthy w" "healthy (w\<lparr>uuid_reads := k\<rparr>) = healthy w"
  "healthy (w\<lparr>ctx_reads := k\<rparr>) = healthy w" "healthy (w\<lparr>metrics := f\<rparr>) = healthy w"
  "healthy (w\<lparr>outside := x\<rparr>) = healthy w" "healthy (w\<lparr>db_calls := k\<rparr>) = healthy w"
  by (simp_all add: healthy_def)

section \<open>A concrete start state\<close>

text \<open>
  The state of the concrete runs: a clock that ticks by one second, pairwise different
  UUIDs, no cancellation, an empty database that always answers, no other session.
\<close>

definition demo_proc :: "'x \<Rightarrow> 'x proc" where
  "demo_proc x = \<lparr>clock = (\<lambda>n. int n * Second), clock_reads = 0,
     uuids = (\<lambda>n. ''u'' @ replicate n CHR ''i''), uuid_reads = 0,
     ctx_done = (\<lambda>_. False), ctx_reads = 0, metrics = (\<lambda>_. 0), outside = x\<rparr>"

definition no_tables :: tables where
  "no_tables = \<lparr>t_repositories = [], t_subscriptions = [], t_sagas = []\<rparr>"

definition demo_world :: "'x \<Rightarrow> tables \<Rightarrow> 'x world" where
  "demo_world x d = \<lparr>clock = (\<lambda>n. int n * Second), clock_reads = 0,
     uuids = (\<lambda>n. ''u'' @ replicate n CHR ''i''), uuid_reads = 0,
     ctx_done = (\<lambda>_. False), ctx_reads = 0, metrics = (\<lambda>_. 0), outside = x,
     db = d, db_env = (\<lambda>_ d. d), db_oracle = (\<lambda>_. DbOk), db_calls = 0\<rparr>"

lemma demo_world_quiet [simp]: "quiet (demo_world x d)" "healthy (demo_world x d)"
  by (simp_all add: demo_world_def quiet_def healthy_def)

end
