(* ===== verification/Schema.thy ===== *)
theory Schema
  imports Domain
begin

text \<open>
  The migrations of \<^verbatim>\<open>cmd/server/migrations\<close> as operations on a schema: tables with their
  columns and key constraints. Indexes, data copies and \<^verbatim>\<open>NOT NULL\<close> do not decide which
  rows may be inserted together and are left out. As SQL has it, dropping a column drops
  the table constraints that mention the column.
\<close>

datatype key_constraint =
    Key "string list"                     \<comment> \<open>\<^verbatim>\<open>PRIMARY KEY\<close> or \<^verbatim>\<open>UNIQUE\<close> over these columns\<close>
  | CascadeRef string string              \<comment> \<open>column \<^verbatim>\<open>REFERENCES\<close> table \<^verbatim>\<open>ON DELETE CASCADE\<close>\<close>

record table_def =
  td_name :: string
  td_columns :: "string list"
  td_keys :: "key_constraint list"

datatype ddl =
    CreateTable table_def
  | AddColumn string string "key_constraint list"
  | DropColumn string string
  | DropTable string

fun mentions :: "string \<Rightarrow> key_constraint \<Rightarrow> bool" where
  "mentions c (Key cs) = (c \<in> set cs)"
| "mentions c (CascadeRef d t) = (c = d)"

fun apply_ddl :: "ddl \<Rightarrow> table_def list \<Rightarrow> table_def list" where
  "apply_ddl (CreateTable t) ts =
     (if find (\<lambda>u. td_name u = td_name t) ts = None then ts @ [t] else ts)"
| "apply_ddl (AddColumn n c ks) ts =
     map (\<lambda>t. if td_name t = n
              then t\<lparr>td_columns := td_columns t @ [c], td_keys := td_keys t @ ks\<rparr> else t) ts"
| "apply_ddl (DropColumn n c) ts =
     map (\<lambda>t. if td_name t = n
              then t\<lparr>td_columns := filter (\<lambda>d. d \<noteq> c) (td_columns t),
                     td_keys := filter (\<lambda>k. \<not> mentions c k) (td_keys t)\<rparr> else t) ts"
| "apply_ddl (DropTable n) ts = filter (\<lambda>t. td_name t \<noteq> n) ts"

text \<open>
  What PostgreSQL refuses: a column that exists already or whose table is missing, dropping a column
  that is not there, and dropping a table that another table refers to.
\<close>

definition has_column :: "string \<Rightarrow> string \<Rightarrow> table_def list \<Rightarrow> bool" where
  "has_column n c ts = list_ex (\<lambda>t. td_name t = n \<and> c \<in> set (td_columns t)) ts"

fun ddl_refused :: "ddl \<Rightarrow> table_def list \<Rightarrow> bool" where
  "ddl_refused (CreateTable t) ts = False"
| "ddl_refused (AddColumn n c ks) ts =
     (\<not> list_ex (\<lambda>t. td_name t = n) ts \<or> has_column n c ts)"
| "ddl_refused (DropColumn n c) ts = (\<not> has_column n c ts)"
| "ddl_refused (DropTable n) ts =
     list_ex (\<lambda>t. td_name t \<noteq> n \<and> list_ex (\<lambda>k. case k of CascadeRef c m \<Rightarrow> m = n | Key cs \<Rightarrow> False) (td_keys t)) ts"

text \<open>A migration runs its statements one after another; a refused one fails it.\<close>

fun run_ddl :: "ddl list \<Rightarrow> table_def list \<Rightarrow> table_def list option" where
  "run_ddl [] ts = Some ts"
| "run_ddl (q # qs) ts = (if ddl_refused q ts then None else run_ddl qs (apply_ddl q ts))"

definition init_up :: "ddl list" where
  "init_up =
    [CreateTable \<lparr>td_name = ''subscriptions'',
       td_columns = [''id'', ''email'', ''repo'', ''confirmed'', ''confirm_token'',
         ''unsubscribe_token'', ''last_seen_tag'', ''created_at''],
       td_keys = [Key [''id''], Key [''confirm_token''], Key [''unsubscribe_token''],
         Key [''email'', ''repo'']]\<rparr>]"

definition split_repos_up :: "ddl list" where
  "split_repos_up =
    [CreateTable \<lparr>td_name = ''repositories'',
       td_columns = [''id'', ''full_name'', ''last_seen_tag'', ''created_at''],
       td_keys = [Key [''id''], Key [''full_name'']]\<rparr>,
     AddColumn ''subscriptions'' ''repo_id'' [CascadeRef ''repo_id'' ''repositories''],
     DropColumn ''subscriptions'' ''repo'',
     DropColumn ''subscriptions'' ''last_seen_tag'']"

definition subscribe_saga_up :: "ddl list" where
  "subscribe_saga_up =
    [CreateTable \<lparr>td_name = ''subscription_sagas'',
       td_columns = [''id'', ''subscription_id'', ''state'', ''last_error'', ''started_at'',
         ''completed_at''],
       td_keys = [Key [''id''], CascadeRef ''subscription_id'' ''subscriptions'']\<rparr>]"

text \<open>The down migrations.\<close>

definition init_down :: "ddl list" where
  "init_down = [DropTable ''subscriptions'']"

definition split_repos_down :: "ddl list" where
  "split_repos_down =
    [AddColumn ''subscriptions'' ''repo'' [],
     AddColumn ''subscriptions'' ''last_seen_tag'' [],
     DropColumn ''subscriptions'' ''repo_id'',
     DropTable ''repositories'']"

definition subscribe_saga_down :: "ddl list" where
  "subscribe_saga_down = [DropTable ''subscription_sagas'']"

text \<open>What \<^verbatim>\<open>m.Up()\<close> leaves on an empty database.\<close>

definition migrated :: "table_def list" where
  "migrated = fold apply_ddl (init_up @ split_repos_up @ subscribe_saga_up) []"

definition table_keys :: "string \<Rightarrow> key_constraint list" where
  "table_keys n = (case find (\<lambda>t. td_name t = n) migrated of None \<Rightarrow> [] | Some t \<Rightarrow> td_keys t)"

lemma migrated_eq:
  "migrated =
    [\<lparr>td_name = ''subscriptions'',
       td_columns = [''id'', ''email'', ''confirmed'', ''confirm_token'',
         ''unsubscribe_token'', ''created_at'', ''repo_id''],
       td_keys = [Key [''id''], Key [''confirm_token''], Key [''unsubscribe_token''],
         CascadeRef ''repo_id'' ''repositories'']\<rparr>,
     \<lparr>td_name = ''repositories'',
       td_columns = [''id'', ''full_name'', ''last_seen_tag'', ''created_at''],
       td_keys = [Key [''id''], Key [''full_name'']]\<rparr>,
     \<lparr>td_name = ''subscription_sagas'',
       td_columns = [''id'', ''subscription_id'', ''state'', ''last_error'', ''started_at'',
         ''completed_at''],
       td_keys = [Key [''id''], CascadeRef ''subscription_id'' ''subscriptions'']\<rparr>]"
  by (simp add: migrated_def init_up_def split_repos_up_def subscribe_saga_up_def)

lemma table_keys_simps:
  "table_keys ''subscriptions'' =
     [Key [''id''], Key [''confirm_token''], Key [''unsubscribe_token''],
      CascadeRef ''repo_id'' ''repositories'']"
  "table_keys ''repositories'' = [Key [''id''], Key [''full_name'']]"
  "table_keys ''subscription_sagas'' =
     [Key [''id''], CascadeRef ''subscription_id'' ''subscriptions'']"
  by (simp_all add: table_keys_def migrated_eq)

section \<open>Up and down\<close>

lemmas migrations = init_up_def split_repos_up_def subscribe_saga_up_def init_down_def
  split_repos_down_def subscribe_saga_down_def

text \<open>No statement of the migrations is refused, up or down, and down from the top leaves nothing.\<close>

lemma migrations_run:
  "run_ddl (init_up @ split_repos_up @ subscribe_saga_up) [] = Some migrated"
  "run_ddl (subscribe_saga_down @ split_repos_down @ init_down) migrated = Some []"
  by (simp_all add: migrated_eq migrations has_column_def)

text \<open>
  The columns come back with the second down migration, but not the constraints of \<^verbatim>\<open>repo\<close>: after it
  \<^verbatim>\<open>subscriptions\<close> no longer has the key over address and repository it had before the up migration.
\<close>

lemma split_repos_down_loses_key:
  "run_ddl (subscribe_saga_down @ split_repos_down) migrated =
    Some [\<lparr>td_name = ''subscriptions'',
       td_columns = [''id'', ''email'', ''confirmed'', ''confirm_token'', ''unsubscribe_token'', ''created_at'',
         ''repo'', ''last_seen_tag''],
       td_keys = [Key [''id''], Key [''confirm_token''], Key [''unsubscribe_token'']]\<rparr>]"
  "run_ddl init_up [] = Some [\<lparr>td_name = ''subscriptions'',
       td_columns = [''id'', ''email'', ''repo'', ''confirmed'', ''confirm_token'',
         ''unsubscribe_token'', ''last_seen_tag'', ''created_at''],
       td_keys = [Key [''id''], Key [''confirm_token''], Key [''unsubscribe_token''], Key [''email'', ''repo'']]\<rparr>]"
  by (simp_all add: migrated_eq migrations has_column_def)

end
