(* ===== verification/Sql.thy ===== *)
theory Sql
  imports World Schema
begin

text \<open>
  The meaning of the SQL statements of the three PostgreSQL adapters on the tables, and
  the invariant \<open>db_ok\<close> of the tables. An \<^verbatim>\<open>INSERT\<close> checks the keys and the references
  that \<open>Schema.migrated\<close> gives the table (primary and unique keys, SQLSTATE 23505; foreign
  keys, 23503; the \<^verbatim>\<open>CHECK\<close> on \<^verbatim>\<open>state\<close>, 23514), and deleting a subscription takes its sagas
  with it (\<^verbatim>\<open>ON DELETE CASCADE\<close>). SQL does not order the rows of a \<^verbatim>\<open>SELECT\<close>: the order here
  is the table's, which the other sessions of \<open>World\<close> may permute.
\<close>

section \<open>The join of subscriptions and repositories\<close>

definition join_row :: "tables \<Rightarrow> sub_row \<Rightarrow> Subscription option" where
  "join_row d r =
     map_option (\<lambda>q. \<lparr>sub_ID = sr_id r, sub_RepoID = sr_repo_id r, sub_Repo = repo_FullName q,
        sub_Email = sr_email r, sub_Confirmed = sr_confirmed r,
        sub_LastSeenTag = repo_LastSeenTag q, sub_ConfirmToken = sr_confirm_token r,
        sub_UnsubscribeToken = sr_unsubscribe_token r, sub_CreatedAt = sr_created_at r\<rparr>)
       (find (\<lambda>q. repo_ID q = sr_repo_id r) (t_repositories d))"

definition select_subs :: "(sub_row \<Rightarrow> bool) \<Rightarrow> tables \<Rightarrow> Subscription list" where
  "select_subs P d = List.map_filter (join_row d) (filter P (t_subscriptions d))"

definition query_rows :: "(tables \<Rightarrow> 'r list) \<Rightarrow> 'r list sql" where
  "query_rows sel d = (Inr (sel d), d)"

text \<open>\<^verbatim>\<open>QueryRow(...).Scan\<close>: the first row, or \<^verbatim>\<open>pgx.ErrNoRows\<close>.\<close>

definition query_row :: "(tables \<Rightarrow> 'r list) \<Rightarrow> 'r sql" where
  "query_row sel d = ((case sel d of [] \<Rightarrow> Inl (Sentinel PgxErrNoRows) | r # _ \<Rightarrow> Inr r), d)"

section \<open>Statements on subscriptions\<close>

definition row_of_sub :: "Subscription \<Rightarrow> sub_row" where
  "row_of_sub s = \<lparr>sr_id = sub_ID s, sr_email = sub_Email s, sr_repo_id = sub_RepoID s,
     sr_confirmed = sub_Confirmed s, sr_confirm_token = sub_ConfirmToken s,
     sr_unsubscribe_token = sub_UnsubscribeToken s, sr_created_at = sub_CreatedAt s\<rparr>"

definition sql_insert_subscription :: "sub_row \<Rightarrow> unit sql" where
  "sql_insert_subscription r d =
     (if sr_id r \<in> sr_id ` set (t_subscriptions d)
      then (Inl (PgError ''23505'' ''subscriptions_pkey''), d)
      else if sr_confirm_token r \<in> sr_confirm_token ` set (t_subscriptions d)
      then (Inl (PgError ''23505'' ''subscriptions_confirm_token_key''), d)
      else if sr_unsubscribe_token r \<in> sr_unsubscribe_token ` set (t_subscriptions d)
      then (Inl (PgError ''23505'' ''subscriptions_unsubscribe_token_key''), d)
      else if sr_repo_id r \<notin> repo_ID ` set (t_repositories d)
      then (Inl (PgError ''23503'' ''subscriptions_repo_id_fkey''), d)
      else (Inr (), d\<lparr>t_subscriptions := t_subscriptions d @ [r]\<rparr>))"

definition sql_confirm :: "string \<Rightarrow> nat sql" where
  "sql_confirm i d =
     (Inr (length (filter (\<lambda>r. sr_id r = i) (t_subscriptions d))),
      d\<lparr>t_subscriptions :=
          upd_where (\<lambda>r. sr_id r = i) (\<lambda>r. r\<lparr>sr_confirmed := True\<rparr>) (t_subscriptions d)\<rparr>)"

definition sql_delete_subscription :: "string \<Rightarrow> nat sql" where
  "sql_delete_subscription i d =
     (Inr (length (filter (\<lambda>r. sr_id r = i) (t_subscriptions d))),
      d\<lparr>t_subscriptions := filter (\<lambda>r. sr_id r \<noteq> i) (t_subscriptions d),
        t_sagas := (if i \<in> sr_id ` set (t_subscriptions d)
                    then filter (\<lambda>s. saga_SubscriptionID s \<noteq> i) (t_sagas d)
                    else t_sagas d)\<rparr>)"

definition sql_exists :: "string \<Rightarrow> string \<Rightarrow> bool sql" where
  "sql_exists email repoID d =
     (Inr (list_ex (\<lambda>r. sr_email r = email \<and> sr_repo_id r = repoID) (t_subscriptions d)), d)"

section \<open>Statements on sagas\<close>

definition saga_state_check :: "string \<Rightarrow> bool" where
  "saga_state_check s = (s \<in> {''pending'', ''completed'', ''compensated'', ''timed_out''})"

definition sql_insert_saga :: "Saga \<Rightarrow> unit sql" where
  "sql_insert_saga s d =
     (if \<not> saga_state_check (saga_State s)
      then (Inl (PgError ''23514'' ''subscription_sagas_state_check''), d)
      else if saga_ID s \<in> saga_ID ` set (t_sagas d)
      then (Inl (PgError ''23505'' ''subscription_sagas_pkey''), d)
      else if saga_SubscriptionID s \<notin> sr_id ` set (t_subscriptions d)
      then (Inl (PgError ''23503'' ''subscription_sagas_subscription_id_fkey''), d)
      else (Inr (), d\<lparr>t_sagas := t_sagas d @
              [s\<lparr>saga_LastError := None, saga_CompletedAt := None\<rparr>]\<rparr>))"

definition mark_saga :: "string \<Rightarrow> string option \<Rightarrow> int \<Rightarrow> Saga \<Rightarrow> Saga" where
  "mark_saga newState lastError now s =
     s\<lparr>saga_State := newState, saga_LastError := lastError, saga_CompletedAt := Some now\<rparr>"

definition sql_mark_saga :: "string \<Rightarrow> string option \<Rightarrow> int \<Rightarrow> string \<Rightarrow> nat sql" where
  "sql_mark_saga newState lastError now i d =
     (let hit = (\<lambda>s. saga_ID s = i \<and> saga_State s = ''pending'')
      in if list_ex hit (t_sagas d) \<and> \<not> saga_state_check newState
         then (Inl (PgError ''23514'' ''subscription_sagas_state_check''), d)
         else (Inr (length (filter hit (t_sagas d))),
               d\<lparr>t_sagas := upd_where hit (mark_saga newState lastError now) (t_sagas d)\<rparr>))"

section \<open>Statements on repositories\<close>

definition sql_get_or_create :: "string \<Rightarrow> string \<Rightarrow> int \<Rightarrow> Repository sql" where
  "sql_get_or_create i fullName now d =
     (case find (\<lambda>q. repo_FullName q = fullName) (t_repositories d) of
        Some q \<Rightarrow> (Inr q, d)
      | None \<Rightarrow>
          (if i \<in> repo_ID ` set (t_repositories d)
           then (Inl (PgError ''23505'' ''repositories_pkey''), d)
           else (let q = \<lparr>repo_ID = i, repo_FullName = fullName, repo_LastSeenTag = None,
                          repo_CreatedAt = now\<rparr>
                 in (Inr q, d\<lparr>t_repositories := t_repositories d @ [q]\<rparr>))))"

definition sql_update_tag :: "string \<Rightarrow> string \<Rightarrow> unit sql" where
  "sql_update_tag i tag d =
     (Inr (), d\<lparr>t_repositories :=
        upd_where (\<lambda>q. repo_ID q = i) (\<lambda>q. q\<lparr>repo_LastSeenTag := Some tag\<rparr>) (t_repositories d)\<rparr>)"

definition has_confirmed :: "tables \<Rightarrow> Repository \<Rightarrow> bool" where
  "has_confirmed d q =
     list_ex (\<lambda>r. sr_repo_id r = repo_ID q \<and> sr_confirmed r) (t_subscriptions d)"

section \<open>The invariant of the tables\<close>

text \<open>
  Every key of the migrated schema is a key, every reference has its row, and every saga
  state passes its \<^verbatim>\<open>CHECK\<close>.
\<close>

definition db_ok :: "tables \<Rightarrow> bool" where
  "db_ok d \<longleftrightarrow>
     distinct (map sr_id (t_subscriptions d)) \<and>
     distinct (map sr_confirm_token (t_subscriptions d)) \<and>
     distinct (map sr_unsubscribe_token (t_subscriptions d)) \<and>
     sr_repo_id ` set (t_subscriptions d) \<subseteq> repo_ID ` set (t_repositories d) \<and>
     distinct (map repo_ID (t_repositories d)) \<and>
     distinct (map repo_FullName (t_repositories d)) \<and>
     distinct (map saga_ID (t_sagas d)) \<and>
     saga_SubscriptionID ` set (t_sagas d) \<subseteq> sr_id ` set (t_subscriptions d) \<and>
     (\<forall>s \<in> set (t_sagas d). saga_state_check (saga_State s))"

lemma db_ok_no_tables: "db_ok no_tables"
  by (simp add: db_ok_def no_tables_def)

definition sql_keeps :: "'r sql \<Rightarrow> bool" where
  "sql_keeps stmt = (\<forall>d. db_ok d \<longrightarrow> db_ok (snd (stmt d)))"

lemma keeps_query [simp]: "sql_keeps (query_rows sel)" "sql_keeps (query_row sel)"
  "sql_keeps (sql_exists a b)"
  by (simp_all add: sql_keeps_def query_rows_def query_row_def sql_exists_def)

lemma keeps_insert_subscription [simp]: "sql_keeps (sql_insert_subscription r)"
  by (auto simp: sql_keeps_def db_ok_def sql_insert_subscription_def)

lemma keeps_confirm [simp]: "sql_keeps (sql_confirm i)"
  by (simp add: sql_keeps_def db_ok_def sql_confirm_def image_upd_where map_upd_where)

lemma keeps_delete [simp]: "sql_keeps (sql_delete_subscription i)"
  unfolding sql_keeps_def
proof (intro allI impI)
  fix d assume ok: "db_ok d"
  have refs: "\<forall>s \<in> set (t_sagas d). \<exists>r \<in> set (t_subscriptions d). sr_id r = saga_SubscriptionID s"
    using ok unfolding db_ok_def by fastforce
  have "saga_SubscriptionID s \<in> sr_id ` {r \<in> set (t_subscriptions d). sr_id r \<noteq> i}"
    if "s \<in> set (t_sagas d)" "saga_SubscriptionID s \<noteq> i \<or> i \<notin> sr_id ` set (t_subscriptions d)"
    for s
    using refs that by (metis (mono_tags, lifting) image_eqI mem_Collect_eq)
  then show "db_ok (snd (sql_delete_subscription i d))"
    using ok unfolding db_ok_def sql_delete_subscription_def
    by (simp add: distinct_map_filter image_subset_iff)
qed

lemma keeps_insert_saga [simp]: "sql_keeps (sql_insert_saga s)"
  by (auto simp: sql_keeps_def db_ok_def sql_insert_saga_def)

lemma keeps_mark [simp]: "sql_keeps (sql_mark_saga st e t i)"
  unfolding sql_keeps_def db_ok_def sql_mark_saga_def Let_def
  by (simp add: image_upd_where map_upd_where mark_saga_def list_ex_iff)
    (auto simp: upd_where_def mark_saga_def)

lemma keeps_get_or_create [simp]: "sql_keeps (sql_get_or_create i n t)"
  unfolding sql_keeps_def db_ok_def sql_get_or_create_def Let_def
  by (auto split: option.splits simp: find_None_iff)

lemma keeps_update_tag [simp]: "sql_keeps (sql_update_tag i t)"
  by (simp add: sql_keeps_def db_ok_def sql_update_tag_def image_upd_where map_upd_where)

end
