(* ===== verification/Postgres.thy ===== *)
theory Postgres
  imports Sql
begin

text \<open>
  The PostgreSQL adapters: \<^verbatim>\<open>internal/subscription/adapter/postgres\<close> (\<^verbatim>\<open>subscription.go\<close>,
  \<^verbatim>\<open>saga.go\<close>) and \<^verbatim>\<open>internal/release/adapter/postgres/repo.go\<close>. Each method issues the
  statement of \<open>Sql\<close> through \<open>exec_sql\<close> and maps its errors as the code does. The two insert
  helpers take the executor they run on, as \<^verbatim>\<open>pgxExecer\<close> lets them: the pool or an open
  transaction.
\<close>

section \<open>Errors of the driver\<close>

text \<open>\<^verbatim>\<open>errors.As(err, &pgErr)\<close>: the SQLSTATE of the first server error in the chain.\<close>

fun errors_As_PgError :: "goerr \<Rightarrow> string option" where
  "errors_As_PgError (PgError c m) = Some c"
| "errors_As_PgError (Errorf p e) = errors_As_PgError e"
| "errors_As_PgError (Errorf2 e f) =
     (case errors_As_PgError e of Some c \<Rightarrow> Some c | None \<Rightarrow> errors_As_PgError f)"
| "errors_As_PgError (Join e f) =
     (case errors_As_PgError e of Some c \<Rightarrow> Some c | None \<Rightarrow> errors_As_PgError f)"
| "errors_As_PgError _ = None"

definition isUniqueViolation :: "goerr \<Rightarrow> bool" where
  "isUniqueViolation err = (errors_As_PgError err = Some ''23505'')"

text \<open>A row query: \<^verbatim>\<open>pgx.ErrNoRows\<close> becomes the domain's not-found, the rest is wrapped.\<close>

definition one_row :: "string \<Rightarrow> (tables \<Rightarrow> 'r list) \<Rightarrow> 'x world \<Rightarrow> (goerr + 'r) \<times> 'x world" where
  "one_row what sel w =
     (case exec_sql (query_row sel) w of
        (Inl e, w') \<Rightarrow>
          (if errors_Is e PgxErrNoRows then (Inl (Sentinel DomainErrNotFound), w')
           else (Inl (Errorf what e), w'))
      | (Inr r, w') \<Rightarrow> (Inr r, w'))"

text \<open>
  A query of many rows: an error of \<^verbatim>\<open>Query\<close> is wrapped, one met while the rows are read
  (\<^verbatim>\<open>rows.Err()\<close>, here the lost answer) is returned as it is.
\<close>

definition many_rows :: "string \<Rightarrow> (tables \<Rightarrow> 'r list) \<Rightarrow> 'x world \<Rightarrow> (goerr + 'r list) \<times> 'x world" where
  "many_rows what sel w =
     (case exec_sql (query_rows sel) w of
        (Inl e, w') \<Rightarrow>
          (case db_oracle w (db_calls w) of
             DbLost m \<Rightarrow> (Inl e, w')
           | _ \<Rightarrow> (Inl (Errorf what e), w'))
      | (Inr rs, w') \<Rightarrow> (Inr rs, w'))"

text \<open>\<^verbatim>\<open>Exec\<close> followed by the check that some row was affected.\<close>

definition exec_affecting :: "string \<Rightarrow> nat sql \<Rightarrow> 'x world \<Rightarrow> goerr option \<times> 'x world" where
  "exec_affecting what stmt w =
     (case exec_sql stmt w of
        (Inl e, w') \<Rightarrow> (Some (Errorf what e), w')
      | (Inr n, w') \<Rightarrow>
          (if n = 0 then (Some (Sentinel DomainErrNotFound), w') else (None, w')))"

section \<open>Inserts\<close>

definition insertSagaRow ::
    "(unit sql \<Rightarrow> 's \<Rightarrow> (goerr + unit) \<times> 's) \<Rightarrow> Saga \<Rightarrow> 's \<Rightarrow> goerr option \<times> 's" where
  "insertSagaRow ex s w =
     (case ex (sql_insert_saga s) w of
        (Inl err, w') \<Rightarrow> (Some (Errorf ''create saga'' err), w')
      | (Inr _, w') \<Rightarrow> (None, w'))"

definition insertSubscriptionRow ::
    "(unit sql \<Rightarrow> 's \<Rightarrow> (goerr + unit) \<times> 's) \<Rightarrow> Subscription \<Rightarrow> 's \<Rightarrow> goerr option \<times> 's" where
  "insertSubscriptionRow ex sub w =
     (case ex (sql_insert_subscription (row_of_sub sub)) w of
        (Inl err, w') \<Rightarrow>
          (if isUniqueViolation err then (Some (Sentinel DomainErrAlreadyExists), w')
           else (Some (Errorf ''create subscription'' err), w'))
      | (Inr _, w') \<Rightarrow> (None, w'))"

definition SagaRepository_Create :: "Saga \<Rightarrow> 'x world \<Rightarrow> goerr option \<times> 'x world" where
  "SagaRepository_Create s = insertSagaRow exec_sql s"

definition SubscriptionRepository_Create :: "Subscription \<Rightarrow> 'x world \<Rightarrow> goerr option \<times> 'x world" where
  "SubscriptionRepository_Create sub = insertSubscriptionRow exec_sql sub"

text \<open>
  An open transaction is the tables as it sees them and the world: its statements work on
  its own copy, and only \<^verbatim>\<open>Commit\<close> publishes the copy. Sessions that would conflict with its
  rows wait for it, so the other sessions take their turn before \<^verbatim>\<open>Begin\<close>. A failed
  statement or a lost connection inside it rolls it back.
\<close>

type_synonym 'x tx = "tables \<times> 'x world"

definition db_Begin :: "'x world \<Rightarrow> string option \<times> 'x world" where
  "db_Begin w =
     (case db_oracle w (db_calls w) of
        DbOk \<Rightarrow> (None, db_turn w) | DbFail m \<Rightarrow> (Some m, db_turn w) | DbLost m \<Rightarrow> (Some m, db_turn w))"

definition tx_exec :: "unit sql \<Rightarrow> 'x tx \<Rightarrow> (goerr + unit) \<times> 'x tx" where
  "tx_exec stmt t =
     (let d = fst t; w = snd t; w1 = w\<lparr>db_calls := Suc (db_calls w)\<rparr> in
      case db_oracle w (db_calls w) of
        DbOk \<Rightarrow> (fst (stmt d), (snd (stmt d), w1))
      | DbFail m \<Rightarrow> (Inl (Opaque m), (d, w1))
      | DbLost m \<Rightarrow> (Inl (Opaque m), (d, w1)))"

definition tx_Commit :: "'x tx \<Rightarrow> string option \<times> 'x world" where
  "tx_Commit t =
     (let d = fst t; w = snd t; w1 = w\<lparr>db_calls := Suc (db_calls w)\<rparr> in
      case db_oracle w (db_calls w) of
        DbOk \<Rightarrow> (None, w1\<lparr>db := d\<rparr>)
      | DbFail m \<Rightarrow> (Some m, w1)
      | DbLost m \<Rightarrow> (Some m, w1\<lparr>db := d\<rparr>))"

definition CreateWithSaga :: "Subscription \<Rightarrow> Saga \<Rightarrow> 'x world \<Rightarrow> goerr option \<times> 'x world" where
  "CreateWithSaga sub s w =
     (case db_Begin w of
        (Some m, w1) \<Rightarrow> (Some (Errorf ''begin tx'' (Opaque m)), w1)
      | (None, w1) \<Rightarrow>
          (case insertSubscriptionRow tx_exec sub (db w1, w1) of
             (Some err, t) \<Rightarrow> (Some err, snd t)
           | (None, t) \<Rightarrow>
               (case insertSagaRow tx_exec s t of
                  (Some err, t') \<Rightarrow> (Some err, snd t')
                | (None, t') \<Rightarrow>
                    (case tx_Commit t' of
                       (Some m, w2) \<Rightarrow> (Some (Errorf ''commit subscription+saga'' (Opaque m)), w2)
                     | (None, w2) \<Rightarrow> (None, w2)))))"

section \<open>Queries and updates on subscriptions\<close>

definition GetByID :: "string \<Rightarrow> 'x world \<Rightarrow> (goerr + Subscription) \<times> 'x world" where
  "GetByID i = one_row ''get by id'' (select_subs (\<lambda>r. sr_id r = i))"

definition GetByConfirmToken :: "string \<Rightarrow> 'x world \<Rightarrow> (goerr + Subscription) \<times> 'x world" where
  "GetByConfirmToken token =
     one_row ''get by confirm token'' (select_subs (\<lambda>r. sr_confirm_token r = token))"

definition GetByUnsubscribeToken :: "string \<Rightarrow> 'x world \<Rightarrow> (goerr + Subscription) \<times> 'x world" where
  "GetByUnsubscribeToken token =
     one_row ''get by unsubscribe token'' (select_subs (\<lambda>r. sr_unsubscribe_token r = token))"

definition GetByEmail :: "string \<Rightarrow> 'x world \<Rightarrow> (goerr + Subscription list) \<times> 'x world" where
  "GetByEmail email =
     many_rows ''get by email'' (select_subs (\<lambda>r. sr_email r = email \<and> sr_confirmed r = True))"

definition GetConfirmedByRepoID :: "string \<Rightarrow> 'x world \<Rightarrow> (goerr + Subscription list) \<times> 'x world" where
  "GetConfirmedByRepoID repoID =
     many_rows ''get confirmed by repo id''
       (select_subs (\<lambda>r. sr_repo_id r = repoID \<and> sr_confirmed r = True))"

definition SubscriptionRepository_Confirm :: "string \<Rightarrow> 'x world \<Rightarrow> goerr option \<times> 'x world" where
  "SubscriptionRepository_Confirm i = exec_affecting ''confirm subscription'' (sql_confirm i)"

definition SubscriptionRepository_Delete :: "string \<Rightarrow> 'x world \<Rightarrow> goerr option \<times> 'x world" where
  "SubscriptionRepository_Delete i =
     exec_affecting ''delete subscription'' (sql_delete_subscription i)"

definition ExistsByEmailAndRepoID :: "string \<Rightarrow> string \<Rightarrow> 'x world \<Rightarrow> (goerr + bool) \<times> 'x world" where
  "ExistsByEmailAndRepoID email repoID w =
     (case exec_sql (sql_exists email repoID) w of
        (Inl err, w') \<Rightarrow> (Inl (Errorf ''check exists'' err), w')
      | (Inr b, w') \<Rightarrow> (Inr b, w'))"

section \<open>Sagas\<close>

definition select_saga :: "string \<Rightarrow> tables \<Rightarrow> Saga list" where
  "select_saga i d = filter (\<lambda>s. saga_ID s = i) (t_sagas d)"

definition SagaRepository_Get :: "string \<Rightarrow> 'x world \<Rightarrow> (goerr + Saga) \<times> 'x world" where
  "SagaRepository_Get i = one_row ''get saga'' (select_saga i)"

definition markTerminal ::
    "string \<Rightarrow> SagaState \<Rightarrow> string option \<Rightarrow> 'x world \<Rightarrow> goerr option \<times> 'x world" where
  "markTerminal i newState lastError w =
     (let (now, w1) = time_Now w
      in exec_affecting (''mark saga '' @ newState) (sql_mark_saga newState lastError now i) w1)"

definition MarkCompleted :: "string \<Rightarrow> 'x world \<Rightarrow> goerr option \<times> 'x world" where
  "MarkCompleted i = markTerminal i SagaStateCompleted None"

definition MarkCompensated :: "string \<Rightarrow> string \<Rightarrow> 'x world \<Rightarrow> goerr option \<times> 'x world" where
  "MarkCompensated i reason = markTerminal i SagaStateCompensated (Some reason)"

definition MarkTimedOut :: "string \<Rightarrow> 'x world \<Rightarrow> goerr option \<times> 'x world" where
  "MarkTimedOut i = markTerminal i SagaStateTimedOut (Some ''timeout'')"

definition GetPendingOlderThan :: "int \<Rightarrow> 'x world \<Rightarrow> (goerr + Saga list) \<times> 'x world" where
  "GetPendingOlderThan threshold =
     many_rows ''get pending sagas''
       (\<lambda>d. filter (\<lambda>s. saga_State s = ''pending'' \<and> saga_StartedAt s < threshold) (t_sagas d))"

section \<open>Repositories\<close>

definition GetOrCreate :: "string \<Rightarrow> 'x world \<Rightarrow> (goerr + Repository) \<times> 'x world" where
  "GetOrCreate fullName w =
     (let (i, w1) = uuid_New w; (now, w2) = time_Now w1 in
      case exec_sql (sql_get_or_create i fullName now) w2 of
        (Inl err, w') \<Rightarrow> (Inl (Errorf ''get or create repository'' err), w')
      | (Inr repo, w') \<Rightarrow> (Inr repo, w'))"

definition GetAllWithConfirmedSubscriptions :: "'x world \<Rightarrow> (goerr + Repository list) \<times> 'x world" where
  "GetAllWithConfirmedSubscriptions =
     many_rows ''get repos with confirmed subscriptions''
       (\<lambda>d. filter (has_confirmed d) (t_repositories d))"

definition UpdateLastSeenTag :: "string \<Rightarrow> string \<Rightarrow> 'x world \<Rightarrow> goerr option \<times> 'x world" where
  "UpdateLastSeenTag i tag w =
     (case exec_sql (sql_update_tag i tag) w of
        (Inl err, w') \<Rightarrow> (Some (Errorf ''update last seen tag'' err), w')
      | (Inr _, w') \<Rightarrow> (None, w'))"

section \<open>New entities\<close>

definition NewSubscription ::
    "string \<Rightarrow> string \<Rightarrow> string \<Rightarrow> ('x, 'm) proc_scheme \<Rightarrow> Subscription \<times> ('x, 'm) proc_scheme" where
  "NewSubscription email repoID repoName w =
     (let (i, w1) = uuid_New w; (ct, w2) = uuid_New w1; (ut, w3) = uuid_New w2;
          (now, w4) = time_Now w3
      in (\<lparr>sub_ID = i, sub_RepoID = repoID, sub_Repo = repoName, sub_Email = email,
           sub_Confirmed = False, sub_LastSeenTag = None, sub_ConfirmToken = ct,
           sub_UnsubscribeToken = ut, sub_CreatedAt = now\<rparr>, w4))"

definition NewSaga :: "string \<Rightarrow> ('x, 'm) proc_scheme \<Rightarrow> Saga \<times> ('x, 'm) proc_scheme" where
  "NewSaga subscriptionID w =
     (let (i, w1) = uuid_New w; (now, w2) = time_Now w1
      in (\<lparr>saga_ID = i, saga_SubscriptionID = subscriptionID, saga_State = SagaStatePending,
           saga_LastError = None, saga_StartedAt = now, saga_CompletedAt = None\<rparr>, w2))"

end
