(* ===== verification/Orchestrator.thy ===== *)
theory Orchestrator
  imports Domain
begin

text \<open>
  \<^verbatim>\<open>internal/subscription/saga/orchestrator.go\<close> and \<^verbatim>\<open>timeout_sweeper.go\<close>. The orchestrator is a
  record of the ports it is built with, as the Go struct is; its state \<open>'w\<close> is whatever the
  ports work on. Nothing here knows PostgreSQL: \<open>SagaLaws\<close> states what the ports promise and
  \<open>SagaStore\<close> gives them the repositories of \<open>Postgres\<close>.
\<close>

section \<open>Ports\<close>

record 'w sagaStore =
  ss_Get :: "string \<Rightarrow> 'w \<Rightarrow> (goerr + Saga) \<times> 'w"
  ss_MarkCompleted :: "string \<Rightarrow> 'w \<Rightarrow> goerr option \<times> 'w"
  ss_MarkCompensated :: "string \<Rightarrow> string \<Rightarrow> 'w \<Rightarrow> goerr option \<times> 'w"
  ss_MarkTimedOut :: "string \<Rightarrow> 'w \<Rightarrow> goerr option \<times> 'w"
  ss_GetPendingOlderThan :: "int \<Rightarrow> 'w \<Rightarrow> (goerr + Saga list) \<times> 'w"

record 'w subStore =
  us_Delete :: "string \<Rightarrow> 'w \<Rightarrow> goerr option \<times> 'w"
  us_GetByID :: "string \<Rightarrow> 'w \<Rightarrow> (goerr + Subscription) \<times> 'w"

text \<open>
  \<^verbatim>\<open>commandPublisher\<close> and \<^verbatim>\<open>syncRetrier\<close> have one method each, with the same arguments: saga
  id, recipient, repository, confirmation URL.
\<close>

type_synonym 'w sender = "string \<Rightarrow> string \<Rightarrow> string \<Rightarrow> string \<Rightarrow> 'w \<Rightarrow> goerr option \<times> 'w"

record 'w Orchestrator =
  or_commands :: "'w sender"
  or_sagas :: "'w sagaStore"
  or_subs :: "'w subStore"
  or_retrier :: "'w sender"
  or_baseURL :: string

section \<open>Operations\<close>

definition confirm_url :: "string \<Rightarrow> string \<Rightarrow> string" where
  "confirm_url baseURL token = baseURL @ ''/api/confirm/'' @ token"

definition HandleSent :: "'w Orchestrator \<Rightarrow> string \<Rightarrow> 'w \<Rightarrow> goerr option \<times> 'w" where
  "HandleSent oc sagaID w =
     (case ss_MarkCompleted (or_sagas oc) sagaID w of
        (Some err, w1) \<Rightarrow>
          (if errors_Is err DomainErrNotFound then (None, w1)
           else (Some (Errorf ''mark saga completed'' err), w1))
      | (None, w1) \<Rightarrow> (None, w1))"

text \<open>\<^verbatim>\<open>err != nil && !errors.Is(err, domain.ErrNotFound)\<close>.\<close>

definition real_error :: "goerr option \<Rightarrow> bool" where
  "real_error e = (case e of None \<Rightarrow> False | Some err \<Rightarrow> \<not> errors_Is err DomainErrNotFound)"

definition HandleFailed :: "'w Orchestrator \<Rightarrow> string \<Rightarrow> string \<Rightarrow> 'w \<Rightarrow> goerr option \<times> 'w" where
  "HandleFailed oc sagaID reason w =
     (case ss_Get (or_sagas oc) sagaID w of
        (Inl err, w1) \<Rightarrow>
          (if errors_Is err DomainErrNotFound then (None, w1)
           else (Some (Errorf ''get saga'' err), w1))
      | (Inr s, w1) \<Rightarrow>
          (if saga_State s \<noteq> SagaStatePending then (None, w1)
           else
             (case us_Delete (or_subs oc) (saga_SubscriptionID s) w1 of
                (err, w2) \<Rightarrow>
                  (if real_error err
                   then (map_option (Errorf ''compensate delete subscription'') err, w2)
                   else
                     (case ss_MarkCompensated (or_sagas oc) sagaID reason w2 of
                        (Some merr, w3) \<Rightarrow>
                          (if errors_Is merr DomainErrNotFound then (None, w3)
                           else (Some (Errorf ''mark saga compensated'' merr), w3))
                      | (None, w3) \<Rightarrow> (None, w3))))))"

definition AttemptSyncRetry :: "'w Orchestrator \<Rightarrow> string \<Rightarrow> 'w \<Rightarrow> goerr option \<times> 'w" where
  "AttemptSyncRetry oc sagaID w =
     (case ss_Get (or_sagas oc) sagaID w of
        (Inl err, w1) \<Rightarrow> (Some (Errorf ''get saga'' err), w1)
      | (Inr s, w1) \<Rightarrow>
          (if saga_State s \<noteq> SagaStatePending then (None, w1)
           else
             (case us_GetByID (or_subs oc) (saga_SubscriptionID s) w1 of
                (Inl err, w2) \<Rightarrow> (Some (Errorf ''get subscription'' err), w2)
              | (Inr sub, w2) \<Rightarrow>
                  (case or_retrier oc sagaID (sub_Email sub) (sub_Repo sub)
                          (confirm_url (or_baseURL oc) (sub_ConfirmToken sub)) w2 of
                     (Some err, w3) \<Rightarrow> (Some (Errorf ''sync retry'' err), w3)
                   | (None, w3) \<Rightarrow>
                       (case ss_MarkCompleted (or_sagas oc) sagaID w3 of
                          (Some err, w4) \<Rightarrow>
                            (if errors_Is err DomainErrNotFound then (None, w4)
                             else (Some (Errorf ''mark saga completed'' err), w4))
                        | (None, w4) \<Rightarrow> (None, w4))))))"

text \<open>An error of the inline compensation is logged and dropped.\<close>

definition Publish ::
    "'w Orchestrator \<Rightarrow> string \<Rightarrow> Subscription \<Rightarrow> string \<Rightarrow> 'w \<Rightarrow> goerr option \<times> 'w" where
  "Publish oc sagaID sub confirmURL w =
     (case or_commands oc sagaID (sub_Email sub) (sub_Repo sub) confirmURL w of
        (Some err, w1) \<Rightarrow>
          (let reason = ''publish_failed: '' @ error_text err;
               (compErr, w2) = HandleFailed oc sagaID reason w1
           in (Some (Errorf ''publish saga command'' err), w2))
      | (None, w1) \<Rightarrow> (None, w1))"

section \<open>The timeout sweeper\<close>

text \<open>
  The sweeper reads the clock and the context of the process, given as \<open>now\<close> and \<open>ctxErr\<close>.
  Both of its handlers are the orchestrator's.
\<close>

record 'w TimeoutSweeper =
  sw_GetPendingOlderThan :: "int \<Rightarrow> 'w \<Rightarrow> (goerr + Saga list) \<times> 'w"
  sw_AttemptSyncRetry :: "string \<Rightarrow> 'w \<Rightarrow> goerr option \<times> 'w"
  sw_HandleFailed :: "string \<Rightarrow> string \<Rightarrow> 'w \<Rightarrow> goerr option \<times> 'w"
  sw_timeout :: int
  sw_interval :: int
  sw_now :: "'w \<Rightarrow> int \<times> 'w"
  sw_ctxErr :: "'w \<Rightarrow> bool \<times> 'w"

fun sweep_each :: "'w TimeoutSweeper \<Rightarrow> Saga list \<Rightarrow> 'w \<Rightarrow> 'w" where
  "sweep_each sw [] w = w"
| "sweep_each sw (s # stuck) w =
     (case sw_ctxErr sw w of
        (True, w1) \<Rightarrow> w1
      | (False, w1) \<Rightarrow>
          (case sw_AttemptSyncRetry sw (saga_ID s) w1 of
             (None, w2) \<Rightarrow> sweep_each sw stuck w2
           | (Some retryErr, w2) \<Rightarrow>
               (let reason = ''timeout_after_grpc_retry_failed: '' @ error_text retryErr
                in sweep_each sw stuck (snd (sw_HandleFailed sw (saga_ID s) reason w2)))))"

definition sweep :: "'w TimeoutSweeper \<Rightarrow> 'w \<Rightarrow> 'w" where
  "sweep sw w =
     (let (now, w1) = sw_now sw w; threshold = now - sw_timeout sw in
      case sw_GetPendingOlderThan sw threshold w1 of
        (Inl err, w2) \<Rightarrow> w2
      | (Inr stuck, w2) \<Rightarrow> (if length stuck = 0 then w2 else sweep_each sw stuck w2))"

text \<open>
  \<^verbatim>\<open>Run\<close>: \<^verbatim>\<open>time.NewTicker\<close> panics on an interval that is not positive; else one sweep at once,
  then what the \<^verbatim>\<open>select\<close> picks. With no event left the loop is still waiting; it returns when
  the context is done.
\<close>

datatype loop_event = Tick | CtxDone

datatype loop_end = Waiting | Returned | Panicked

fun ticker_loop :: "('w \<Rightarrow> 'w) \<Rightarrow> loop_event list \<Rightarrow> 'w \<Rightarrow> loop_end \<times> 'w" where
  "ticker_loop work [] w = (Waiting, w)"
| "ticker_loop work (CtxDone # es) w = (Returned, w)"
| "ticker_loop work (Tick # es) w = ticker_loop work es (work w)"

definition Sweeper_Run :: "'w TimeoutSweeper \<Rightarrow> loop_event list \<Rightarrow> 'w \<Rightarrow> loop_end \<times> 'w" where
  "Sweeper_Run sw es w =
     (if sw_interval sw \<le> 0 then (Panicked, w) else ticker_loop (sweep sw) es (sweep sw w))"

text \<open>The sweeper of an orchestrator, as \<^verbatim>\<open>setupServices\<close> builds it.\<close>

definition NewTimeoutSweeper ::
    "'w Orchestrator \<Rightarrow> int \<Rightarrow> int \<Rightarrow> ('w \<Rightarrow> int \<times> 'w) \<Rightarrow> ('w \<Rightarrow> bool \<times> 'w) \<Rightarrow> 'w TimeoutSweeper" where
  "NewTimeoutSweeper oc timeout interval now ctxErr =
     \<lparr>sw_GetPendingOlderThan = ss_GetPendingOlderThan (or_sagas oc),
      sw_AttemptSyncRetry = AttemptSyncRetry oc, sw_HandleFailed = HandleFailed oc,
      sw_timeout = timeout, sw_interval = interval, sw_now = now, sw_ctxErr = ctxErr\<rparr>"

section \<open>The paths through the handlers\<close>

text \<open>Each handler as its cases: the calls it has made, the state it stops in, and its error.\<close>

lemma HandleSent_path:
  assumes "HandleSent oc i w = (r, w')"
  obtains e where "ss_MarkCompleted (or_sagas oc) i w = (e, w')" "r = None \<longleftrightarrow> \<not> real_error e"
  using assms by (auto simp: HandleSent_def real_error_def split: prod.splits option.splits if_splits)

lemma HandleFailed_path:
  assumes run: "HandleFailed oc i reason w = (r, w')"
  obtains (absent) e where "ss_Get (or_sagas oc) i w = (Inl e, w')" "r = None \<longleftrightarrow> errors_Is e DomainErrNotFound"
  | (settled) s where "ss_Get (or_sagas oc) i w = (Inr s, w')" "saga_State s \<noteq> SagaStatePending" "r = None"
  | (undeleted) s w1 e where "ss_Get (or_sagas oc) i w = (Inr s, w1)" "saga_State s = SagaStatePending"
      "us_Delete (or_subs oc) (saga_SubscriptionID s) w1 = (e, w')" "real_error e" "r \<noteq> None"
  | (deleted) s w1 e w2 me where "ss_Get (or_sagas oc) i w = (Inr s, w1)" "saga_State s = SagaStatePending"
      "us_Delete (or_subs oc) (saga_SubscriptionID s) w1 = (e, w2)" "\<not> real_error e"
      "ss_MarkCompensated (or_sagas oc) i reason w2 = (me, w')" "r = None \<longleftrightarrow> \<not> real_error me"
proof -
  obtain x w1 where get: "ss_Get (or_sagas oc) i w = (x, w1)" by fastforce
  show ?thesis
  proof (cases "\<exists>s. x = Inr s \<and> saga_State s = SagaStatePending")
    case False
    then show ?thesis
      using run get absent settled by (cases x) (auto simp: HandleFailed_def split: if_splits)
  next
    case True
    then obtain s where s: "x = Inr s" "saga_State s = SagaStatePending" by blast
    obtain e w2 where del: "us_Delete (or_subs oc) (saga_SubscriptionID s) w1 = (e, w2)" by fastforce
    obtain me w3 where mark: "ss_MarkCompensated (or_sagas oc) i reason w2 = (me, w3)" by fastforce
    show ?thesis
    proof (cases "real_error e")
      case True
      moreover have "w' = w2" "r \<noteq> None"
        using True run get s del by (auto simp: HandleFailed_def real_error_def split: option.splits)
      ultimately show ?thesis using undeleted get s del by blast
    next
      case False
      moreover have "w' = w3" "r = None \<longleftrightarrow> \<not> real_error me"
        using False run get s del mark by (auto simp: HandleFailed_def real_error_def split: option.splits if_splits)
      ultimately show ?thesis using deleted get s del mark by blast
    qed
  qed
qed

lemma AttemptSyncRetry_path:
  assumes run: "AttemptSyncRetry oc i w = (r, w')"
  obtains (absent) e where "ss_Get (or_sagas oc) i w = (Inl e, w')" "r \<noteq> None"
  | (settled) s where "ss_Get (or_sagas oc) i w = (Inr s, w')" "saga_State s \<noteq> SagaStatePending" "r = None"
  | (unread) s w1 e where "ss_Get (or_sagas oc) i w = (Inr s, w1)" "saga_State s = SagaStatePending"
      "us_GetByID (or_subs oc) (saga_SubscriptionID s) w1 = (Inl e, w')" "r \<noteq> None"
  | (refused) s w1 sub w2 e where "ss_Get (or_sagas oc) i w = (Inr s, w1)" "saga_State s = SagaStatePending"
      "us_GetByID (or_subs oc) (saga_SubscriptionID s) w1 = (Inr sub, w2)"
      "or_retrier oc i (sub_Email sub) (sub_Repo sub) (confirm_url (or_baseURL oc) (sub_ConfirmToken sub)) w2 = (Some e, w')"
      "r \<noteq> None"
  | (sent) s w1 sub w2 w3 me where "ss_Get (or_sagas oc) i w = (Inr s, w1)" "saga_State s = SagaStatePending"
      "us_GetByID (or_subs oc) (saga_SubscriptionID s) w1 = (Inr sub, w2)"
      "or_retrier oc i (sub_Email sub) (sub_Repo sub) (confirm_url (or_baseURL oc) (sub_ConfirmToken sub)) w2 = (None, w3)"
      "ss_MarkCompleted (or_sagas oc) i w3 = (me, w')" "r = None \<longleftrightarrow> \<not> real_error me"
proof -
  obtain x w1 where get: "ss_Get (or_sagas oc) i w = (x, w1)" by fastforce
  show ?thesis
  proof (cases "\<exists>s. x = Inr s \<and> saga_State s = SagaStatePending")
    case False
    then show ?thesis
      using run get absent settled by (cases x) (auto simp: AttemptSyncRetry_def split: if_splits)
  next
    case True
    then obtain s where s: "x = Inr s" "saga_State s = SagaStatePending" by blast
    obtain y w2 where byid: "us_GetByID (or_subs oc) (saga_SubscriptionID s) w1 = (y, w2)" by fastforce
    show ?thesis
    proof (cases y)
      case (Inl e)
      then show ?thesis using run get s byid unread by (auto simp: AttemptSyncRetry_def)
    next
      case (Inr sub)
      obtain e w3 where rt: "or_retrier oc i (sub_Email sub) (sub_Repo sub)
          (confirm_url (or_baseURL oc) (sub_ConfirmToken sub)) w2 = (e, w3)" by fastforce
      obtain me w4 where mark: "ss_MarkCompleted (or_sagas oc) i w3 = (me, w4)" by fastforce
      show ?thesis
        using run get s byid Inr rt mark refused[of s w1 sub w2] sent[of s w1 sub w2 w3 me]
        by (cases e) (auto simp: AttemptSyncRetry_def real_error_def split: option.splits if_splits)
    qed
  qed
qed

lemma sweep_path:
  assumes "sweep sw w = w'"
  obtains (unread) t w1 e where "sw_now sw w = (t, w1)" "sw_GetPendingOlderThan sw (t - sw_timeout sw) w1 = (Inl e, w')"
  | (swept) t w1 stuck w2 where "sw_now sw w = (t, w1)"
      "sw_GetPendingOlderThan sw (t - sw_timeout sw) w1 = (Inr stuck, w2)" "sweep_each sw stuck w2 = w'"
  using assms by (auto simp: sweep_def Let_def split: prod.splits sum.splits if_splits)

end
