(* ===== verification/SagaLaws.thy ===== *)
theory SagaLaws
  imports Orchestrator
begin

text \<open>
  What the orchestrator's ports promise, as locales, and what the orchestrator does with it.
  A state \<open>w\<close> is seen through two partial maps, \<open>saga_at w\<close> and \<open>sub_at w\<close>. \<open>others w w'\<close> says
  that only other sessions acted between \<open>w\<close> and \<open>w'\<close>; \<open>alone w\<close> that there are none, so the
  maps do not move by themselves; \<open>sure w\<close> that the store always answers. Every law holds for a port that may fail, and for one whose
  effect took place while its answer was lost.
\<close>

section \<open>Effects and outcomes\<close>

definition marked ::
    "SagaState \<Rightarrow> string option \<Rightarrow> string \<Rightarrow> (string \<Rightarrow> Saga option) \<Rightarrow> (string \<Rightarrow> Saga option) \<Rightarrow> bool" where
  "marked st e i m m' \<longleftrightarrow>
     (\<exists>s t. m i = Some s \<and> saga_State s = SagaStatePending \<and>
        m' = m(i \<mapsto> s\<lparr>saga_State := st, saga_LastError := e, saga_CompletedAt := Some t\<rparr>))"

definition cascaded :: "string \<Rightarrow> (string \<Rightarrow> Saga option) \<Rightarrow> (string \<Rightarrow> Saga option)" where
  "cascaded i m =
     (\<lambda>k. case m k of None \<Rightarrow> None
          | Some s \<Rightarrow> if saga_SubscriptionID s = i then None else Some s)"

definition not_pending :: "(string \<Rightarrow> Saga option) \<Rightarrow> string \<Rightarrow> bool" where
  "not_pending m i \<longleftrightarrow> (\<forall>s. m i = Some s \<longrightarrow> saga_State s \<noteq> SagaStatePending)"

text \<open>
  The outcome of one guarded write: it failed without effect, found nothing to do (and said
  so), or took effect after the other sessions' turn (and said so, or lost its answer).
\<close>

definition outcome ::
    "('w \<Rightarrow> 'w \<Rightarrow> bool) \<Rightarrow> ('w \<Rightarrow> bool) \<Rightarrow> ('w \<Rightarrow> 'w \<Rightarrow> bool) \<Rightarrow> 'w \<Rightarrow> goerr option \<Rightarrow> 'w \<Rightarrow> bool" where
  "outcome others nothing effect w r w' \<longleftrightarrow>
     (others w w' \<and> real_error r) \<or>
     (others w w' \<and> nothing w' \<and> r \<noteq> None \<and> \<not> real_error r) \<or>
     (\<exists>w1. others w w1 \<and> effect w1 w' \<and> (r = None \<or> real_error r))"

text \<open>The two effects: a saga marked with a state, a subscription deleted with its sagas.\<close>

definition mark_effect ::
    "('w \<Rightarrow> string \<Rightarrow> Saga option) \<Rightarrow> ('w \<Rightarrow> string \<Rightarrow> Subscription option) \<Rightarrow> ('w \<Rightarrow> bool) \<Rightarrow>
     SagaState \<Rightarrow> string option \<Rightarrow> string \<Rightarrow> 'w \<Rightarrow> 'w \<Rightarrow> bool" where
  "mark_effect saga_at sub_at alone st e i v v' \<longleftrightarrow>
     marked st e i (saga_at v) (saga_at v') \<and> sub_at v' = sub_at v \<and> (alone v \<longrightarrow> alone v')"

definition delete_effect ::
    "('w \<Rightarrow> string \<Rightarrow> Saga option) \<Rightarrow> ('w \<Rightarrow> string \<Rightarrow> Subscription option) \<Rightarrow> ('w \<Rightarrow> bool) \<Rightarrow>
     string \<Rightarrow> 'w \<Rightarrow> 'w \<Rightarrow> bool" where
  "delete_effect saga_at sub_at alone i v v' \<longleftrightarrow>
     sub_at v' = (sub_at v)(i := None) \<and> saga_at v' = cascaded i (saga_at v) \<and>
     (alone v \<longrightarrow> alone v')"

lemma outcome_cases:
  assumes "outcome others nothing effect w r w'"
  obtains (failed) "others w w'" "real_error r"
  | (nothing) "others w w'" "nothing w'" "r \<noteq> None" "\<not> real_error r"
  | (did) w1 where "others w w1" "effect w1 w'" "r = None \<or> real_error r"
  using assms by (auto simp: outcome_def)

lemma cascaded_self: "m i = Some s \<Longrightarrow> saga_SubscriptionID s = j \<Longrightarrow> cascaded j m i = None"
  by (simp add: cascaded_def)

lemma cascaded_SomeD: "cascaded j m k = Some s \<Longrightarrow> m k = Some s \<and> saga_SubscriptionID s \<noteq> j"
  by (auto simp: cascaded_def split: option.splits if_splits)

lemma not_pending_None [simp]: "m i = None \<Longrightarrow> not_pending m i"
  by (simp add: not_pending_def)

lemma marked_not_pending:
  "marked st e i m m' \<Longrightarrow> st \<noteq> SagaStatePending \<Longrightarrow> not_pending m' i"
  by (auto simp: marked_def not_pending_def)

lemma marked_other: "marked st e i m m' \<Longrightarrow> k \<noteq> i \<Longrightarrow> m' k = m k"
  by (auto simp: marked_def)

text \<open>
  \<open>fewer m m'\<close>: row by row, \<open>m'\<close> has lost a saga, kept it, or taken it out of \<^verbatim>\<open>pending\<close>. So no
  saga appears, none becomes pending, and a saga that has left \<^verbatim>\<open>pending\<close> is not rewritten.
\<close>

definition fewer1 :: "Saga option \<Rightarrow> Saga option \<Rightarrow> bool" where
  "fewer1 x y \<longleftrightarrow> y = None \<or> y = x \<or>
     (\<exists>s t. x = Some s \<and> y = Some t \<and> saga_State s = SagaStatePending \<and>
        saga_State t \<noteq> SagaStatePending)"

definition fewer :: "(string \<Rightarrow> Saga option) \<Rightarrow> (string \<Rightarrow> Saga option) \<Rightarrow> bool" where
  "fewer m m' \<longleftrightarrow> (\<forall>k. fewer1 (m k) (m' k))"

lemma fewer_refl [simp]: "fewer m m"
  by (simp add: fewer_def fewer1_def)

lemma fewer1_trans: "fewer1 x y \<Longrightarrow> fewer1 y z \<Longrightarrow> fewer1 x z"
  by (auto simp: fewer1_def)

lemma fewer_trans: "fewer m m' \<Longrightarrow> fewer m' m'' \<Longrightarrow> fewer m m''"
  unfolding fewer_def using fewer1_trans by blast

lemma fewer_marked:
  assumes "st \<noteq> SagaStatePending" "marked st e i m m'"
  shows "fewer m m'"
  unfolding fewer_def
proof
  fix k
  show "fewer1 (m k) (m' k)"
    using assms by (cases "k = i") (auto simp: fewer1_def marked_def)
qed

lemma fewer_cascaded [simp]: "fewer m (cascaded j m)"
  by (auto simp: fewer_def fewer1_def cascaded_def split: option.splits)

lemma fewer_pendingD:
  "fewer m m' \<Longrightarrow> m' k = Some s \<Longrightarrow> saga_State s = SagaStatePending \<Longrightarrow> m k = Some s"
  unfolding fewer_def fewer1_def by (metis option.distinct(1) option.inject)

lemma fewer_not_pending: "fewer m m' \<Longrightarrow> not_pending m k \<Longrightarrow> not_pending m' k"
  unfolding not_pending_def using fewer_pendingD by metis

section \<open>The laws\<close>

locale saga_view =
  fixes saga_at :: "'w \<Rightarrow> string \<Rightarrow> Saga option"
    and sub_at :: "'w \<Rightarrow> string \<Rightarrow> Subscription option"
    and inv :: "'w \<Rightarrow> bool"
    and others :: "'w \<Rightarrow> 'w \<Rightarrow> bool"
    and alone :: "'w \<Rightarrow> bool"
    and sure :: "'w \<Rightarrow> bool"
  assumes others_refl: "others w w"
    and others_trans: "others w w' \<Longrightarrow> others w' w'' \<Longrightarrow> others w w''"
    and inv_others: "inv w \<Longrightarrow> others w w' \<Longrightarrow> inv w'"
    and alone_others: "alone w \<Longrightarrow> others w w' \<Longrightarrow>
      alone w' \<and> saga_at w' = saga_at w \<and> sub_at w' = sub_at w"
    and sure_others: "sure w \<Longrightarrow> others w w' \<Longrightarrow> sure w'"

locale saga_store = saga_view saga_at sub_at inv others alone sure
  for saga_at :: "'w \<Rightarrow> string \<Rightarrow> Saga option" and sub_at inv others alone sure +
  fixes sagas :: "'w sagaStore"
  assumes Get_found: "inv w \<Longrightarrow> ss_Get sagas i w = (Inr s, w') \<Longrightarrow>
      others w w' \<and> saga_at w' i = Some s"
    and Get_failed: "inv w \<Longrightarrow> ss_Get sagas i w = (Inl e, w') \<Longrightarrow>
      others w w' \<and> (errors_Is e DomainErrNotFound \<longrightarrow> saga_at w' i = None) \<and>
      (sure w \<longrightarrow> errors_Is e DomainErrNotFound)"
    and MarkCompleted: "inv w \<Longrightarrow> ss_MarkCompleted sagas i w = (r, w') \<Longrightarrow>
      inv w' \<and> (sure w \<longrightarrow> sure w' \<and> \<not> real_error r) \<and>
      outcome others (\<lambda>v. not_pending (saga_at v) i)
        (mark_effect saga_at sub_at alone SagaStateCompleted None i) w r w'"
    and MarkCompensated: "inv w \<Longrightarrow> ss_MarkCompensated sagas i reason w = (r, w') \<Longrightarrow>
      inv w' \<and> (sure w \<longrightarrow> sure w' \<and> \<not> real_error r) \<and>
      outcome others (\<lambda>v. not_pending (saga_at v) i)
        (mark_effect saga_at sub_at alone SagaStateCompensated (Some reason) i) w r w'"
    and Pending_found: "inv w \<Longrightarrow> ss_GetPendingOlderThan sagas th w = (Inr ss, w') \<Longrightarrow>
      others w w' \<and>
      (\<forall>k g. saga_at w' k = Some g \<and> saga_State g = SagaStatePending \<and> saga_StartedAt g < th \<longrightarrow>
        k \<in> saga_ID ` set ss) \<and>
      (\<forall>g \<in> set ss. saga_at w' (saga_ID g) = Some g \<and> saga_State g = SagaStatePending \<and>
        saga_StartedAt g < th)"
    and Pending_failed: "inv w \<Longrightarrow> ss_GetPendingOlderThan sagas th w = (Inl pe, w') \<Longrightarrow>
      others w w' \<and> \<not> sure w"

locale sub_store = saga_view saga_at sub_at inv others alone sure
  for saga_at :: "'w \<Rightarrow> string \<Rightarrow> Saga option" and sub_at inv others alone sure +
  fixes subs :: "'w subStore"
  assumes Delete: "inv w \<Longrightarrow> us_Delete subs i w = (r, w') \<Longrightarrow>
      inv w' \<and> (sure w \<longrightarrow> sure w' \<and> \<not> real_error r) \<and>
      outcome others (\<lambda>v. sub_at v i = None)
        (delete_effect saga_at sub_at alone i) w r w'"
    and ByID_found: "inv w \<Longrightarrow> us_GetByID subs i w = (Inr u, w') \<Longrightarrow>
      others w w' \<and> sub_at w' i = Some u"
    and ByID_failed: "inv w \<Longrightarrow> us_GetByID subs i w = (Inl e, w') \<Longrightarrow>
      others w w' \<and> (errors_Is e DomainErrNotFound \<longrightarrow> sub_at w' i = None) \<and>
      (sure w \<longrightarrow> errors_Is e DomainErrNotFound)"
    and saga_has_sub: "inv w \<Longrightarrow> saga_at w k = Some s \<Longrightarrow> sub_at w (saga_SubscriptionID s) \<noteq> None"

locale orchestrator =
  saga_store saga_at sub_at inv others alone sure "or_sagas oc" +
  sub_store saga_at sub_at inv others alone sure "or_subs oc"
  for saga_at :: "'w \<Rightarrow> string \<Rightarrow> Saga option" and sub_at inv others alone sure and oc :: "'w Orchestrator" +
  assumes retrier_frame: "or_retrier oc i to_addr repo url w = (r, w') \<Longrightarrow> others w w'"
    and commands_frame: "or_commands oc i to_addr repo url w = (r, w') \<Longrightarrow> others w w'"

section \<open>The orchestrator under its laws\<close>

context orchestrator
begin

text \<open>A session acting alone leaves both maps as they were.\<close>

lemma alone_same:
  assumes "alone w" "others w w'"
  shows "alone w'" "saga_at w' = saga_at w" "sub_at w' = sub_at w"
  using alone_others[OF assms] by auto

end

end
