(* ===== verification/Views.thy ===== *)
theory Views
  imports Postgres SagaLaws
begin

text \<open>
  The tables seen as two partial maps, sagas and subscriptions by id, and what each statement of
  \<open>Sql\<close> does to the two maps. \<open>world_ok\<close> is the invariant of a world: its tables keep the schema's
  constraints, and so does whatever the other sessions do to tables that keep them.
\<close>

section \<open>The view of the tables\<close>

definition saga_at :: "'x world \<Rightarrow> string \<Rightarrow> Saga option" where
  "saga_at w i = find (\<lambda>s. saga_ID s = i) (t_sagas (db w))"

definition sub_at :: "'x world \<Rightarrow> string \<Rightarrow> Subscription option" where
  "sub_at w i =
     Option.bind (find (\<lambda>r. sr_id r = i) (t_subscriptions (db w))) (join_row (db w))"

definition world_ok :: "'x world \<Rightarrow> bool" where
  "world_ok w \<longleftrightarrow> db_ok (db w) \<and> (\<forall>n d. db_ok d \<longrightarrow> db_ok (db_env w n d))"

section \<open>Worlds and statements\<close>

lemma views_of_db [simp]:
  "saga_at (w\<lparr>db_calls := n\<rparr>) = saga_at w" "sub_at (w\<lparr>db_calls := n\<rparr>) = sub_at w"
  by (simp_all add: saga_at_def sub_at_def fun_eq_iff)

lemma views_cong: "db w' = db w \<Longrightarrow> saga_at w' = saga_at w \<and> sub_at w' = sub_at w"
  by (simp add: saga_at_def sub_at_def fun_eq_iff)

lemma map_filter_find:
  "(\<And>x. x \<in> set xs \<Longrightarrow> P x \<Longrightarrow> f x \<noteq> None) \<Longrightarrow>
   List.map_filter f (filter P xs) = map (the \<circ> f) (filter P xs)"
  by (induction xs) (fastforce simp: map_filter_simps split: option.splits)+

lemma join_row_found:
  assumes "db_ok d" "r \<in> set (t_subscriptions d)"
  shows "join_row d r \<noteq> None"
proof -
  have "sr_repo_id r \<in> repo_ID ` set (t_repositories d)"
    using assms unfolding db_ok_def by blast
  then obtain q where "q \<in> set (t_repositories d)" "repo_ID q = sr_repo_id r" by auto
  then have "find (\<lambda>q. repo_ID q = sr_repo_id r) (t_repositories d) \<noteq> None"
    unfolding find_None_iff by blast
  then show ?thesis by (simp add: join_row_def)
qed

lemma select_first:
  assumes "db_ok d"
  shows "(case select_subs P d of [] \<Rightarrow> None | s # _ \<Rightarrow> Some s) =
     Option.bind (find P (t_subscriptions d)) (join_row d)"
proof -
  have "(case map g (filter P xs) of [] \<Rightarrow> None | s # _ \<Rightarrow> Some s) = map_option g (find P xs)"
    for g :: "sub_row \<Rightarrow> Subscription" and xs
    by (induction xs) auto
  moreover have "select_subs P d = map (the \<circ> join_row d) (filter P (t_subscriptions d))"
    unfolding select_subs_def by (rule map_filter_find) (rule join_row_found[OF assms])
  moreover have "map_option (the \<circ> join_row d) (find P (t_subscriptions d)) =
      Option.bind (find P (t_subscriptions d)) (join_row d)"
    using join_row_found[OF assms] find_SomeD[of P "t_subscriptions d"]
    by (cases "find P (t_subscriptions d)") auto
  ultimately show ?thesis by simp
qed

lemma world_ok_others: "world_ok w \<Longrightarrow> others w w' \<Longrightarrow> world_ok w'"
proof -
  assume ok: "world_ok w" and "others w w'"
  then have env: "db_env w' = db_env w" and star: "(env_step (db_env w))\<^sup>*\<^sup>* (db w) (db w')"
    by (auto simp: others_def)
  from star have "db_ok (db w')"
    using ok by (induction rule: rtranclp_induct) (auto simp: world_ok_def env_step_def)
  then show ?thesis using ok env by (simp add: world_ok_def)
qed

lemma healthy_others: "healthy w \<Longrightarrow> others w w' \<Longrightarrow> healthy w'"
  by (simp add: healthy_def others_def)

text \<open>A statement that keeps the tables' invariant keeps the world's.\<close>

lemma exec_sql_ok:
  assumes "sql_keeps stmt" "world_ok w" "exec_sql stmt w = (r, w')"
  shows "world_ok w'"
  using assms(3)
proof (cases rule: exec_sql_cases)
  case (ran w1)
  then have "world_ok w1" using world_ok_others[OF assms(2)] by blast
  then show ?thesis using ran(3) assms(1) by (simp add: world_ok_def sql_keeps_def)
next
  case failed
  then show ?thesis using world_ok_others[OF assms(2)] by blast
next
  case (lost w1)
  then have "world_ok w1" using world_ok_others[OF assms(2)] by blast
  then show ?thesis using lost(3) assms(1) by (simp add: world_ok_def sql_keeps_def)
qed

lemma exec_sql_healthy: "healthy w \<Longrightarrow> exec_sql stmt w = (r, w') \<Longrightarrow>
    healthy w' \<and> (\<exists>w1. others w w1 \<and> r = fst (stmt (db w1)) \<and> w' = w1\<lparr>db := snd (stmt (db w1))\<rparr>)"
  using others_turn[of w] by (auto simp: exec_sql_def healthy_def Let_def)

section \<open>What the queries read\<close>

lemma saga_at_select:
  "saga_at w i = (case select_saga i (db w) of [] \<Rightarrow> None | s # _ \<Rightarrow> Some s)"
proof -
  have "find P xs = (case filter P xs of [] \<Rightarrow> None | s # _ \<Rightarrow> Some s)" for P and xs :: "Saga list"
    by (induction xs) auto
  then show ?thesis by (simp add: saga_at_def select_saga_def)
qed

lemma sub_at_select:
  assumes "world_ok w"
  shows "sub_at w i = (case select_subs (\<lambda>r. sr_id r = i) (db w) of [] \<Rightarrow> None | s # _ \<Rightarrow> Some s)"
  using select_first[of "db w" "\<lambda>r. sr_id r = i"] assms by (simp add: sub_at_def world_ok_def)

lemma world_saga_has_sub:
  assumes "world_ok w" "saga_at w k = Some s"
  shows "sub_at w (saga_SubscriptionID s) \<noteq> None"
proof -
  have ok: "db_ok (db w)" using assms(1) by (simp add: world_ok_def)
  have "s \<in> set (t_sagas (db w))" using assms(2) by (auto simp: saga_at_def dest: find_SomeD)
  then have "saga_SubscriptionID s \<in> sr_id ` set (t_subscriptions (db w))"
    using ok unfolding db_ok_def by blast
  then have "find (\<lambda>r. sr_id r = saga_SubscriptionID s) (t_subscriptions (db w)) \<noteq> None"
    by (auto simp: find_None_iff)
  then obtain r where "find (\<lambda>r. sr_id r = saga_SubscriptionID s) (t_subscriptions (db w)) = Some r" by blast
  then show ?thesis using join_row_found[OF ok] by (auto simp: sub_at_def dest!: find_SomeD)
qed

section \<open>What the statements do to the maps\<close>

text \<open>Each lemma is about any two worlds whose tables are related by the statement.\<close>

lemma views_after_mark:
  assumes ok: "world_ok v" and chk: "saga_state_check st"
    and d: "db v' = snd (sql_mark_saga st e t i (db v))"
  shows "sub_at v' = sub_at v"
    and "saga_at v i = Some s \<Longrightarrow> saga_State s = ''pending'' \<Longrightarrow> saga_at v' = (saga_at v)(i \<mapsto> mark_saga st e t s)"
    and "\<not> (\<exists>s. saga_at v i = Some s \<and> saga_State s = ''pending'') \<Longrightarrow> db v' = db v"
proof -
  let ?hit = "\<lambda>s. saga_ID s = i \<and> saga_State s = ''pending''"
  have d': "db v' = (db v)\<lparr>t_sagas := upd_where ?hit (mark_saga st e t) (t_sagas (db v))\<rparr>"
    using d chk by (simp add: sql_mark_saga_def Let_def)
  have j: "join_row (db v') = join_row (db v)" by (simp add: d' join_row_def fun_eq_iff)
  show "sub_at v' = sub_at v" unfolding sub_at_def j by (simp add: d')
  have key: "distinct (map saga_ID (t_sagas (db v)))" using ok by (simp add: world_ok_def db_ok_def)
  show "saga_at v' = (saga_at v)(i \<mapsto> mark_saga st e t s)" if s: "saga_at v i = Some s" "saga_State s = ''pending''"
  proof
    fix k
    have "saga_at v' k = map_option (\<lambda>x. if ?hit x then mark_saga st e t x else x) (saga_at v k)"
      by (simp add: saga_at_def d' find_upd_where mark_saga_def)
    then show "saga_at v' k = ((saga_at v)(i \<mapsto> mark_saga st e t s)) k"
      using s by (cases "saga_at v k") (auto simp: saga_at_def dest: find_SomeD)
  qed
  show "db v' = db v" if none: "\<not> (\<exists>s. saga_at v i = Some s \<and> saga_State s = ''pending'')"
  proof -
    have "\<not> ?hit s" if "s \<in> set (t_sagas (db v))" for s
      using none find_key_eq[OF key that] by (auto simp: saga_at_def)
    then show ?thesis by (simp add: d' upd_where_none)
  qed
qed

lemma views_after_delete:
  assumes ok: "world_ok v" and d: "db v' = snd (sql_delete_subscription i (db v))"
  shows "sub_at v' = (sub_at v)(i := None)" "saga_at v' = cascaded i (saga_at v)"
proof -
  have keys: "distinct (map sr_id (t_subscriptions (db v)))" "distinct (map saga_ID (t_sagas (db v)))"
    using ok by (simp_all add: world_ok_def db_ok_def)
  show "sub_at v' = (sub_at v)(i := None)"
  proof
    fix k
    show "sub_at v' k = ((sub_at v)(i := None)) k"
      using find_SomeD[of "\<lambda>r. sr_id r = k" "t_subscriptions (db v)"]
      by (cases "find (\<lambda>r. sr_id r = k) (t_subscriptions (db v))")
        (auto simp: d sub_at_def join_row_def sql_delete_subscription_def find_filter_key[OF keys(1)])
  qed
  have refs: "saga_SubscriptionID s \<in> sr_id ` set (t_subscriptions (db v))" if "saga_at v k = Some s" for k s
  proof -
    have "s \<in> set (t_sagas (db v))" using that by (auto simp: saga_at_def dest: find_SomeD)
    moreover have "saga_SubscriptionID ` set (t_sagas (db v)) \<subseteq> sr_id ` set (t_subscriptions (db v))"
      using ok by (simp add: world_ok_def db_ok_def)
    ultimately show ?thesis by blast
  qed
  show "saga_at v' = cascaded i (saga_at v)"
  proof
    fix k
    show "saga_at v' k = cascaded i (saga_at v) k"
      using refs[of k]
      by (auto simp: d saga_at_def cascaded_def sql_delete_subscription_def find_filter_key[OF keys(2)]
          split: option.splits)
  qed
qed

lemma views_after_confirm:
  assumes d: "db v' = snd (sql_confirm i (db v))"
  shows "saga_at v' = saga_at v"
    and "sub_at v' = (\<lambda>k. if k = i then map_option (\<lambda>s. s\<lparr>sub_Confirmed := True\<rparr>) (sub_at v k) else sub_at v k)"
proof -
  show "saga_at v' = saga_at v" by (simp add: saga_at_def d sql_confirm_def fun_eq_iff)
  have j: "join_row (db v') x = join_row (db v) x"
    "join_row (db v) (x\<lparr>sr_confirmed := True\<rparr>) = map_option (\<lambda>s. s\<lparr>sub_Confirmed := True\<rparr>) (join_row (db v) x)" for x
    unfolding join_row_def d sql_confirm_def by (simp_all add: option.map_comp comp_def)
  show "sub_at v' = (\<lambda>k. if k = i then map_option (\<lambda>s. s\<lparr>sub_Confirmed := True\<rparr>) (sub_at v k) else sub_at v k)"
  proof
    fix k
    have f: "find (\<lambda>x. sr_id x = k) (t_subscriptions (db v')) =
        map_option (\<lambda>x. if sr_id x = i then x\<lparr>sr_confirmed := True\<rparr> else x)
          (find (\<lambda>x. sr_id x = k) (t_subscriptions (db v)))"
      unfolding d sql_confirm_def by (simp add: find_upd_where)
    show "sub_at v' k = (if k = i then map_option (\<lambda>s. s\<lparr>sub_Confirmed := True\<rparr>) (sub_at v k) else sub_at v k)"
      using find_SomeD[of "\<lambda>x. sr_id x = k" "t_subscriptions (db v)"]
      by (cases "find (\<lambda>x. sr_id x = k) (t_subscriptions (db v))") (auto simp: sub_at_def f j)
  qed
qed

lemma views_after_tag:
  assumes d: "db v' = snd (sql_update_tag i tag (db v))"
  shows "saga_at v' = saga_at v"
    and "sub_at v' = (\<lambda>k. map_option (\<lambda>s. if sub_RepoID s = i then s\<lparr>sub_LastSeenTag := Some tag\<rparr> else s) (sub_at v k))"
proof -
  show "saga_at v' = saga_at v" by (simp add: saga_at_def d sql_update_tag_def fun_eq_iff)
  have "join_row (db v') x =
      map_option (\<lambda>s. if sub_RepoID s = i then s\<lparr>sub_LastSeenTag := Some tag\<rparr> else s) (join_row (db v) x)" for x
    unfolding join_row_def d sql_update_tag_def
    by (auto simp: find_upd_where option.map_comp comp_def dest: find_SomeD intro!: option.map_cong)
  then show "sub_at v' = (\<lambda>k. map_option (\<lambda>s. if sub_RepoID s = i then s\<lparr>sub_LastSeenTag := Some tag\<rparr> else s) (sub_at v k))"
    by (auto simp: sub_at_def d sql_update_tag_def map_option_bind intro!: ext Option.bind_cong)
qed

text \<open>A new repository changes no join: every subscription's repository was there already.\<close>

lemma join_row_more:
  assumes "db_ok d" "r \<in> set (t_subscriptions d)"
  shows "join_row (d\<lparr>t_repositories := t_repositories d @ [q]\<rparr>) r = join_row d r"
  using join_row_found[OF assms] by (simp add: join_row_def find_append split: option.splits)

lemma views_after_repo:
  assumes ok: "world_ok v" and d: "db v' = snd (sql_get_or_create i n t (db v))"
  shows "saga_at v' = saga_at v" "sub_at v' = sub_at v"
proof -
  have d': "db v' = db v \<or> (\<exists>p. db v' = (db v)\<lparr>t_repositories := t_repositories (db v) @ [p]\<rparr>)"
    using d by (auto simp: sql_get_or_create_def Let_def split: option.splits)
  then show "saga_at v' = saga_at v" by (auto simp: saga_at_def)
  have "db_ok (db v)" using ok by (simp add: world_ok_def)
  note more = join_row_more[OF this]
  show "sub_at v' = sub_at v"
    using d' by (auto simp: sub_at_def fun_eq_iff more dest: find_SomeD intro!: Option.bind_cong)
qed

end
