(* ===== verification/Json.thy ===== *)
theory Json
  imports GoLib
begin

text \<open>
  The part of \<^verbatim>\<open>encoding/json\<close> the source uses: structs whose fields are strings, marshalled
  to an object in field order and unmarshalled as the package documents it. A body is a
  JSON value, or no value when the bytes are not JSON; the text syntax is left out. Keys
  are matched without regard to (ASCII) case, a later key overwrites an earlier one, unknown
  keys are skipped, \<^verbatim>\<open>null\<close> leaves a field alone and any other non-string value is an error.
\<close>

datatype json = JString string | JNull | JOther | JObject "(string \<times> json) list"

type_synonym body = "json option"

definition lower :: "char \<Rightarrow> char" where
  "lower c = (if of_char c \<in> {65..90::nat} then char_of (of_char c + 32 :: nat) else c)"

definition key_eq :: "string \<Rightarrow> string \<Rightarrow> bool" where
  "key_eq a b = (map lower a = map lower b)"

definition json_error :: goerr where
  "json_error = Opaque ''json''"

text \<open>The value of one string field after the members of the object, starting from \<open>v\<close>.\<close>

fun string_field :: "string \<Rightarrow> (string \<times> json) list \<Rightarrow> string \<Rightarrow> goerr + string" where
  "string_field name [] v = Inr v"
| "string_field name ((k, j) # ms) v =
     (if key_eq k name
      then (case j of
              JString s \<Rightarrow> string_field name ms s
            | JNull \<Rightarrow> string_field name ms v
            | _ \<Rightarrow> Inl json_error)
      else string_field name ms v)"

text \<open>All string fields of a struct, starting from the zero value.\<close>

fun string_fields :: "string list \<Rightarrow> (string \<times> json) list \<Rightarrow> goerr + string list" where
  "string_fields [] ms = Inr []"
| "string_fields (n # ns) ms =
     (case string_field n ms [] of
        Inl e \<Rightarrow> Inl e
      | Inr v \<Rightarrow> (case string_fields ns ms of Inl e \<Rightarrow> Inl e | Inr vs \<Rightarrow> Inr (v # vs)))"

definition unmarshal_strings :: "string list \<Rightarrow> body \<Rightarrow> goerr + string list" where
  "unmarshal_strings names b =
     (case b of
        Some (JObject ms) \<Rightarrow> string_fields names ms
      | Some JNull \<Rightarrow> Inr (map (\<lambda>_. []) names)
      | _ \<Rightarrow> Inl json_error)"

definition marshal_strings :: "string list \<Rightarrow> string list \<Rightarrow> body" where
  "marshal_strings names vs = Some (JObject (zip names (map JString vs)))"

section \<open>Round trip\<close>

lemma key_eq_refl [simp]: "key_eq a a"
  by (simp add: key_eq_def)

lemma string_field_absent:
  "(\<And>k. k \<in> set ks \<Longrightarrow> \<not> key_eq k n) \<Longrightarrow> string_field n (zip ks (map JString vs)) v = Inr v"
proof (induction ks arbitrary: vs)
  case (Cons k ks)
  then show ?case by (cases vs) auto
qed simp

text \<open>No two names of a struct's fields may be equal up to case.\<close>

definition key_distinct :: "string list \<Rightarrow> bool" where
  "key_distinct ns = distinct (map (map lower) ns)"

lemma string_field_nth:
  "key_distinct ks \<Longrightarrow> length ks = length vs \<Longrightarrow> i < length ks \<Longrightarrow>
   string_field (ks ! i) (zip ks (map JString vs)) v = Inr (vs ! i)"
proof (induction ks arbitrary: vs i v)
  case (Cons k ks)
  obtain x xs where vs: "vs = x # xs" using Cons.prems(2) by (cases vs) auto
  show ?case
  proof (cases i)
    case 0
    have "\<not> key_eq k' k" if "k' \<in> set ks" for k'
      using Cons.prems(1) that by (auto simp: key_distinct_def key_eq_def image_iff)
    then show ?thesis using 0 vs by (simp add: string_field_absent)
  next
    case (Suc j)
    have "j < length ks" using Cons.prems(3) Suc by simp
    then have "ks ! j \<in> set ks" by simp
    then have "\<not> key_eq k (ks ! j)"
      using Cons.prems(1) by (auto simp: key_distinct_def key_eq_def image_iff)
    then show ?thesis
      using Cons Suc vs by (simp add: key_distinct_def)
  qed
qed simp

lemma string_fields_nths:
  "(\<And>i. i < length ns \<Longrightarrow> string_field (ns ! i) ms [] = Inr (vs ! i)) \<Longrightarrow> length ns = length vs \<Longrightarrow>
   string_fields ns ms = Inr vs"
proof (induction ns arbitrary: vs)
  case (Cons n ns)
  obtain x xs where vs: "vs = x # xs" using Cons.prems(2) by (cases vs) auto
  have "string_field n ms [] = Inr x" using Cons.prems(1)[of 0] vs by simp
  moreover have "string_fields ns ms = Inr xs"
    by (rule Cons.IH) (use Cons.prems(1)[of "Suc _"] Cons.prems(2) vs in auto)
  ultimately show ?case using vs by simp
qed simp

lemma unmarshal_marshal:
  assumes "key_distinct ns" "length ns = length vs"
  shows "unmarshal_strings ns (marshal_strings ns vs) = Inr vs"
  using assms by (simp add: unmarshal_strings_def marshal_strings_def string_fields_nths string_field_nth)

end
