(* ===== verification/Topology.thy ===== *)
theory Topology
  imports GoLib
begin

text \<open>
  \<^verbatim>\<open>internal/notifier/adapter/rabbitmq/topology.go\<close>: the names of the exchanges, queues and
  routing keys, and \<^verbatim>\<open>Declare\<close>, which issues the declarations in order on a channel and
  stops at the first that fails. \<open>amqp_match\<close> is the rule AMQP 0-9-1 gives for the pattern of
  a topic binding: the words between dots are compared, \<^verbatim>\<open>*\<close> stands for one word and \<^verbatim>\<open>#\<close>
  for any number of words.
\<close>

definition ExchangeNotifications :: string where "ExchangeNotifications = ''notifications''"
definition QueueDeliveries :: string where "QueueDeliveries = ''notifier.deliveries''"
definition BindingKeyDeliveries :: string where "BindingKeyDeliveries = ''notification.*''"
definition RoutingKeyRelease :: string where "RoutingKeyRelease = ''notification.release''"
definition QueueSagaCommands :: string where "QueueSagaCommands = ''notifier.commands''"
definition BindingKeySagaCommands :: string where
  "BindingKeySagaCommands = ''notification.command.*''"
definition RoutingKeyCmdSendConfirmation :: string where
  "RoutingKeyCmdSendConfirmation = ''notification.command.send_confirmation''"
definition QueueSagaEvents :: string where "QueueSagaEvents = ''app.saga.events''"
definition BindingKeySagaEvents :: string where "BindingKeySagaEvents = ''notification.event.*''"
definition RoutingKeyEventConfirmationSent :: string where
  "RoutingKeyEventConfirmationSent = ''notification.event.confirmation_sent''"
definition RoutingKeyEventConfirmationFailed :: string where
  "RoutingKeyEventConfirmationFailed = ''notification.event.confirmation_failed''"
definition ExchangeDeadLetter :: string where "ExchangeDeadLetter = ''notifications.dlx''"
definition QueueDeadLetters :: string where "QueueDeadLetters = ''notifier.dead_letters''"

lemmas topology_names =
  ExchangeNotifications_def QueueDeliveries_def BindingKeyDeliveries_def RoutingKeyRelease_def
  QueueSagaCommands_def BindingKeySagaCommands_def RoutingKeyCmdSendConfirmation_def
  QueueSagaEvents_def BindingKeySagaEvents_def RoutingKeyEventConfirmationSent_def
  RoutingKeyEventConfirmationFailed_def ExchangeDeadLetter_def QueueDeadLetters_def

text \<open>
  A declaration with the arguments that vary: an exchange with its kind; a queue with its
  dead-letter exchange, if any; a binding of a queue to an exchange. Everything is durable.
\<close>

datatype amqp_op =
    ExchangeDeclare string string
  | QueueDeclare string "string option"
  | QueueBind string string string        \<comment> \<open>queue, binding key, exchange\<close>

definition quoted :: "string \<Rightarrow> string" where
  "quoted s = [CHR 0x22] @ s @ [CHR 0x22]"

definition bindings :: "(string \<times> string) list" where
  "bindings = [(QueueDeliveries, BindingKeyDeliveries), (QueueSagaCommands, BindingKeySagaCommands),
     (QueueSagaEvents, BindingKeySagaEvents)]"

text \<open>Each declaration with the prefix its error is wrapped in.\<close>

definition declare_ops :: "(string \<times> amqp_op) list" where
  "declare_ops =
     [(''declare exchange '' @ quoted ExchangeNotifications, ExchangeDeclare ExchangeNotifications ''topic''),
      (''declare exchange '' @ quoted ExchangeDeadLetter, ExchangeDeclare ExchangeDeadLetter ''fanout''),
      (''declare queue '' @ quoted QueueDeadLetters, QueueDeclare QueueDeadLetters None),
      (''bind queue '' @ quoted QueueDeadLetters @ '' to '' @ quoted ExchangeDeadLetter,
       QueueBind QueueDeadLetters '''' ExchangeDeadLetter)] @
     concat (map (\<lambda>(name, binding).
       [(''declare queue '' @ quoted name, QueueDeclare name (Some ExchangeDeadLetter)),
        (''bind queue '' @ quoted name @ '' to '' @ quoted ExchangeNotifications,
         QueueBind name binding ExchangeNotifications)]) bindings)"

fun run_ops ::
    "(amqp_op \<Rightarrow> 'x \<Rightarrow> goerr option \<times> 'x) \<Rightarrow> (string \<times> amqp_op) list \<Rightarrow> 'x \<Rightarrow> goerr option \<times> 'x" where
  "run_ops ch [] x = (None, x)"
| "run_ops ch ((what, op) # ops) x =
     (case ch op x of
        (Some err, x') \<Rightarrow> (Some (Errorf what err), x')
      | (None, x') \<Rightarrow> run_ops ch ops x')"

definition Declare :: "(amqp_op \<Rightarrow> 'x \<Rightarrow> goerr option \<times> 'x) \<Rightarrow> 'x \<Rightarrow> goerr option \<times> 'x" where
  "Declare ch x = run_ops ch declare_ops x"

section \<open>Topic routing\<close>

fun words_match :: "string list \<Rightarrow> string list \<Rightarrow> bool" where
  "words_match [] [] = True"
| "words_match [] (k # ks) = False"
| "words_match (p # ps) ks =
     (if p = ''#'' then words_match ps ks \<or> (case ks of [] \<Rightarrow> False | k # ks' \<Rightarrow> words_match (p # ps) ks')
      else (case ks of [] \<Rightarrow> False | k # ks' \<Rightarrow> (p = ''*'' \<or> p = k) \<and> words_match ps ks'))"

definition amqp_match :: "string \<Rightarrow> string \<Rightarrow> bool" where
  "amqp_match pattern key =
     words_match (strings_Split pattern (CHR ''.'')) (strings_Split key (CHR ''.''))"

text \<open>The queues the declared bindings deliver a key to, for a broker with match rule \<open>matches\<close>.\<close>

definition routed_to :: "(string \<Rightarrow> string \<Rightarrow> bool) \<Rightarrow> string \<Rightarrow> string list" where
  "routed_to matches key = map fst (filter (\<lambda>(q, b). matches b key) bindings)"

end
