(* ===== verification/Publisher.thy ===== *)
theory Publisher
  imports World Json Topology
begin

text \<open>
  \<^verbatim>\<open>internal/notifier/adapter/rabbitmq/messages.go\<close> and the publishing half of
  \<^verbatim>\<open>publisher.go\<close>: the message structs with their JSON, and \<^verbatim>\<open>publish\<close> with its confirm.
  The AMQP channel is a record of the two calls made on it; the publisher's current channel
  (nil while the supervisor reconnects) is read from the outside state at each publish.
\<close>

section \<open>Messages\<close>

record ReleaseMessage =
  rm_To :: string
  rm_Repo :: string
  rm_TagName :: string
  rm_ReleaseName :: string
  rm_Body :: string
  rm_ReleaseURL :: string
  rm_UnsubscribeURL :: string

record SendConfirmationCommand =
  sc_SagaID :: string
  sc_To :: string
  sc_Repo :: string
  sc_ConfirmURL :: string

record ConfirmationSentEvent =
  cs_SagaID :: string

record ConfirmationFailedEvent =
  cf_SagaID :: string
  cf_Reason :: string

definition release_fields :: "string list" where
  "release_fields = [''to'', ''repo'', ''tag_name'', ''release_name'', ''body'', ''release_url'',
     ''unsubscribe_url'']"

definition command_fields :: "string list" where
  "command_fields = [''saga_id'', ''to'', ''repo'', ''confirm_url'']"

definition sent_fields :: "string list" where
  "sent_fields = [''saga_id'']"

definition failed_fields :: "string list" where
  "failed_fields = [''saga_id'', ''reason'']"

definition marshal_release :: "ReleaseMessage \<Rightarrow> body" where
  "marshal_release m = marshal_strings release_fields
     [rm_To m, rm_Repo m, rm_TagName m, rm_ReleaseName m, rm_Body m, rm_ReleaseURL m,
      rm_UnsubscribeURL m]"

definition marshal_command :: "SendConfirmationCommand \<Rightarrow> body" where
  "marshal_command m = marshal_strings command_fields
     [sc_SagaID m, sc_To m, sc_Repo m, sc_ConfirmURL m]"

definition marshal_sent :: "ConfirmationSentEvent \<Rightarrow> body" where
  "marshal_sent m = marshal_strings sent_fields [cs_SagaID m]"

definition marshal_failed :: "ConfirmationFailedEvent \<Rightarrow> body" where
  "marshal_failed m = marshal_strings failed_fields [cf_SagaID m, cf_Reason m]"

fun nth_or_empty :: "string list \<Rightarrow> nat \<Rightarrow> string" where
  "nth_or_empty [] n = []"
| "nth_or_empty (v # vs) 0 = v"
| "nth_or_empty (v # vs) (Suc n) = nth_or_empty vs n"

definition unmarshal_release :: "body \<Rightarrow> goerr + ReleaseMessage" where
  "unmarshal_release b =
     (case unmarshal_strings release_fields b of
        Inl e \<Rightarrow> Inl e
      | Inr vs \<Rightarrow> Inr \<lparr>rm_To = nth_or_empty vs 0, rm_Repo = nth_or_empty vs 1,
          rm_TagName = nth_or_empty vs 2, rm_ReleaseName = nth_or_empty vs 3,
          rm_Body = nth_or_empty vs 4, rm_ReleaseURL = nth_or_empty vs 5,
          rm_UnsubscribeURL = nth_or_empty vs 6\<rparr>)"

definition unmarshal_command :: "body \<Rightarrow> goerr + SendConfirmationCommand" where
  "unmarshal_command b =
     (case unmarshal_strings command_fields b of
        Inl e \<Rightarrow> Inl e
      | Inr vs \<Rightarrow> Inr \<lparr>sc_SagaID = nth_or_empty vs 0, sc_To = nth_or_empty vs 1,
          sc_Repo = nth_or_empty vs 2, sc_ConfirmURL = nth_or_empty vs 3\<rparr>)"

definition unmarshal_sent :: "body \<Rightarrow> goerr + ConfirmationSentEvent" where
  "unmarshal_sent b =
     (case unmarshal_strings sent_fields b of
        Inl e \<Rightarrow> Inl e
      | Inr vs \<Rightarrow> Inr \<lparr>cs_SagaID = nth_or_empty vs 0\<rparr>)"

definition unmarshal_failed :: "body \<Rightarrow> goerr + ConfirmationFailedEvent" where
  "unmarshal_failed b =
     (case unmarshal_strings failed_fields b of
        Inl e \<Rightarrow> Inl e
      | Inr vs \<Rightarrow> Inr \<lparr>cf_SagaID = nth_or_empty vs 0, cf_Reason = nth_or_empty vs 1\<rparr>)"

lemma fields_key_distinct [simp]:
  "key_distinct release_fields" "key_distinct command_fields" "key_distinct sent_fields"
  "key_distinct failed_fields"
  by (simp_all add: key_distinct_def release_fields_def command_fields_def sent_fields_def
      failed_fields_def lower_def)

lemma unmarshal_marshal_messages [simp]:
  "unmarshal_release (marshal_release rm) = Inr rm"
  "unmarshal_command (marshal_command sc) = Inr sc"
  "unmarshal_sent (marshal_sent cs) = Inr cs"
  "unmarshal_failed (marshal_failed cf) = Inr cf"
proof -
  have l: "length release_fields = 7" "length command_fields = 4" "length sent_fields = 1"
    "length failed_fields = 2"
    by (simp_all add: release_fields_def command_fields_def sent_fields_def failed_fields_def)
  show "unmarshal_release (marshal_release rm) = Inr rm"
    "unmarshal_command (marshal_command sc) = Inr sc"
    "unmarshal_sent (marshal_sent cs) = Inr cs"
    "unmarshal_failed (marshal_failed cf) = Inr cf"
    by (simp_all add: unmarshal_release_def marshal_release_def unmarshal_command_def
        marshal_command_def unmarshal_sent_def marshal_sent_def unmarshal_failed_def
        marshal_failed_def unmarshal_marshal l eval_nat_numeral)
qed

section \<open>Publishing\<close>

text \<open>
  The channel: \<^verbatim>\<open>PublishWithDeferredConfirmWithContext(exchange, key, mandatory, immediate, body)\<close>
  gives a pending confirmation or an error; waiting for it gives the broker's ack or an error.
\<close>

record 'x amqp_channel =
  ch_Publish :: "string \<Rightarrow> string \<Rightarrow> bool \<Rightarrow> bool \<Rightarrow> body \<Rightarrow> 'x \<Rightarrow> (goerr + nat) \<times> 'x"
  ch_Wait :: "nat \<Rightarrow> 'x \<Rightarrow> (goerr + bool) \<times> 'x"

record 'x Publisher =
  pub_ch :: "'x \<Rightarrow> 'x amqp_channel option"

definition publish ::
    "'x Publisher \<Rightarrow> string \<Rightarrow> body \<Rightarrow> ('x, 'm) proc_scheme \<Rightarrow> goerr option \<times> ('x, 'm) proc_scheme" where
  "publish p routingKey payload w =
     (case pub_ch p (outside w) of
        None \<Rightarrow>
          (Some (Errorf (''publish '' @ routingKey) (Sentinel ErrPublisherNotReady)),
           inc (RabbitMQMessagesPublishedTotal routingKey ''error'') w)
      | Some ch \<Rightarrow>
          (let (start, w1) = time_Now w in
           case call_outside (ch_Publish ch ExchangeNotifications routingKey True False payload) w1 of
             (Inl pubErr, w2) \<Rightarrow>
               (let w3 = inc (RabbitMQPublishDuration routingKey) (snd (time_Now w2))
                in (Some (Errorf (''publish '' @ routingKey) pubErr),
                    inc (RabbitMQMessagesPublishedTotal routingKey ''error'') w3))
           | (Inr confirm, w2) \<Rightarrow>
               (case call_outside (ch_Wait ch confirm) w2 of
                  (acked, w3) \<Rightarrow>
                    (let w4 = inc (RabbitMQPublishDuration routingKey) (snd (time_Now w3)) in
                     case acked of
                       Inl waitErr \<Rightarrow>
                         (Some (Errorf (''await confirm '' @ routingKey) waitErr),
                          inc (RabbitMQMessagesPublishedTotal routingKey ''error'') w4)
                     | Inr ok \<Rightarrow>
                         (if \<not> ok
                          then (Some (Opaque (''publish '' @ routingKey @ '': broker nacked message'')),
                                inc (RabbitMQMessagesPublishedTotal routingKey ''nack'') w4)
                          else (None, inc (RabbitMQMessagesPublishedTotal routingKey ''ok'') w4))))))"

definition SendReleaseNotification ::
    "'x Publisher \<Rightarrow> string \<Rightarrow> string \<Rightarrow> string \<Rightarrow> string \<Rightarrow> string \<Rightarrow> string \<Rightarrow> string \<Rightarrow>
     ('x, 'm) proc_scheme \<Rightarrow> goerr option \<times> ('x, 'm) proc_scheme" where
  "SendReleaseNotification p to_addr repo tagName releaseName body releaseURL unsubscribeURL =
     publish p RoutingKeyRelease (marshal_release
       \<lparr>rm_To = to_addr, rm_Repo = repo, rm_TagName = tagName, rm_ReleaseName = releaseName,
        rm_Body = body, rm_ReleaseURL = releaseURL, rm_UnsubscribeURL = unsubscribeURL\<rparr>)"

definition SendConfirmationCommand_publish ::
    "'x Publisher \<Rightarrow> string \<Rightarrow> string \<Rightarrow> string \<Rightarrow> string \<Rightarrow>
     ('x, 'm) proc_scheme \<Rightarrow> goerr option \<times> ('x, 'm) proc_scheme" where
  "SendConfirmationCommand_publish p sagaID to_addr repo confirmURL =
     publish p RoutingKeyCmdSendConfirmation (marshal_command
       \<lparr>sc_SagaID = sagaID, sc_To = to_addr, sc_Repo = repo, sc_ConfirmURL = confirmURL\<rparr>)"

definition PublishConfirmationSent ::
    "'x Publisher \<Rightarrow> string \<Rightarrow> ('x, 'm) proc_scheme \<Rightarrow> goerr option \<times> ('x, 'm) proc_scheme" where
  "PublishConfirmationSent p sagaID =
     publish p RoutingKeyEventConfirmationSent (marshal_sent \<lparr>cs_SagaID = sagaID\<rparr>)"

definition PublishConfirmationFailed ::
    "'x Publisher \<Rightarrow> string \<Rightarrow> string \<Rightarrow> ('x, 'm) proc_scheme \<Rightarrow> goerr option \<times> ('x, 'm) proc_scheme" where
  "PublishConfirmationFailed p sagaID reason =
     publish p RoutingKeyEventConfirmationFailed
       (marshal_failed \<lparr>cf_SagaID = sagaID, cf_Reason = reason\<rparr>)"

text \<open>
  Messages are published as mandatory: one that no queue takes comes back on the channel of
  \<^verbatim>\<open>NotifyReturn\<close>, which a goroutine of the supervisor drains and counts (apart from the result
  \<open>publish\<close> itself records for the message).
\<close>

record amqp_Return =
  ret_Exchange :: string
  ret_RoutingKey :: string
  ret_ReplyCode :: nat
  ret_ReplyText :: string

fun drain_returns :: "amqp_Return list \<Rightarrow> ('x, 'm) proc_scheme \<Rightarrow> ('x, 'm) proc_scheme" where
  "drain_returns [] w = w"
| "drain_returns (x # returns) w =
     drain_returns returns (inc (RabbitMQMessagesPublishedTotal (ret_RoutingKey x) ''unroutable'') w)"

section \<open>Facts\<close>

lemma drain_returns_counts:
  "metrics (drain_returns rs w) m = metrics w m +
     length (filter (\<lambda>x. m = RabbitMQMessagesPublishedTotal (ret_RoutingKey x) ''unroutable'') rs)"
  by (induction rs arbitrary: w) (simp_all add: inc_def)

text \<open>A publish changes the outside, the clock and the counters, nothing else of the process.\<close>

lemma publish_frame: "publish p k b w = (r, w') \<Longrightarrow> io_only w w'"
  unfolding publish_def Let_def
  by (auto simp: io_only_def rewind_def time_Now_def call_outside_def inc_def
      split: option.splits sum.splits prod.splits if_splits)

text \<open>Without a channel a publish fails at once and sends nothing.\<close>

lemma publish_not_ready:
  "pub_ch p (outside w) = None \<Longrightarrow>
   publish p k b w = (Some (Errorf (''publish '' @ k) (Sentinel ErrPublisherNotReady)),
     inc (RabbitMQMessagesPublishedTotal k ''error'') w)"
  by (simp add: publish_def)

text \<open>Success means that the broker acknowledged this very message.\<close>

lemma publish_ok_acked:
  assumes "publish p k b w = (None, w')"
  shows "\<exists>ch tag x1. pub_ch p (outside w) = Some ch \<and>
     ch_Publish ch ExchangeNotifications k True False b (outside w) = (Inr tag, x1) \<and>
     ch_Wait ch tag x1 = (Inr True, outside w')"
proof (cases "pub_ch p (outside w)")
  case None
  then show ?thesis using assms by (simp add: publish_def)
next
  case (Some ch)
  obtain r x1 where p1: "ch_Publish ch ExchangeNotifications k True False b (outside w) = (r, x1)"
    by fastforce
  show ?thesis
  proof (cases r)
    case (Inl e)
    then show ?thesis
      using assms Some p1 by (simp add: publish_def time_Now_def call_outside_def Let_def)
  next
    case (Inr tag)
    obtain a x2 where p2: "ch_Wait ch tag x1 = (a, x2)" by fastforce
    then show ?thesis
      using assms Some p1 Inr
      by (auto simp: publish_def time_Now_def call_outside_def inc_def Let_def
          split: sum.splits if_splits)
  qed
qed

end
