(* ===== verification/Retrier.thy ===== *)
theory Retrier
  imports World
begin

text \<open>
  \<^verbatim>\<open>internal/subscription/saga/grpc_retrier.go\<close> and the request of
  \<^verbatim>\<open>proto/notifier/v1/notification.proto\<close>. The generated client is a call to the outside that
  gets the deadline of the call and the request; its response has no fields.
\<close>

record SendConfirmationRequest =
  sr_SagaId :: string
  sr_To :: string
  sr_Repo :: string
  sr_ConfirmUrl :: string

definition defaultRetryTimeout :: int where
  "defaultRetryTimeout = 5 * Second"

record 'x Retrier =
  rt_client :: "int \<Rightarrow> SendConfirmationRequest \<Rightarrow> 'x \<Rightarrow> goerr option \<times> 'x"
  rt_timeout :: int

definition NewRetrier ::
    "(int \<Rightarrow> SendConfirmationRequest \<Rightarrow> 'x \<Rightarrow> goerr option \<times> 'x) \<Rightarrow> 'x Retrier" where
  "NewRetrier client = \<lparr>rt_client = client, rt_timeout = defaultRetryTimeout\<rparr>"

definition Retry ::
    "'x Retrier \<Rightarrow> string \<Rightarrow> string \<Rightarrow> string \<Rightarrow> string \<Rightarrow>
     ('x, 'm) proc_scheme \<Rightarrow> goerr option \<times> ('x, 'm) proc_scheme" where
  "Retry r sagaID to_addr repo confirmURL w =
     (case call_outside (rt_client r (rt_timeout r)
             \<lparr>sr_SagaId = sagaID, sr_To = to_addr, sr_Repo = repo, sr_ConfirmUrl = confirmURL\<rparr>) w of
        (Some err, w') \<Rightarrow> (Some (Errorf ''grpc send confirmation'' err), w')
      | (None, w') \<Rightarrow> (None, w'))"

lemma Retry_frame: "Retry r i a b u w = (x, w') \<Longrightarrow> io_only w w'"
  by (auto simp: Retry_def split: prod.splits option.splits dest: io_only_calls(4))

end
