(* ===== verification/SagaRuns.thy ===== *)
theory SagaRuns
  imports SagaLaws
begin

text \<open>
  What each handler of the orchestrator does when no other session interferes, whatever
  calls fail: the saga and the subscription it leaves, and the errors it returns. Proved
  under the laws of \<open>SagaLaws\<close>; the last part is the sweeper's loop.
\<close>

context orchestrator
begin

section \<open>Outcomes of the guarded writes, alone\<close>

lemma MarkCompleted_alone:
  assumes "inv w" "alone w" "ss_MarkCompleted (or_sagas oc) i w = (r, w')"
  shows "inv w'" "alone w'" "sub_at w' = sub_at w"
    and "saga_at w' = saga_at w \<or> marked SagaStateCompleted None i (saga_at w) (saga_at w')"
    and "\<not> real_error r \<Longrightarrow> not_pending (saga_at w') i"
    and "r = None \<Longrightarrow> marked SagaStateCompleted None i (saga_at w) (saga_at w')"
proof -
  from MarkCompleted[OF assms(1,3)] show "inv w'" by blast
  have out: "outcome others (\<lambda>v. not_pending (saga_at v) i)
      (mark_effect saga_at sub_at alone SagaStateCompleted None i) w r w'"
    using MarkCompleted[OF assms(1,3)] by blast
  have "alone w' \<and> sub_at w' = sub_at w \<and>
      (saga_at w' = saga_at w \<and> (real_error r \<or> r \<noteq> None \<and> not_pending (saga_at w') i) \<or>
       marked SagaStateCompleted None i (saga_at w) (saga_at w'))"
    using out
  proof (cases rule: outcome_cases)
    case (did w1)
    then show ?thesis using alone_same[OF assms(2)] by (simp add: mark_effect_def)
  qed (use alone_same[OF assms(2)] in auto)
  then show "alone w'" "sub_at w' = sub_at w"
    "saga_at w' = saga_at w \<or> marked SagaStateCompleted None i (saga_at w) (saga_at w')"
    "\<not> real_error r \<Longrightarrow> not_pending (saga_at w') i"
    "r = None \<Longrightarrow> marked SagaStateCompleted None i (saga_at w) (saga_at w')"
    using marked_not_pending[OF _ SagaState_distinct(2)] by (auto simp: real_error_def)
qed

text \<open>Marking a saga whose row is gone does nothing.\<close>

lemma MarkCompensated_gone:
  assumes "inv w" "alone w" "saga_at w i = None"
    and "ss_MarkCompensated (or_sagas oc) i reason w = (r, w')"
  shows "inv w' \<and> alone w' \<and> sub_at w' = sub_at w \<and> saga_at w' = saga_at w \<and> r \<noteq> None"
proof -
  have "outcome others (\<lambda>v. not_pending (saga_at v) i)
      (mark_effect saga_at sub_at alone SagaStateCompensated (Some reason) i) w r w'"
    and inv': "inv w'"
    using MarkCompensated[OF assms(1,4)] by blast+
  then show ?thesis
  proof (cases rule: outcome_cases)
    case failed
    then show ?thesis using alone_same[OF assms(2)] inv' by (auto simp: real_error_def split: option.splits)
  next
    case nothing
    then show ?thesis using alone_same[OF assms(2)] inv' by auto
  next
    case (did w1)
    then show ?thesis using alone_same[OF assms(2) did(1)] assms(3)
      by (simp add: mark_effect_def marked_def)
  qed
qed

lemma Delete_alone:
  assumes "inv w" "alone w" "sub_at w j \<noteq> None" "us_Delete (or_subs oc) j w = (r, w')"
  shows "inv w'" "alone w'"
    and "saga_at w' = saga_at w \<and> sub_at w' = sub_at w \<and> real_error r \<or>
         saga_at w' = cascaded j (saga_at w) \<and> sub_at w' = (sub_at w)(j := None)"
proof -
  have out: "outcome others (\<lambda>v. sub_at v j = None) (delete_effect saga_at sub_at alone j) w r w'"
    and "inv w'"
    using Delete[OF assms(1,4)] by blast+
  show "inv w'" by fact
  have "alone w' \<and> (saga_at w' = saga_at w \<and> sub_at w' = sub_at w \<and> real_error r \<or>
         saga_at w' = cascaded j (saga_at w) \<and> sub_at w' = (sub_at w)(j := None))"
    using out
  proof (cases rule: outcome_cases)
    case (did w1)
    then show ?thesis using alone_same[OF assms(2)] by (simp add: delete_effect_def)
  qed (use alone_same[OF assms(2)] assms(3) in auto)
  then show "alone w'" "saga_at w' = saga_at w \<and> sub_at w' = sub_at w \<and> real_error r \<or>
         saga_at w' = cascaded j (saga_at w) \<and> sub_at w' = (sub_at w)(j := None)"
    by blast+
qed

lemma Get_alone:
  assumes "inv w" "alone w" "ss_Get (or_sagas oc) i w = (x, w')"
  shows "inv w'" "alone w'" "saga_at w' = saga_at w" "sub_at w' = sub_at w"
    and "x = Inr s \<Longrightarrow> saga_at w i = Some s"
    and "x = Inl e \<Longrightarrow> errors_Is e DomainErrNotFound \<Longrightarrow> saga_at w i = None"
proof -
  have o: "others w w'" using assms(1,3) Get_found Get_failed by (cases x) blast+
  note alone_same[OF assms(2) o] inv_others[OF assms(1) o]
  then show "inv w'" "alone w'" "saga_at w' = saga_at w" "sub_at w' = sub_at w" by blast+
  then show "x = Inr s \<Longrightarrow> saga_at w i = Some s"
    "x = Inl e \<Longrightarrow> errors_Is e DomainErrNotFound \<Longrightarrow> saga_at w i = None"
    using assms(1,3) Get_found Get_failed by metis+
qed

section \<open>The handlers, alone\<close>

lemma HandleSent_alone:
  assumes "inv w" "alone w" "HandleSent oc i w = (r, w')"
  shows "inv w' \<and> alone w' \<and> sub_at w' = sub_at w \<and>
     (saga_at w' = saga_at w \<or> marked SagaStateCompleted None i (saga_at w) (saga_at w')) \<and>
     (r = None \<longrightarrow> not_pending (saga_at w') i)"
proof -
  obtain e where m: "ss_MarkCompleted (or_sagas oc) i w = (e, w')" "r = None \<longleftrightarrow> \<not> real_error e"
    using assms(3) by (rule HandleSent_path)
  then show ?thesis using MarkCompleted_alone[OF assms(1,2) m(1)] by blast
qed

text \<open>
  \<open>HandleFailed\<close> for a pending saga: nothing has changed and an error is returned, or the
  subscription is deleted and its sagas with it. Without an error it is the latter.
\<close>

lemma HandleFailed_pending:
  assumes "inv w" "alone w" "saga_at w i = Some s" "saga_State s = SagaStatePending"
    and "HandleFailed oc i reason w = (r, w')"
  shows "inv w' \<and> alone w' \<and>
     (saga_at w' = saga_at w \<and> sub_at w' = sub_at w \<and> r \<noteq> None \<or>
      saga_at w' = cascaded (saga_SubscriptionID s) (saga_at w) \<and>
      sub_at w' = (sub_at w)(saga_SubscriptionID s := None))"
  using assms(5)
proof (cases rule: HandleFailed_path)
  case (absent e)
  then show ?thesis using Get_alone[OF assms(1,2) absent(1)] assms(3) by auto
next
  case (settled s')
  then show ?thesis using Get_alone(5)[OF assms(1,2) settled(1)] assms(3,4) by simp
next
  case (undeleted s' w1 e)
  note g = Get_alone[OF assms(1,2) undeleted(1)]
  have "s' = s" "sub_at w1 (saga_SubscriptionID s) \<noteq> None" using g(3,5) assms(3) saga_has_sub[OF g(1)] by auto
  then show ?thesis using Delete_alone[OF g(1,2) _ undeleted(3)] g undeleted(5) by auto
next
  case (deleted s' w1 e w2 me)
  note g = Get_alone[OF assms(1,2) deleted(1)]
  have s: "s' = s" "sub_at w1 (saga_SubscriptionID s') \<noteq> None" using g(3,5) assms(3) saga_has_sub[OF g(1)] by auto
  note d = Delete_alone[OF g(1,2) s(2) deleted(3)]
  have gone: "saga_at w2 = cascaded (saga_SubscriptionID s) (saga_at w)"
    "sub_at w2 = (sub_at w)(saga_SubscriptionID s := None)"
    using d(3) g(3,4) deleted(4) s(1) by auto
  then have "saga_at w2 i = None" using assms(3) by (simp add: cascaded_self)
  from MarkCompensated_gone[OF d(1,2) this deleted(5)] gone show ?thesis by auto
qed

lemma HandleFailed_not_pending:
  assumes "inv w" "alone w" "not_pending (saga_at w) i" "HandleFailed oc i reason w = (r, w')"
  shows "inv w' \<and> alone w' \<and> saga_at w' = saga_at w \<and> sub_at w' = sub_at w"
  using assms(4)
proof (cases rule: HandleFailed_path)
  case (undeleted s w1 e)
  then show ?thesis using Get_alone(5)[OF assms(1,2) undeleted(1)] assms(3) by (simp add: not_pending_def)
next
  case (deleted s w1 e w2 me)
  then show ?thesis using Get_alone(5)[OF assms(1,2) deleted(1)] assms(3) by (simp add: not_pending_def)
qed (use Get_alone[OF assms(1,2)] in blast)+

lemma HandleFailed_nil:
  assumes "inv w" "alone w" "HandleFailed oc i reason w = (None, w')"
  shows "not_pending (saga_at w') i"
proof (cases "not_pending (saga_at w) i")
  case True
  then show ?thesis using HandleFailed_not_pending[OF assms(1,2) True assms(3)] by simp
next
  case False
  then obtain s where "saga_at w i = Some s" "saga_State s = SagaStatePending"
    by (auto simp: not_pending_def)
  then show ?thesis using HandleFailed_pending[OF assms(1,2) _ _ assms(3)]
    by (auto simp: cascaded_self)
qed

text \<open>
  \<open>AttemptSyncRetry\<close> never touches a subscription. Without an error the saga is not pending
  any more; for a pending saga that means the retrier accepted exactly the request built
  from the saga's subscription.
\<close>

lemma found_alone:
  assumes "inv w" "alone w" "ss_Get (or_sagas oc) i w = (Inr s, w1)"
    and "us_GetByID (or_subs oc) (saga_SubscriptionID s) w1 = (Inr sub, w2)"
  shows "inv w2" "alone w2" "saga_at w2 = saga_at w" "sub_at w2 = sub_at w"
    and "saga_at w i = Some s" "sub_at w (saga_SubscriptionID s) = Some sub"
proof -
  note g = Get_alone[OF assms(1-3)]
  have b: "others w1 w2" "sub_at w2 (saga_SubscriptionID s) = Some sub"
    using ByID_found[OF g(1) assms(4)] by blast+
  from alone_same[OF g(2) b(1)] inv_others[OF g(1) b(1)] b(2) g
  show "inv w2" "alone w2" "saga_at w2 = saga_at w" "sub_at w2 = sub_at w" "saga_at w i = Some s"
    "sub_at w (saga_SubscriptionID s) = Some sub" by auto
qed

lemma AttemptSyncRetry_alone:
  assumes "inv w" "alone w" "AttemptSyncRetry oc i w = (r, w')"
  shows "inv w' \<and> alone w' \<and> sub_at w' = sub_at w \<and>
     (saga_at w' = saga_at w \<or> marked SagaStateCompleted None i (saga_at w) (saga_at w')) \<and>
     (r = None \<longrightarrow> not_pending (saga_at w') i)"
  using assms(3)
proof (cases rule: AttemptSyncRetry_path)
  case (absent e)
  then show ?thesis using Get_alone[OF assms(1,2) absent(1)] by auto
next
  case (settled s)
  then show ?thesis using Get_alone[OF assms(1,2) settled(1)] by (auto simp: not_pending_def)
next
  case (unread s w1 e)
  note g = Get_alone[OF assms(1,2) unread(1)]
  have "others w1 w'" using ByID_failed[OF g(1) unread(3)] by blast
  from alone_same[OF g(2) this] inv_others[OF g(1) this] g show ?thesis using unread(4) by auto
next
  case (refused s w1 sub w2 e)
  note b = found_alone[OF assms(1,2) refused(1,3)] and o = retrier_frame[OF refused(4)]
  from alone_same[OF b(2) o] inv_others[OF b(1) o] b show ?thesis using refused(5) by auto
next
  case (sent s w1 sub w2 w3 me)
  note b = found_alone[OF assms(1,2) sent(1,3)] and o = retrier_frame[OF sent(4)]
  note t = alone_same[OF b(2) o] inv_others[OF b(1) o]
  from MarkCompleted_alone[OF t(4,1) sent(5)] b t show ?thesis using sent(6) by auto
qed

text \<open>\<open>AttemptSyncRetry\<close> without an error on a pending saga: the request that was accepted.\<close>

lemma AttemptSyncRetry_accepted:
  assumes "inv w" "alone w" "AttemptSyncRetry oc i w = (None, w')"
    and "saga_at w i = Some s" "saga_State s = SagaStatePending"
    and "sub_at w (saga_SubscriptionID s) = Some u"
  shows "\<exists>v v'. or_retrier oc i (sub_Email u) (sub_Repo u)
    (confirm_url (or_baseURL oc) (sub_ConfirmToken u)) v = (None, v')"
  using assms(3)
proof (cases rule: AttemptSyncRetry_path)
  case (settled s')
  then show ?thesis using Get_alone(5)[OF assms(1,2) settled(1)] assms(4,5) by simp
next
  case (sent s' w1 sub w2 w3 me)
  then show ?thesis using found_alone(5,6)[OF assms(1,2) sent(1,3)] assms(4,6) by auto
qed simp_all

text \<open>A failed publish is compensated at once; a successful one changes nothing.\<close>

lemma Publish_alone:
  assumes "inv w" "alone w" "Publish oc i sub url w = (r, w')"
  shows "case or_commands oc i (sub_Email sub) (sub_Repo sub) url w of
      (None, w1) \<Rightarrow> r = None \<and> saga_at w' = saga_at w \<and> sub_at w' = sub_at w
    | (Some err, w1) \<Rightarrow> r = Some (Errorf ''publish saga command'' err) \<and>
        saga_at w1 = saga_at w \<and> sub_at w1 = sub_at w \<and> inv w1 \<and> alone w1 \<and>
        w' = snd (HandleFailed oc i (''publish_failed: '' @ error_text err) w1)"
proof -
  obtain e w1 where c: "or_commands oc i (sub_Email sub) (sub_Repo sub) url w = (e, w1)" by fastforce
  note o = commands_frame[OF c]
  show ?thesis
    using assms(3) c alone_same[OF assms(2) o] inv_others[OF assms(1) o]
    by (auto simp: Publish_def Let_def split: option.splits prod.splits)
qed

text \<open>On a store that always answers, a failed compensation is not possible.\<close>

lemma HandleFailed_sure:
  assumes "inv w" "sure w" "HandleFailed oc i reason w = (r, w')"
  shows "r = None \<and> sure w'"
proof -
  have get: "sure v" "inv v" if "ss_Get (or_sagas oc) i w = (x, v)" for x v
  proof -
    have o: "others w v" using assms(1) that Get_found Get_failed by (cases x) blast+
    from sure_others[OF assms(2) o] inv_others[OF assms(1) o] show "sure v" "inv v" by simp_all
  qed
  show ?thesis
    using assms(3)
  proof (cases rule: HandleFailed_path)
    case (absent e)
    then show ?thesis using get(1) Get_failed assms(1,2) by blast
  next
    case (settled s)
    then show ?thesis using get(1) by blast
  next
    case (undeleted s w1 e)
    then show ?thesis using Delete[OF get(2)[OF undeleted(1)] undeleted(3)] get(1)[OF undeleted(1)] by blast
  next
    case (deleted s w1 e w2 me)
    have "inv w2" "sure w2" using Delete[OF get(2)[OF deleted(1)] deleted(3)] get(1)[OF deleted(1)] by blast+
    then show ?thesis using MarkCompensated[OF _ deleted(5)] deleted(6) by blast
  qed
qed

lemma AttemptSyncRetry_sure:
  assumes "inv w" "sure w" "AttemptSyncRetry oc i w = (r, w')"
  shows "sure w'"
proof -
  have get: "inv v \<and> sure v" if "ss_Get (or_sagas oc) i w = (x, v)" for x v
  proof -
    have o: "others w v" using assms(1) that Get_found Get_failed by (cases x) blast+
    from sure_others[OF assms(2) o] inv_others[OF assms(1) o] show ?thesis by simp
  qed
  have byid: "inv u \<and> sure u" if "us_GetByID (or_subs oc) j v = (y, u)" "inv v \<and> sure v" for j v u y
  proof -
    have o: "others v u" using that ByID_found ByID_failed by (cases y) blast+
    from sure_others[OF _ o] inv_others[OF _ o] that(2) show ?thesis by simp
  qed
  have retried: "inv u \<and> sure u" if "or_retrier oc i a rp url v = (e, u)" "inv v \<and> sure v" for a rp url v e u
    using sure_others[OF _ retrier_frame[OF that(1)]] inv_others[OF _ retrier_frame[OF that(1)]] that(2) by simp
  show ?thesis
    using assms(3)
  proof (cases rule: AttemptSyncRetry_path)
    case (sent s w1 sub w2 w3 me)
    from retried[OF sent(4) byid[OF sent(3) get[OF sent(1)]]] show ?thesis using MarkCompleted[OF _ sent(5)] by blast
  qed (use get byid retried in blast)+
qed

end

end
