(* ===== verification/SweeperRuns.thy ===== *)
theory SweeperRuns
  imports SagaRuns
begin

text \<open>
  The sweep of \<^verbatim>\<open>timeout_sweeper.go\<close> under the laws of its orchestrator: a sweep alone never
  revives a saga, deletes only subscriptions of sagas it found stuck, and on a store that
  always answers leaves no saga pending that was past its timeout.
\<close>

locale sweeper = orchestrator saga_at sub_at inv others alone sure oc
  for saga_at :: "'w \<Rightarrow> string \<Rightarrow> Saga option" and sub_at inv others alone sure
    and oc :: "'w Orchestrator" +
  fixes timeout :: int
    and interval :: int
    and now :: "'w \<Rightarrow> int \<times> 'w"
    and ctxErr :: "'w \<Rightarrow> bool \<times> 'w"
  assumes now_frame: "now w = (t, w') \<Longrightarrow> others w w'"
    and ctx_frame: "ctxErr w = (b, w') \<Longrightarrow> others w w'"
    and ctx_sure: "sure w \<Longrightarrow> \<not> fst (ctxErr w)"

context sweeper
begin

text \<open>The rows a sweep has fetched are the pending rows, as long as nothing but it runs.\<close>

definition fetched :: "Saga list \<Rightarrow> 'w \<Rightarrow> bool" where
  "fetched stuck w \<longleftrightarrow> (\<forall>g \<in> set stuck. \<forall>s.
     saga_at w (saga_ID g) = Some s \<and> saga_State s = SagaStatePending \<longrightarrow> s = g)"

definition subs_only_of :: "Saga list \<Rightarrow> 'w \<Rightarrow> 'w \<Rightarrow> bool" where
  "subs_only_of stuck w w' \<longleftrightarrow>
     (\<forall>j. sub_at w' j = sub_at w j \<or>
        sub_at w' j = None \<and> (\<exists>g \<in> set stuck. saga_SubscriptionID g = j))"

lemma fetched_fewer:
  "fetched stuck w \<Longrightarrow> fewer (saga_at w) (saga_at w') \<Longrightarrow> fetched stuck w'"
  unfolding fetched_def using fewer_pendingD by blast

lemma retry_fewer:
  assumes "inv w" "alone w" "AttemptSyncRetry oc i w = (r, w')"
  shows "inv w'" "alone w'" "sub_at w' = sub_at w" "fewer (saga_at w) (saga_at w')"
    "r = None \<Longrightarrow> not_pending (saga_at w') i"
  using AttemptSyncRetry_alone[OF assms] fewer_marked[OF SagaState_distinct(2)] fewer_refl by metis+

lemma failed_fewer:
  assumes "inv w" "alone w" "fetched (s # stuck) w"
    and "HandleFailed oc (saga_ID s) reason w = (r, w')"
  shows "inv w'" "alone w'" "fewer (saga_at w) (saga_at w')" "subs_only_of [s] w w'"
    "r = None \<Longrightarrow> not_pending (saga_at w') (saga_ID s)"
proof -
  have "inv w' \<and> alone w' \<and> fewer (saga_at w) (saga_at w') \<and> subs_only_of [s] w w'"
  proof (cases "not_pending (saga_at w) (saga_ID s)")
    case True
    then show ?thesis
      using HandleFailed_not_pending[OF assms(1,2) True assms(4)] by (simp add: subs_only_of_def)
  next
    case False
    then obtain g where g: "saga_at w (saga_ID s) = Some g" "saga_State g = SagaStatePending"
      by (auto simp: not_pending_def)
    then have "g = s" using assms(3) by (auto simp: fetched_def)
    then show ?thesis
      using HandleFailed_pending[OF assms(1,2) g assms(4)]
      by (auto simp: subs_only_of_def split: if_splits)
  qed
  then show "inv w'" "alone w'" "fewer (saga_at w) (saga_at w')" "subs_only_of [s] w w'" by blast+
  show "r = None \<Longrightarrow> not_pending (saga_at w') (saga_ID s)"
    using HandleFailed_nil[OF assms(1,2)] assms(4) by blast
qed

text \<open>One turn of the loop that is not cut short by the context.\<close>

lemma sweep_turn:
  assumes "inv w" "alone w" "fetched (s # stuck) w" "ctxErr w = (False, w1)"
  obtains w' where "sweep_each (NewTimeoutSweeper oc timeout interval now ctxErr) (s # stuck) w =
      sweep_each (NewTimeoutSweeper oc timeout interval now ctxErr) stuck w'"
    and "inv w'" "alone w'" "fewer (saga_at w) (saga_at w')" "subs_only_of [s] w w'"
    and "sure w \<Longrightarrow> sure w' \<and> not_pending (saga_at w') (saga_ID s)"
proof -
  note o1 = ctx_frame[OF assms(4)]
  note c = alone_same[OF assms(2) o1] inv_others[OF assms(1) o1]
  obtain re w2 where rt: "AttemptSyncRetry oc (saga_ID s) w1 = (re, w2)" by fastforce
  note r = retry_fewer[OF c(4,1) rt]
  have su: "sure w \<Longrightarrow> sure w2" using sure_others[OF _ o1] AttemptSyncRetry_sure[OF c(4) _ rt] by blast
  show ?thesis
  proof (cases re)
    case None
    show ?thesis
      by (rule that[of w2])
        (use None r c su assms(4) rt in \<open>auto simp: NewTimeoutSweeper_def subs_only_of_def\<close>)
  next
    case (Some e)
    have f2: "fetched (s # stuck) w2" using fetched_fewer[OF assms(3)] r(4) c(2) by metis
    let ?reason = "''timeout_after_grpc_retry_failed: '' @ error_text e"
    obtain fe w3 where hf: "HandleFailed oc (saga_ID s) ?reason w2 = (fe, w3)" by fastforce
    note h = failed_fewer[OF r(1,2) f2 hf]
    show ?thesis
    proof (rule that[of w3])
      show "sweep_each (NewTimeoutSweeper oc timeout interval now ctxErr) (s # stuck) w =
          sweep_each (NewTimeoutSweeper oc timeout interval now ctxErr) stuck w3"
        using Some assms(4) rt hf by (simp add: NewTimeoutSweeper_def Let_def)
      show "inv w3" "alone w3" by (fact h)+
      show "fewer (saga_at w) (saga_at w3)" using fewer_trans[OF r(4) h(3)] c(2) by simp
      show "subs_only_of [s] w w3" using h(4) r(3) c(3) by (simp add: subs_only_of_def)
      show "sure w3 \<and> not_pending (saga_at w3) (saga_ID s)" if "sure w"
        using HandleFailed_sure[OF r(1) su[OF that] hf] h(5) by blast
    qed
  qed
qed

lemma subs_only_of_trans:
  "subs_only_of [s] w w1 \<Longrightarrow> subs_only_of stuck w1 w2 \<Longrightarrow> subs_only_of (s # stuck) w w2"
  unfolding subs_only_of_def by simp metis

lemma sweep_each_alone:
  assumes "inv w" "alone w" "fetched stuck w"
    and "sweep_each (NewTimeoutSweeper oc timeout interval now ctxErr) stuck w = w'"
  shows "inv w' \<and> alone w' \<and> fewer (saga_at w) (saga_at w') \<and> subs_only_of stuck w w' \<and>
    (sure w \<longrightarrow> (\<forall>g \<in> set stuck. not_pending (saga_at w') (saga_ID g)))"
  using assms
proof (induction stuck arbitrary: w)
  case Nil
  then show ?case by (simp add: subs_only_of_def)
next
  case (Cons s stuck)
  obtain b w1 where ctx: "ctxErr w = (b, w1)" by fastforce
  show ?case
  proof (cases b)
    case True
    then have "w' = w1" using Cons.prems(4) ctx by (simp add: NewTimeoutSweeper_def)
    moreover have "\<not> sure w" using ctx True ctx_sure[of w] by auto
    ultimately show ?thesis
      using ctx_frame[OF ctx] alone_same[OF Cons.prems(2)] inv_others[OF Cons.prems(1)]
      by (auto simp: subs_only_of_def)
  next
    case False
    then have ctx': "ctxErr w = (False, w1)" using ctx by simp
    obtain v where v: "sweep_each (NewTimeoutSweeper oc timeout interval now ctxErr) (s # stuck) w =
        sweep_each (NewTimeoutSweeper oc timeout interval now ctxErr) stuck v"
      "inv v" "alone v" "fewer (saga_at w) (saga_at v)" "subs_only_of [s] w v"
      "sure w \<Longrightarrow> sure v \<and> not_pending (saga_at v) (saga_ID s)"
      by (rule sweep_turn[OF Cons.prems(1-3) ctx']) blast
    have "fetched stuck v"
      by (rule fetched_fewer[OF _ v(4)]) (use Cons.prems(3) in \<open>simp add: fetched_def\<close>)
    note ih = Cons.IH[OF v(2,3) this v(1)[symmetric, unfolded Cons.prems(4)]]
    show ?thesis
      using ih v(4-6) fewer_trans subs_only_of_trans fewer_not_pending
      by (metis set_ConsD)
  qed
qed

text \<open>The whole sweep.\<close>

lemma sweep_alone:
  assumes "inv w" "alone w" "sweep (NewTimeoutSweeper oc timeout interval now ctxErr) w = w'"
  shows "inv w' \<and> alone w' \<and> fewer (saga_at w) (saga_at w') \<and>
    (\<forall>j. sub_at w' j = sub_at w j \<or> sub_at w' j = None \<and>
       (\<exists>g. saga_at w (saga_ID g) = Some g \<and> saga_State g = SagaStatePending \<and>
          saga_StartedAt g < fst (now w) - timeout \<and> saga_SubscriptionID g = j)) \<and>
    (sure w \<longrightarrow>
       (\<forall>k s. saga_at w' k = Some s \<and> saga_State s = SagaStatePending \<longrightarrow>
          fst (now w) - timeout \<le> saga_StartedAt s))"
  using assms(3)
proof (cases rule: sweep_path)
  case (unread t w1 e)
  have n: "now w = (t, w1)" and q: "ss_GetPendingOlderThan (or_sagas oc) (t - timeout) w1 = (Inl e, w')"
    using unread by (simp_all add: NewTimeoutSweeper_def)
  note o1 = now_frame[OF n]
  note c = alone_same[OF assms(2) o1] inv_others[OF assms(1) o1] sure_others[OF _ o1]
  show ?thesis using Pending_failed[OF c(4) q] c alone_same[OF c(1)] inv_others[OF c(4)] by auto
next
  case (swept t w1 stuck w2)
  have n: "now w = (t, w1)" and q: "ss_GetPendingOlderThan (or_sagas oc) (t - timeout) w1 = (Inr stuck, w2)"
    using swept by (simp_all add: NewTimeoutSweeper_def)
  note o1 = now_frame[OF n]
  note c = alone_same[OF assms(2) o1] inv_others[OF assms(1) o1] sure_others[OF _ o1]
  have p: "others w1 w2"
    "\<And>k g. saga_at w2 k = Some g \<Longrightarrow> saga_State g = SagaStatePending \<Longrightarrow>
       saga_StartedAt g < t - timeout \<Longrightarrow> k \<in> saga_ID ` set stuck"
    "\<And>g. g \<in> set stuck \<Longrightarrow> saga_at w2 (saga_ID g) = Some g \<and>
       saga_State g = SagaStatePending \<and> saga_StartedAt g < t - timeout"
    using Pending_found[OF c(4) q] by blast+
  note d = alone_same[OF c(1) p(1)] inv_others[OF c(4) p(1)] sure_others[OF _ p(1)]
  have f: "fetched stuck w2" using p(3) by (auto simp: fetched_def)
  note r = sweep_each_alone[OF d(4,1) f swept(3)]
  have young: "t - timeout \<le> saga_StartedAt s"
    if "sure w" "saga_at w' k = Some s" "saga_State s = SagaStatePending" for k s
  proof (rule ccontr)
    assume "\<not> t - timeout \<le> saga_StartedAt s"
    moreover have "saga_at w2 k = Some s" using r that fewer_pendingD by blast
    ultimately have "k \<in> saga_ID ` set stuck" using p(2) that(3) by simp
    then have "not_pending (saga_at w') k" using r that(1) c(5) d(5) by blast
    then show False using that(2,3) by (simp add: not_pending_def)
  qed
  have subs: "sub_at w' j = sub_at w j \<or> sub_at w' j = None \<and>
     (\<exists>g. saga_at w (saga_ID g) = Some g \<and> saga_State g = SagaStatePending \<and>
        saga_StartedAt g < t - timeout \<and> saga_SubscriptionID g = j)" for j
    using r p(3) d(2,3) c(2,3) unfolding subs_only_of_def by metis
  show ?thesis using r subs young d(2) c(2) n by auto
qed

end

end
