(* ===== verification/SagaStore.thy ===== *)
theory SagaStore
  imports Views Publisher Retrier SweeperRuns
begin

text \<open>
  The PostgreSQL repositories as the ports of the orchestrator, and the proofs that they keep
  the laws of \<open>SagaLaws\<close>: from here on the orchestrator's lemmas speak about the tables. The
  wiring is that of \<^verbatim>\<open>setupServices\<close> in \<^verbatim>\<open>cmd/server/main.go\<close>.
\<close>

section \<open>The ports\<close>

definition pg_sagas :: "'x world sagaStore" where
  "pg_sagas = \<lparr>ss_Get = SagaRepository_Get, ss_MarkCompleted = MarkCompleted,
     ss_MarkCompensated = MarkCompensated, ss_MarkTimedOut = MarkTimedOut,
     ss_GetPendingOlderThan = GetPendingOlderThan\<rparr>"

definition pg_subs :: "'x world subStore" where
  "pg_subs = \<lparr>us_Delete = SubscriptionRepository_Delete, us_GetByID = GetByID\<rparr>"

text \<open>\<^verbatim>\<open>saga.New(publisher, sagaRepo, subRepo, retrier, cfg.BaseURL)\<close>.\<close>

definition wired :: "'x Publisher \<Rightarrow> 'x Retrier \<Rightarrow> string \<Rightarrow> 'x world Orchestrator" where
  "wired p r baseURL =
     \<lparr>or_commands = SendConfirmationCommand_publish p, or_sagas = pg_sagas, or_subs = pg_subs,
      or_retrier = Retry r, or_baseURL = baseURL\<rparr>"

lemma wired_simps [simp]:
  "or_commands (wired p r u) = SendConfirmationCommand_publish p"
  "or_sagas (wired p r u) = pg_sagas" "or_subs (wired p r u) = pg_subs"
  "or_retrier (wired p r u) = Retry r" "or_baseURL (wired p r u) = u"
  by (simp_all add: wired_def)

section \<open>The repositories keep the laws\<close>

lemma one_row_found:
  assumes "one_row what sel w = (Inr r, w')"
  shows "others w w' \<and> (\<exists>rs. sel (db w') = r # rs)"
proof -
  obtain q w1 where e: "exec_sql (query_row sel) w = (q, w1)" by fastforce
  then have q: "q = Inr r" "w1 = w'" using assms by (auto simp: one_row_def split: sum.splits if_splits)
  from e show ?thesis
    by (cases rule: exec_sql_cases) (use q in \<open>auto simp: query_row_def split: list.splits\<close>)
qed

lemma one_row_failed:
  assumes "one_row what sel w = (Inl err, w')"
  shows "others w w' \<and> (errors_Is err DomainErrNotFound \<longrightarrow> sel (db w') = []) \<and>
    (healthy w \<longrightarrow> errors_Is err DomainErrNotFound)"
proof -
  obtain q w1 where e: "exec_sql (query_row sel) w = (q, w1)" by fastforce
  then obtain err0 where q: "q = Inl err0" "w1 = w'"
      "err = (if errors_Is err0 PgxErrNoRows then Sentinel DomainErrNotFound else Errorf what err0)"
    using assms by (auto simp: one_row_def split: sum.splits if_splits)
  have h: "healthy w \<Longrightarrow> errors_Is err DomainErrNotFound"
    using exec_sql_healthy[OF _ e] q by (auto simp: query_row_def split: list.splits)
  from e have "others w w' \<and> (errors_Is err DomainErrNotFound \<longrightarrow> sel (db w') = [])"
  proof (cases rule: exec_sql_cases)
    case (ran w2)
    then have "sel (db w2) = []" using q(1) by (auto simp: query_row_def split: list.splits)
    then show ?thesis using ran q by (simp add: query_row_def)
  next
    case (failed m)
    then show ?thesis using q by simp
  next
    case (lost w2 m)
    then show ?thesis using q by (simp add: query_row_def)
  qed
  then show ?thesis using h by blast
qed

text \<open>The outcome of an update that reports the number of its rows.\<close>

lemma exec_affecting_outcome:
  fixes w :: "'x world"
  assumes ok: "world_ok w" and keep: "sql_keeps stmt"
    and run: "exec_affecting what stmt w = (r, w')"
    and answers: "\<And>d. db_ok d \<Longrightarrow> \<exists>n. fst (stmt d) = Inr n"
    and none: "\<And>v. world_ok v \<Longrightarrow> fst (stmt (db v)) = Inr 0 \<Longrightarrow> snd (stmt (db v)) = db v \<and> nothing v"
    and some: "\<And>v n. world_ok v \<Longrightarrow> fst (stmt (db v)) = Inr (Suc n) \<Longrightarrow>
        effect v (v\<lparr>db := snd (stmt (db v))\<rparr>)"
  shows "world_ok w' \<and> (healthy w \<longrightarrow> healthy w' \<and> \<not> real_error r) \<and>
    outcome others nothing effect w r w'"
proof -
  obtain q w1 where e: "exec_sql stmt w = (q, w1)" by fastforce
  have w1: "w1 = w'" using run e by (auto simp: exec_affecting_def split: sum.splits if_splits)
  have r: "r = (case q of Inl err \<Rightarrow> Some (Errorf what err)
      | Inr n \<Rightarrow> if n = 0 then Some (Sentinel DomainErrNotFound) else None)"
    using run e by (auto simp: exec_affecting_def split: sum.splits)
  have step: "\<exists>n. fst (stmt (db v)) = Inr n \<and> (if n = 0 then w' = v \<and> nothing v else effect v w')"
    if "others w v" "w1 = v\<lparr>db := snd (stmt (db v))\<rparr>" for v
  proof -
    note okv = world_ok_others[OF ok that(1)]
    obtain n where n: "fst (stmt (db v)) = Inr n" using answers[of "db v"] okv unfolding world_ok_def by blast
    then show ?thesis using none[OF okv] some[OF okv] that(2) w1 by (cases n) simp_all
  qed
  have "outcome others nothing effect w r w'"
    using e
  proof (cases rule: exec_sql_cases)
    case (ran v)
    then obtain n where n: "q = Inr n" "if n = 0 then w' = v \<and> nothing v else effect v w'"
      using step by metis
    then have "if n = 0 then r \<noteq> None \<and> \<not> real_error r else r = None" using r by (simp add: real_error_def)
    then show ?thesis using n(2) ran(1) unfolding outcome_def by (metis (full_types))
  next
    case (failed m)
    then show ?thesis using r w1 by (simp add: outcome_def real_error_def)
  next
    case (lost v m)
    then have "real_error r" using r by (simp add: real_error_def)
    then show ?thesis using step[OF lost(1,3)] lost(1) unfolding outcome_def by (metis (full_types))
  qed
  moreover have "(\<exists>n. q = Inr n) \<longrightarrow> \<not> real_error r" using r by (auto simp: real_error_def split: if_splits)
  moreover have "healthy w \<longrightarrow> healthy w' \<and> (\<exists>n. q = Inr n)"
    using exec_sql_healthy[OF _ e] step w1 by metis
  ultimately show ?thesis using exec_sql_ok[OF keep ok e] w1 by blast
qed

section \<open>Sagas\<close>

lemma outcome_from:
  assumes "others w v" "outcome others nothing effect v r w'"
  shows "outcome others nothing effect w r w'"
  using assms(2)
proof (cases rule: outcome_cases)
  case failed
  then show ?thesis using others_trans[OF assms(1)] by (auto simp: outcome_def)
next
  case nothing
  then show ?thesis using others_trans[OF assms(1)] by (auto simp: outcome_def)
next
  case (did w1)
  then show ?thesis using others_trans[OF assms(1)] by (auto simp: outcome_def)
qed

lemma markTerminal_outcome:
  assumes ok: "world_ok w" and chk: "saga_state_check st"
    and run: "markTerminal i st e w = (r, w')"
  shows "world_ok w' \<and> (healthy w \<longrightarrow> healthy w' \<and> \<not> real_error r) \<and>
    outcome others (\<lambda>v. not_pending (saga_at v) i)
      (mark_effect saga_at sub_at quiet st e i) w r w'"
proof -
  obtain t w1 where t: "time_Now w = (t, w1)" by fastforce
  note o = io_only_others[OF io_only_calls(1)[OF t]]
  note ok1 = world_ok_others[OF ok o]
  let ?stmt = "sql_mark_saga st e t i"
  let ?hit = "\<lambda>s. saga_ID s = i \<and> saga_State s = ''pending''"
  have run1: "exec_affecting (''mark saga '' @ st) ?stmt w1 = (r, w')"
    using run t by (simp add: markTerminal_def)
  have "world_ok w' \<and> (healthy w1 \<longrightarrow> healthy w' \<and> \<not> real_error r) \<and>
    outcome others (\<lambda>v. not_pending (saga_at v) i)
      (mark_effect saga_at sub_at quiet st e i) w1 r w'"
  proof (rule exec_affecting_outcome[OF ok1 keeps_mark run1])
    show "\<exists>n. fst (?stmt d) = Inr n" for d using chk by (simp add: sql_mark_saga_def Let_def)
  next
    fix v :: "'a world" assume v: "world_ok v" "fst (?stmt (db v)) = Inr 0"
    then have none: "\<forall>s \<in> set (t_sagas (db v)). \<not> ?hit s"
      using chk by (auto simp: sql_mark_saga_def Let_def filter_empty_conv)
    then have "not_pending (saga_at v) i"
      by (auto simp: not_pending_def saga_at_def SagaStatePending_def dest!: find_SomeD)
    then show "snd (?stmt (db v)) = db v \<and> not_pending (saga_at v) i"
      using views_after_mark(3)[OF v(1) chk, of "v\<lparr>db := snd (?stmt (db v))\<rparr>"]
      by (auto simp: not_pending_def SagaStatePending_def)
  next
    fix v :: "'a world" and n assume v: "world_ok v" "fst (?stmt (db v)) = Inr (Suc n)"
    then obtain s where s: "s \<in> set (t_sagas (db v))" "?hit s"
      using chk length_filter_Suc[of ?hit] by (fastforce simp: sql_mark_saga_def Let_def)
    have "distinct (map saga_ID (t_sagas (db v)))" using v(1) by (simp add: world_ok_def db_ok_def)
    then have at: "saga_at v i = Some s"
      unfolding saga_at_def using s by (auto intro!: find_key_eq)
    then show "mark_effect saga_at sub_at quiet st e i v (v\<lparr>db := snd (?stmt (db v))\<rparr>)"
      using views_after_mark(1,2)[OF v(1) chk, of "v\<lparr>db := snd (?stmt (db v))\<rparr>"] s
      by (auto simp: mark_effect_def marked_def mark_saga_def SagaStatePending_def)
  qed
  then show ?thesis using outcome_from[OF o] healthy_others[OF _ o] by blast
qed

lemma states_checked [simp]:
  "saga_state_check SagaStateCompleted" "saga_state_check SagaStateCompensated"
  "saga_state_check SagaStateTimedOut" "saga_state_check SagaStatePending"
  by (simp_all add: saga_state_check_def SagaState_defs)

lemma many_rows_failed:
  assumes "many_rows what sel w = (Inl e, w')"
  shows "others w w' \<and> \<not> healthy w"
proof -
  obtain q w1 where e: "exec_sql (query_rows sel) w = (q, w1)" by fastforce
  then have q: "\<exists>e0. q = Inl e0" "w1 = w'" using assms by (auto simp: many_rows_def split: sum.splits db_outcome.splits)
  have "\<not> healthy w" using exec_sql_healthy[OF _ e] q by (auto simp: query_rows_def)
  moreover from e have "others w w'"
    by (cases rule: exec_sql_cases) (use q in \<open>auto simp: query_rows_def\<close>)
  ultimately show ?thesis by blast
qed

lemma many_rows_found:
  assumes "many_rows what sel w = (Inr rs, w')"
  shows "others w w' \<and> rs = sel (db w')"
proof -
  obtain q w1 where e: "exec_sql (query_rows sel) w = (q, w1)" by fastforce
  then have q: "q = Inr rs" "w1 = w'" using assms by (auto simp: many_rows_def split: sum.splits db_outcome.splits)
  from e show ?thesis
    by (cases rule: exec_sql_cases) (use q in \<open>auto simp: query_rows_def\<close>)
qed

lemma GetPendingOlderThan_found:
  assumes ok: "world_ok w" and run: "GetPendingOlderThan th w = (Inr ss, w')"
  shows "others w w' \<and>
    (\<forall>k g. saga_at w' k = Some g \<and> saga_State g = SagaStatePending \<and> saga_StartedAt g < th \<longrightarrow>
      k \<in> saga_ID ` set ss) \<and>
    (\<forall>g \<in> set ss. saga_at w' (saga_ID g) = Some g \<and> saga_State g = SagaStatePending \<and>
      saga_StartedAt g < th)"
proof -
  have o: "others w w'" and ss: "ss =
      filter (\<lambda>s. saga_State s = ''pending'' \<and> saga_StartedAt s < th) (t_sagas (db w'))"
    using many_rows_found[OF run[unfolded GetPendingOlderThan_def]] by blast+
  have key: "distinct (map saga_ID (t_sagas (db w')))"
    using world_ok_others[OF ok o] by (simp add: world_ok_def db_ok_def)
  have "k \<in> saga_ID ` set ss"
    if "saga_at w' k = Some g" "saga_State g = SagaStatePending" "saga_StartedAt g < th" for k g
    using that find_SomeD[of _ "t_sagas (db w')" g]
    by (auto simp: saga_at_def ss SagaStatePending_def image_iff)
  moreover have "saga_at w' (saga_ID g) = Some g" if "g \<in> set ss" for g
    unfolding saga_at_def by (rule find_key_distinct[OF key]) (use that ss in simp)
  ultimately show ?thesis using o by (auto simp: ss SagaStatePending_def)
qed

section \<open>Subscriptions\<close>

lemma Delete_outcome:
  assumes ok: "world_ok w" and run: "SubscriptionRepository_Delete i w = (r, w')"
  shows "world_ok w' \<and> (healthy w \<longrightarrow> healthy w' \<and> \<not> real_error r) \<and>
    outcome others (\<lambda>v. sub_at v i = None) (delete_effect saga_at sub_at quiet i) w r w'"
proof (rule exec_affecting_outcome[OF ok keeps_delete run[unfolded SubscriptionRepository_Delete_def]])
  let ?stmt = "sql_delete_subscription i"
  show "\<exists>n. fst (?stmt d) = Inr n" for d by (simp add: sql_delete_subscription_def)
next
  let ?stmt = "sql_delete_subscription i"
  fix v :: "'a world" assume "world_ok v" "fst (?stmt (db v)) = Inr 0"
  then have none: "\<forall>r \<in> set (t_subscriptions (db v)). sr_id r \<noteq> i"
    by (simp add: sql_delete_subscription_def filter_empty_conv)
  then have "find (\<lambda>r. sr_id r = i) (t_subscriptions (db v)) = None" by (simp add: find_None_iff)
  then have "sub_at v i = None" by (simp add: sub_at_def)
  moreover have "snd (?stmt (db v)) = db v"
    using none by (auto simp: sql_delete_subscription_def)
  ultimately show "snd (?stmt (db v)) = db v \<and> sub_at v i = None" by blast
next
  let ?stmt = "sql_delete_subscription i"
  fix v :: "'a world" and n assume "world_ok v"
  then show "delete_effect saga_at sub_at quiet i v (v\<lparr>db := snd (?stmt (db v))\<rparr>)"
    using views_after_delete[of v "v\<lparr>db := snd (?stmt (db v))\<rparr>"] by (simp add: delete_effect_def)
qed
section \<open>Interpretations\<close>

interpretation pgv: saga_view saga_at sub_at world_ok others quiet healthy
proof
  show "others w w" for w :: "'a world" by simp
  show "others w w'' " if "others w w'" "others w' w''" for w w' w'' :: "'a world"
    using that by (rule others_trans)
  show "world_ok w'" if "world_ok w" "others w w'" for w w' :: "'a world"
    using that by (rule world_ok_others)
  show "quiet w' \<and> saga_at w' = saga_at w \<and> sub_at w' = sub_at w"
    if "quiet w" "others w w'" for w w' :: "'a world"
    using quiet_others[OF that] views_cong by blast
  show "healthy w'" if "healthy w" "others w w'" for w w' :: "'a world"
    using that by (rule healthy_others)
qed

interpretation pgs: saga_store saga_at sub_at world_ok others quiet healthy pg_sagas
proof
  fix w w' :: "'a world" and i s e r reason th ss pe
  show "others w w' \<and> saga_at w' i = Some s"
    if "ss_Get pg_sagas i w = (Inr s, w')"
    using one_row_found[of "''get saga''" "select_saga i" w s w'] that
    by (auto simp: pg_sagas_def SagaRepository_Get_def saga_at_select)
  show "others w w' \<and> (errors_Is e DomainErrNotFound \<longrightarrow> saga_at w' i = None) \<and>
      (healthy w \<longrightarrow> errors_Is e DomainErrNotFound)"
    if "ss_Get pg_sagas i w = (Inl e, w')"
    using one_row_failed[of "''get saga''" "select_saga i" w e w'] that
    by (auto simp: pg_sagas_def SagaRepository_Get_def saga_at_select)
  show "world_ok w' \<and> (healthy w \<longrightarrow> healthy w' \<and> \<not> real_error r) \<and>
      outcome others (\<lambda>v. not_pending (saga_at v) i)
        (mark_effect saga_at sub_at quiet SagaStateCompleted None i) w r w'"
    if "world_ok w" "ss_MarkCompleted pg_sagas i w = (r, w')"
    using that(2) by (intro markTerminal_outcome[OF that(1)]) (simp_all add: pg_sagas_def MarkCompleted_def)
  show "world_ok w' \<and> (healthy w \<longrightarrow> healthy w' \<and> \<not> real_error r) \<and>
      outcome others (\<lambda>v. not_pending (saga_at v) i)
        (mark_effect saga_at sub_at quiet SagaStateCompensated (Some reason) i) w r w'"
    if "world_ok w" "ss_MarkCompensated pg_sagas i reason w = (r, w')"
    using that(2) by (intro markTerminal_outcome[OF that(1)]) (simp_all add: pg_sagas_def MarkCompensated_def)
  show "others w w' \<and>
      (\<forall>k g. saga_at w' k = Some g \<and> saga_State g = SagaStatePending \<and> saga_StartedAt g < th \<longrightarrow>
        k \<in> saga_ID ` set ss) \<and>
      (\<forall>g \<in> set ss. saga_at w' (saga_ID g) = Some g \<and> saga_State g = SagaStatePending \<and>
        saga_StartedAt g < th)"
    if "world_ok w" "ss_GetPendingOlderThan pg_sagas th w = (Inr ss, w')"
    using GetPendingOlderThan_found[OF that(1)] that(2) by (simp add: pg_sagas_def)
  show "others w w' \<and> \<not> healthy w"
    if "ss_GetPendingOlderThan pg_sagas th w = (Inl pe, w')"
    using many_rows_failed[of "''get pending sagas''"] that by (simp add: pg_sagas_def GetPendingOlderThan_def)
qed

interpretation pgu: sub_store saga_at sub_at world_ok others quiet healthy pg_subs
proof
  fix w w' :: "'a world" and i u e r k s
  show "world_ok w' \<and> (healthy w \<longrightarrow> healthy w' \<and> \<not> real_error r) \<and>
      outcome others (\<lambda>v. sub_at v i = None) (delete_effect saga_at sub_at quiet i) w r w'"
    if "world_ok w" "us_Delete pg_subs i w = (r, w')"
    using Delete_outcome[OF that(1)] that(2) by (simp add: pg_subs_def)
  show "others w w' \<and> sub_at w' i = Some u"
    if "world_ok w" "us_GetByID pg_subs i w = (Inr u, w')"
    using one_row_found[of "''get by id''" "select_subs (\<lambda>r. sr_id r = i)" w u w'] that
      sub_at_select[OF world_ok_others[OF that(1)], of w' i]
    by (auto simp: pg_subs_def GetByID_def)
  show "others w w' \<and> (errors_Is e DomainErrNotFound \<longrightarrow> sub_at w' i = None) \<and>
      (healthy w \<longrightarrow> errors_Is e DomainErrNotFound)"
    if "world_ok w" "us_GetByID pg_subs i w = (Inl e, w')"
    using one_row_failed[of "''get by id''" "select_subs (\<lambda>r. sr_id r = i)" w e w'] that
      sub_at_select[OF world_ok_others[OF that(1)], of w' i]
    by (auto simp: pg_subs_def GetByID_def)
  show "sub_at w (saga_SubscriptionID s) \<noteq> None" if "world_ok w" "saga_at w k = Some s"
    using that by (rule world_saga_has_sub)
qed

interpretation orch: orchestrator saga_at sub_at world_ok others quiet healthy "wired p r baseURL"
  for p :: "'x Publisher" and r :: "'x Retrier" and baseURL :: string
proof (unfold_locales, unfold wired_simps)
  show "others w w'" if "Retry r i a repo url w = (x, w')" for i a repo url x and w w' :: "'x world"
    using Retry_frame[OF that] by (rule io_only_others)
  show "others w w'" if "SendConfirmationCommand_publish p i a repo url w = (x, w')"
    for i a repo url x and w w' :: "'x world"
    using publish_frame that unfolding SendConfirmationCommand_publish_def
    by (blast intro: io_only_others)
qed (rule pgs.Get_found pgs.Get_failed pgs.MarkCompleted pgs.MarkCompensated pgs.Pending_found
    pgs.Pending_failed pgu.Delete pgu.ByID_found pgu.ByID_failed pgu.saga_has_sub; assumption)+

interpretation swp: sweeper saga_at sub_at world_ok others quiet healthy "wired p r baseURL"
    timeout interval time_Now ctx_Err
  for p :: "'x Publisher" and r :: "'x Retrier" and baseURL :: string and timeout interval :: int
  by unfold_locales
    (auto intro: io_only_others dest: io_only_calls healthy_ctx)

end
