(* ===== verification/SagaTheorems.thy ===== *)
theory SagaTheorems
  imports SagaStore
begin

text \<open>
  The saga on PostgreSQL: what the interpretations of \<open>SagaStore\<close> make of the lemmas of
  \<open>SagaRuns\<close> and \<open>SweeperRuns\<close>, written out over the tables, with concrete runs.
\<close>

section \<open>Concrete runs\<close>

definition demo_repo :: Repository where
  "demo_repo = \<lparr>repo_ID = ''r1'', repo_FullName = ''golang/go'', repo_LastSeenTag = None,
     repo_CreatedAt = 0\<rparr>"

definition demo_row :: "bool \<Rightarrow> sub_row" where
  "demo_row confirmed = \<lparr>sr_id = ''s1'', sr_email = ''a@b.co'', sr_repo_id = ''r1'',
     sr_confirmed = confirmed, sr_confirm_token = ''ct'', sr_unsubscribe_token = ''ut'',
     sr_created_at = 0\<rparr>"

definition demo_saga :: "SagaState \<Rightarrow> int \<Rightarrow> Saga" where
  "demo_saga st t = \<lparr>saga_ID = ''g1'', saga_SubscriptionID = ''s1'', saga_State = st,
     saga_LastError = None, saga_StartedAt = t, saga_CompletedAt = None\<rparr>"

definition demo_tables :: "bool \<Rightarrow> SagaState \<Rightarrow> int \<Rightarrow> tables" where
  "demo_tables confirmed st t =
     \<lparr>t_repositories = [demo_repo], t_subscriptions = [demo_row confirmed], t_sagas = [demo_saga st t]\<rparr>"

lemmas demo_data = demo_tables_def demo_row_def demo_saga_def demo_repo_def

lemma demo_tables_ok [simp]: "saga_state_check st \<Longrightarrow> db_ok (demo_tables c st t)"
  by (simp add: db_ok_def demo_data)

lemma demo_world_ok [simp]: "db_ok d \<Longrightarrow> world_ok (demo_world x d)"
  by (simp add: world_ok_def demo_world_def)

text \<open>A broker that counts the messages it takes and acks all of them, or takes none.\<close>

definition demo_channel :: "bool \<Rightarrow> nat amqp_channel" where
  "demo_channel up =
     \<lparr>ch_Publish = (\<lambda>ex key m im b x. if up then (Inr x, Suc x) else (Inl (Opaque ''closed''), x)),
      ch_Wait = (\<lambda>tag x. (Inr True, x))\<rparr>"

definition demo_publisher :: "bool \<Rightarrow> nat Publisher" where
  "demo_publisher up = \<lparr>pub_ch = (\<lambda>x. Some (demo_channel up))\<rparr>"

definition demo_retrier :: "bool \<Rightarrow> nat Retrier" where
  "demo_retrier up = NewRetrier (\<lambda>t req x. if up then (None, Suc x)
     else (Some (StatusError Unavailable ''down''), x))"

definition demo_oc :: "bool \<Rightarrow> nat world Orchestrator" where
  "demo_oc up = wired (demo_publisher up) (demo_retrier up) ''http://h''"

lemmas demo_simps = demo_oc_def demo_publisher_def demo_channel_def demo_retrier_def NewRetrier_def

text \<open>The concrete world most runs start from: one pending saga of an unconfirmed subscription.\<close>

definition demo_start :: "nat world" where
  "demo_start = demo_world 0 (demo_tables False SagaStatePending 0)"

lemma demo_start_ok [simp]: "world_ok demo_start" "quiet demo_start" "healthy demo_start"
  by (simp_all add: demo_start_def)

lemma demo_start_views:
  "saga_at demo_start ''g1'' = Some (demo_saga SagaStatePending 0)"
  "saga_at demo_start k = (if k = ''g1'' then Some (demo_saga SagaStatePending 0) else None)"
  "sub_at demo_start ''s1'' \<noteq> None"
  by (simp_all add: saga_at_def sub_at_def join_row_def demo_start_def demo_world_def demo_data)

section \<open>The handlers\<close>

text \<open>
  C3 (functional). \<^verbatim>\<open>HandleFailed\<close>, the compensation, when no other session interferes and
  whatever database calls fail or lose their answer. If the saga is pending, then either the
  tables' sagas and subscriptions are unchanged and an error asks for a retry, or the saga's
  subscription is deleted and, with it, exactly the sagas that refer to it. If the saga is not
  pending (unknown, completed, compensated), nothing changes. A nil result means that the
  saga is not pending any more.
\<close>

theorem HandleFailed_compensates:
  fixes w :: "'x world"
  assumes "world_ok w" "quiet w"
    and run: "HandleFailed (wired p r u) i reason w = (e, w')"
  shows "(case saga_at w i of
      Some s \<Rightarrow>
        if saga_State s = SagaStatePending
        then saga_at w' = saga_at w \<and> sub_at w' = sub_at w \<and> e \<noteq> None \<or>
             saga_at w' = cascaded (saga_SubscriptionID s) (saga_at w) \<and>
             sub_at w' = (sub_at w)(saga_SubscriptionID s := None) \<and> saga_at w' i = None
        else saga_at w' = saga_at w \<and> sub_at w' = sub_at w
    | None \<Rightarrow> saga_at w' = saga_at w \<and> sub_at w' = sub_at w) \<and>
    (e = None \<longrightarrow> not_pending (saga_at w') i)"
proof (cases "not_pending (saga_at w) i")
  case True
  then show ?thesis
    using orch.HandleFailed_not_pending[OF assms(1,2) _ run] orch.HandleFailed_nil[OF assms(1,2)] run
    by (auto simp: not_pending_def split: option.splits)
next
  case False
  then obtain s where s: "saga_at w i = Some s" "saga_State s = SagaStatePending"
    by (auto simp: not_pending_def)
  then show ?thesis
    using orch.HandleFailed_pending[OF assms(1,2) s run] orch.HandleFailed_nil[OF assms(1,2)] run
    by (auto simp: cascaded_self)
qed

theorem HandleFailed_compensates_witness:
  "let w' = snd (HandleFailed (demo_oc True) ''g1'' ''bounced'' demo_start)
   in saga_at demo_start ''g1'' \<noteq> None \<and> sub_at demo_start ''s1'' \<noteq> None \<and>
      saga_at w' ''g1'' = None \<and> sub_at w' ''s1'' = None"
proof -
  obtain e w' where run: "HandleFailed (demo_oc True) ''g1'' ''bounced'' demo_start = (e, w')"
    by fastforce
  have e: "e = None"
    using orch.HandleFailed_sure[OF demo_start_ok(1,3)] run by (simp add: demo_oc_def)
  note t = HandleFailed_compensates[OF demo_start_ok(1,2) run[unfolded demo_oc_def]]
  have "saga_at w' ''g1'' = None" "sub_at w' ''s1'' = None"
    using t e demo_start_views(1) by (auto simp: demo_saga_def)
  then show ?thesis using demo_start_views(1,3) run by simp
qed

text \<open>
  C4 (safety). The compensation never records itself: the cascade of the foreign key removes
  the saga's row together with the subscription, so the \<^verbatim>\<open>MarkCompensated\<close> that follows has no
  row to mark. Every saga row after \<^verbatim>\<open>HandleFailed\<close> was there before, word for word: none is
  ever \<^verbatim>\<open>compensated\<close> by it, and its reason is in no \<^verbatim>\<open>last_error\<close>.
\<close>

theorem HandleFailed_records_nothing:
  fixes w :: "'x world"
  assumes "world_ok w" "quiet w"
    and "saga_at (snd (HandleFailed (wired p r u) i reason w)) k = Some s"
  shows "saga_at w k = Some s"
proof -
  obtain e w' where run: "HandleFailed (wired p r u) i reason w = (e, w')" by fastforce
  have s: "saga_at w' k = Some s" using assms(3) run by simp
  show ?thesis
  proof (cases "not_pending (saga_at w) i")
    case True
    then show ?thesis using orch.HandleFailed_not_pending[OF assms(1,2) _ run] s by simp
  next
    case False
    then obtain g where "saga_at w i = Some g" "saga_State g = SagaStatePending"
      by (auto simp: not_pending_def)
    then show ?thesis using orch.HandleFailed_pending[OF assms(1,2) _ _ run] s
      by (auto dest: cascaded_SomeD)
  qed
qed

text \<open>Two sagas, of two subscriptions: the second survives the compensation of the first.\<close>

definition demo_two :: "nat world" where
  "demo_two = demo_world 0 ((demo_tables False SagaStatePending 0)
     \<lparr>t_subscriptions := [demo_row False, (demo_row True)\<lparr>sr_id := ''s2'', sr_confirm_token := ''c2'',
        sr_unsubscribe_token := ''u2''\<rparr>],
      t_sagas := [demo_saga SagaStatePending 0, (demo_saga SagaStatePending 0)
        \<lparr>saga_ID := ''g2'', saga_SubscriptionID := ''s2''\<rparr>]\<rparr>)"

lemma demo_two_ok [simp]: "world_ok demo_two" "quiet demo_two" "healthy demo_two"
  by (simp_all add: demo_two_def db_ok_def demo_data saga_state_check_def SagaState_defs)

theorem HandleFailed_records_nothing_witness:
  "saga_at demo_two ''g2'' \<noteq> None \<and>
   saga_at demo_two ''g2'' = saga_at (snd (HandleFailed (demo_oc True) ''g1'' ''bounced'' demo_two)) ''g2'' \<and>
   saga_at (snd (HandleFailed (demo_oc True) ''g1'' ''bounced'' demo_two)) ''g1'' = None"
proof -
  let ?v = "snd (HandleFailed (demo_oc True) ''g1'' ''bounced'' demo_two)"
  have some: "saga_at ?v ''g2'' = Some (demo_saga SagaStatePending 0
      \<lparr>saga_ID := ''g2'', saga_SubscriptionID := ''s2''\<rparr>)"
    and none: "saga_at ?v ''g1'' = None"
    by code_simp+
  show ?thesis
    using HandleFailed_records_nothing[OF demo_two_ok(1,2) some[unfolded demo_oc_def]] some none
    by simp
qed

text \<open>
  C5 (functional). \<^verbatim>\<open>HandleSent\<close> never touches a subscription. It leaves the sagas alone or
  marks exactly the saga it was called for, and only if that was pending, as \<^verbatim>\<open>completed\<close>
  with no error and a completion time. After a nil result the saga is not pending, so a
  redelivered event finds nothing to do.
\<close>

theorem HandleSent_completes:
  fixes w :: "'x world"
  assumes "world_ok w" "quiet w" "HandleSent (wired p r u) i w = (e, w')"
  shows "sub_at w' = sub_at w \<and>
    (saga_at w' = saga_at w \<or>
     (\<exists>s t. saga_at w i = Some s \<and> saga_State s = SagaStatePending \<and>
        saga_at w' = (saga_at w)(i \<mapsto> s\<lparr>saga_State := SagaStateCompleted, saga_LastError := None,
          saga_CompletedAt := Some t\<rparr>))) \<and>
    (e = None \<longrightarrow> not_pending (saga_at w') i)"
  using orch.HandleSent_alone[OF assms] by (simp add: marked_def)

theorem HandleSent_completes_witness:
  "let w' = snd (HandleSent (demo_oc True) ''g1'' demo_start)
   in not_pending (saga_at w') ''g1'' \<and> sub_at w' = sub_at demo_start \<and>
      saga_at w' ''g1'' = Some (demo_saga SagaStateCompleted 0\<lparr>saga_CompletedAt := Some 0\<rparr>)"
proof -
  obtain w' where run: "HandleSent (demo_oc True) ''g1'' demo_start = (None, w')"
    and at: "saga_at w' ''g1'' = Some (demo_saga SagaStateCompleted 0\<lparr>saga_CompletedAt := Some 0\<rparr>)"
  proof -
    have "fst (HandleSent (demo_oc True) ''g1'' demo_start) = None"
      "saga_at (snd (HandleSent (demo_oc True) ''g1'' demo_start)) ''g1'' =
        Some (demo_saga SagaStateCompleted 0\<lparr>saga_CompletedAt := Some 0\<rparr>)"
      by code_simp+
    then show ?thesis using that by (metis prod.collapse)
  qed
  then show ?thesis
    using HandleSent_completes[OF demo_start_ok(1,2) run[unfolded demo_oc_def]] by simp
qed

text \<open>
  C6 (functional). The sweeper's \<^verbatim>\<open>AttemptSyncRetry\<close> never touches a subscription and changes
  no saga but its own, from pending to \<^verbatim>\<open>completed\<close>. If it reports success on a pending saga,
  then the notifier has accepted, within the retry timeout, exactly the request of this saga:
  its id, the subscriber's address and repository, and the confirmation URL made of the base
  URL and the subscription's own token.
\<close>

theorem AttemptSyncRetry_sends:
  fixes w :: "'x world"
  assumes "world_ok w" "quiet w" "AttemptSyncRetry (wired p r u) i w = (e, w')"
  shows "sub_at w' = sub_at w \<and>
    (saga_at w' = saga_at w \<or> marked SagaStateCompleted None i (saga_at w) (saga_at w')) \<and>
    (e = None \<longrightarrow> not_pending (saga_at w') i) \<and>
    (\<forall>s v. e = None \<and> saga_at w i = Some s \<and> saga_State s = SagaStatePending \<and>
       sub_at w (saga_SubscriptionID s) = Some v \<longrightarrow>
       (\<exists>x x'. rt_client r (rt_timeout r)
          \<lparr>sr_SagaId = i, sr_To = sub_Email v, sr_Repo = sub_Repo v,
           sr_ConfirmUrl = u @ ''/api/confirm/'' @ sub_ConfirmToken v\<rparr> x = (None, x')))"
proof -
  have "\<exists>x x'. rt_client r (rt_timeout r)
      \<lparr>sr_SagaId = i, sr_To = sub_Email v, sr_Repo = sub_Repo v,
       sr_ConfirmUrl = u @ ''/api/confirm/'' @ sub_ConfirmToken v\<rparr> x = (None, x')"
    if h: "e = None" "saga_at w i = Some s" "saga_State s = SagaStatePending"
      "sub_at w (saga_SubscriptionID s) = Some v" for s v
  proof -
    obtain x x' where "Retry r i (sub_Email v) (sub_Repo v)
        (confirm_url u (sub_ConfirmToken v)) (x :: 'x world) = (None, x')"
      using orch.AttemptSyncRetry_accepted[OF assms(1,2) assms(3)[unfolded h(1)] h(2-4)]
      by auto
    then show ?thesis
      by (auto simp: Retry_def call_outside_def confirm_url_def split: option.splits)
        (metis prod.collapse)
  qed
  then show ?thesis using orch.AttemptSyncRetry_alone[OF assms] by blast
qed

theorem AttemptSyncRetry_sends_witness:
  "let w' = snd (AttemptSyncRetry (demo_oc True) ''g1'' demo_start)
   in outside demo_start = 0 \<and> outside w' = Suc 0 \<and> not_pending (saga_at w') ''g1'' \<and>
      sub_at w' = sub_at demo_start"
proof -
  obtain w' where run: "AttemptSyncRetry (demo_oc True) ''g1'' demo_start = (None, w')"
    and out: "outside demo_start = 0" "outside w' = Suc 0"
  proof -
    have "fst (AttemptSyncRetry (demo_oc True) ''g1'' demo_start) = None" "outside demo_start = 0"
      "outside (snd (AttemptSyncRetry (demo_oc True) ''g1'' demo_start)) = Suc 0"
      by code_simp+
    then show ?thesis using that by (metis prod.collapse)
  qed
  then show ?thesis
    using AttemptSyncRetry_sends[OF demo_start_ok(1,2) run[unfolded demo_oc_def]] by simp
qed

section \<open>The sweeper\<close>

text \<open>
  C7 (liveness). When the database answers, no other session interferes and the context is
  not done, one sweep leaves no saga pending that was older than the timeout at its start,
  whatever the notifier answers: each was either completed by the retry or compensated.
\<close>

theorem sweep_clears_stuck:
  fixes w :: "'x world"
  assumes "world_ok w" "quiet w" "healthy w"
    and "saga_at (sweep (NewTimeoutSweeper (wired p r u) timeout interval time_Now ctx_Err) w) k = Some s"
    and "saga_State s = SagaStatePending"
  shows "fst (time_Now w) - timeout \<le> saga_StartedAt s"
  using swp.sweep_alone[OF assms(1,2) refl, of p r u timeout interval] assms by blast

text \<open>
  The sweep of the concrete run: the saga is an hour old, the notifier is down, so the sweep
  compensates; a younger saga stays.
\<close>

definition demo_late :: "nat world" where
  "demo_late = (demo_two\<lparr>clock := (\<lambda>n. Hour), db := (db demo_two)\<lparr>t_sagas := [demo_saga SagaStatePending 0,
      (demo_saga SagaStatePending Hour)\<lparr>saga_ID := ''g2'', saga_SubscriptionID := ''s2''\<rparr>]\<rparr>\<rparr>)"

lemma demo_late_ok [simp]: "world_ok demo_late" "quiet demo_late" "healthy demo_late"
  using demo_two_ok
  by (simp_all add: demo_late_def demo_two_def world_ok_def quiet_def healthy_def db_ok_def demo_data
      demo_world_def saga_state_check_def SagaState_defs)

definition demo_sweeper :: "nat world TimeoutSweeper" where
  "demo_sweeper = NewTimeoutSweeper (demo_oc False) (10 * Minute) (30 * Second) time_Now ctx_Err"

theorem sweep_clears_stuck_witness:
  "saga_at demo_late ''g1'' \<noteq> None \<and> saga_at (sweep demo_sweeper demo_late) ''g1'' = None \<and>
   saga_at (sweep demo_sweeper demo_late) ''g2'' \<noteq> None \<and>
   Hour - 10 * Minute \<le> saga_StartedAt (the (saga_at (sweep demo_sweeper demo_late) ''g2''))"
proof -
  let ?v = "sweep demo_sweeper demo_late"
  have some: "saga_at ?v ''g2'' = Some ((demo_saga SagaStatePending Hour)
      \<lparr>saga_ID := ''g2'', saga_SubscriptionID := ''s2''\<rparr>)"
    and none: "saga_at ?v ''g1'' = None" "saga_at demo_late ''g1'' \<noteq> None"
    and now: "fst (time_Now demo_late) = Hour"
    by code_simp+
  show ?thesis
    using sweep_clears_stuck[OF demo_late_ok some[unfolded demo_sweeper_def demo_oc_def]] some none now
    by (simp add: demo_saga_def)
qed

text \<open>
  C8 (safety). A sweep, whatever fails, deletes no subscription but those of sagas that were
  pending and past the timeout at its start; it creates no saga, makes none pending, and
  rewrites none that has left \<^verbatim>\<open>pending\<close>.
\<close>

theorem sweep_touches_only_stuck:
  fixes w :: "'x world"
  assumes "world_ok w" "quiet w"
    and "sweep (NewTimeoutSweeper (wired p r u) timeout interval time_Now ctx_Err) w = w'"
  shows "fewer (saga_at w) (saga_at w') \<and>
    (\<forall>j. sub_at w' j = sub_at w j \<or> sub_at w' j = None \<and>
       (\<exists>g. saga_at w (saga_ID g) = Some g \<and> saga_State g = SagaStatePending \<and>
          saga_StartedAt g < fst (time_Now w) - timeout \<and> saga_SubscriptionID g = j))"
  using swp.sweep_alone[OF assms] by blast

theorem sweep_touches_only_stuck_witness:
  "sub_at (sweep demo_sweeper demo_late) ''s1'' = None \<and>
   sub_at (sweep demo_sweeper demo_late) ''s2'' = sub_at demo_late ''s2'' \<and>
   fewer (saga_at demo_late) (saga_at (sweep demo_sweeper demo_late))"
proof -
  have "sub_at (sweep demo_sweeper demo_late) ''s1'' = None"
    "sub_at (sweep demo_sweeper demo_late) ''s2'' = sub_at demo_late ''s2''"
    by code_simp+
  then show ?thesis
    using sweep_touches_only_stuck[OF demo_late_ok(1,2)
        refl[of "sweep demo_sweeper demo_late", unfolded demo_sweeper_def demo_oc_def]]
    by (simp add: demo_sweeper_def demo_oc_def)
qed

section \<open>In any company\<close>

text \<open>What a statement finds when the database answers: the tables after the other sessions' turn.\<close>

lemma exec_sql_answers:
  "healthy w \<Longrightarrow> exec_sql stmt w =
     (fst (stmt (db (db_turn w))), (db_turn w)\<lparr>db := snd (stmt (db (db_turn w)))\<rparr>)"
  by (simp add: exec_sql_def healthy_def Let_def)

lemma Get_answers:
  assumes "healthy w" "saga_at (db_turn w) i = Some s"
  shows "SagaRepository_Get i w = (Inr s, db_turn w)"
  using assms(2)
  by (auto simp: exec_sql_answers[OF assms(1)] SagaRepository_Get_def one_row_def query_row_def saga_at_select
      split: list.splits)

lemma Delete_answers:
  assumes "healthy w" "world_ok (db_turn w)" "SubscriptionRepository_Delete i w = (r, v)"
  shows "\<not> real_error r" "sub_at v = (sub_at (db_turn w))(i := None)"
    "saga_at v = cascaded i (saga_at (db_turn w))" "db_calls v = Suc (db_calls w)"
    "db_env v = db_env w" "healthy v"
proof -
  have v: "v = (db_turn w)\<lparr>db := snd (sql_delete_subscription i (db (db_turn w)))\<rparr>" and "\<not> real_error r"
    using assms(3)
    by (auto simp: exec_sql_answers[OF assms(1)] SubscriptionRepository_Delete_def exec_affecting_def sql_delete_subscription_def
        real_error_def split: if_splits)
  then show "\<not> real_error r" "db_calls v = Suc (db_calls w)" "db_env v = db_env w" "healthy v"
    using assms(1) by simp_all
  show "sub_at v = (sub_at (db_turn w))(i := None)" "saga_at v = cascaded i (saga_at (db_turn w))"
    using views_after_delete[OF assms(2), of v i] v by simp_all
qed

lemma MarkCompensated_finds_none:
  assumes "healthy w" "saga_at w i = None" "\<forall>d. db_env w (db_calls w) d = d"
    and "MarkCompensated i reason w = (r, v)"
  shows "r = Some (Sentinel DomainErrNotFound)" "saga_at v = saga_at w" "sub_at v = sub_at w"
proof -
  let ?u = "snd (time_Now w)"
  have u: "healthy ?u" "db (db_turn ?u) = db w"
    using assms(1,3) by (simp_all add: healthy_def time_Now_def db_turn_def)
  have "\<forall>g\<in>set (t_sagas (db w)). saga_ID g \<noteq> i"
    using assms(2) by (auto simp: saga_at_def find_None_iff)
  then have "sql_mark_saga st e t i (db w) = (Inr 0, db w)" for st e t
    by (auto simp: sql_mark_saga_def Let_def list_ex_iff filter_empty_conv upd_where_def map_idI)
  then show "r = Some (Sentinel DomainErrNotFound)" "saga_at v = saga_at w" "sub_at v = sub_at w"
    using assms(4) u(2)
    by (auto simp: exec_sql_answers[OF u(1)] MarkCompensated_def markTerminal_def split_def exec_affecting_def saga_at_def sub_at_def fun_eq_iff)
qed

text \<open>
  C10 (safety). The compensation is not atomic with the completion. On a database that answers,
  whose sessions keep the constraints, let \<^verbatim>\<open>HandleFailed\<close> read the saga as pending (in the tables
  \<open>d0\<close>), and let other sessions complete it before the delete (in \<open>d1\<close>, whatever else they changed):
  the subscription of the completed saga is deleted with the saga all the same, and, if nobody else acts after the delete, \<^verbatim>\<open>HandleFailed\<close> reports success.
\<close>

theorem HandleFailed_races_with_completion:
  fixes w :: "'x world"
  assumes "world_ok w" "healthy w"
    and "d0 = db_env w (db_calls w) (db w)" "d1 = db_env w (db_calls w + 1) d0"
      "\<forall>d. db_env w (db_calls w + 2) d = d"
    and "saga_at (w\<lparr>db := d0\<rparr>) i = Some s" "saga_State s = SagaStatePending"
    and "saga_at (w\<lparr>db := d1\<rparr>) i = Some t" "saga_State t = SagaStateCompleted"
      "saga_SubscriptionID t = saga_SubscriptionID s"
    and run: "HandleFailed (wired p r u) i reason w = (e, w')"
  shows "sub_at (w\<lparr>db := d1\<rparr>) (saga_SubscriptionID s) \<noteq> None \<and>
    sub_at w' (saga_SubscriptionID s) = None \<and> saga_at w' i = None \<and> e = None"
proof -
  let ?j = "saga_SubscriptionID s" and ?w1 = "db_turn w" and ?v = "db_turn (db_turn w)"
  have db: "db ?w1 = d0" "db ?v = d1" using assms(3,4) by (simp_all add: db_turn_def)
  have "others w ?v" by (rule others_trans[OF others_turn others_turn])
  then have ok: "world_ok ?v" "healthy ?w1" using world_ok_others[OF assms(1)] assms(2) by simp_all
  have views: "saga_at ?w1 i = Some s" "saga_at ?v i = Some t" "sub_at ?v = sub_at (w\<lparr>db := d1\<rparr>)"
    using assms(6,8) db by (simp_all add: saga_at_def sub_at_def fun_eq_iff)
  have get: "SagaRepository_Get i w = (Inr s, ?w1)" by (rule Get_answers[OF assms(2) views(1)])
  obtain q w2 where del: "SubscriptionRepository_Delete ?j ?w1 = (q, w2)" by fastforce
  note D = Delete_answers[OF ok(2) ok(1) del]
  have gone: "saga_at w2 i = None" using views(2) assms(10) unfolding D(3) by (rule cascaded_self)
  obtain m w3 where mark: "MarkCompensated i reason w2 = (m, w3)" by fastforce
  have "\<forall>d. db_env w2 (db_calls w2) d = d" using assms(5) D(4,5) by simp
  note M = MarkCompensated_finds_none[OF D(6) gone this mark]
  have "HandleFailed (wired p r u) i reason w = (None, w3)"
    using get del mark M(1) D(1) assms(7) by (simp add: HandleFailed_def pg_sagas_def pg_subs_def)
  then have "e = None" "w' = w3" using run by simp_all
  moreover have "sub_at (w\<lparr>db := d1\<rparr>) ?j \<noteq> None"
    using world_saga_has_sub[OF ok(1) views(2)] views(3) assms(10) by simp
  ultimately show ?thesis using M(2,3) D(2) gone by simp
qed

text \<open>The reply consumer completes the saga between the two statements.\<close>

definition demo_race :: "nat world" where
  "demo_race = demo_start\<lparr>db_env := (\<lambda>n d. if n = 1
     then snd (sql_mark_saga SagaStateCompleted None 0 ''g1'' d) else d)\<rparr>"

theorem HandleFailed_races_with_completion_witness:
  "fst (HandleFailed (demo_oc True) ''g1'' ''x'' demo_race) = None \<and>
   sub_at demo_race ''s1'' \<noteq> None \<and>
   sub_at (snd (HandleFailed (demo_oc True) ''g1'' ''x'' demo_race)) ''s1'' = None"
proof -
  let ?d1 = "snd (sql_mark_saga SagaStateCompleted None 0 ''g1'' (db demo_start))"
  let ?t = "mark_saga SagaStateCompleted None 0 (demo_saga SagaStatePending 0)"
  obtain e w' where run: "HandleFailed (demo_oc True) ''g1'' ''x'' demo_race = (e, w')" by fastforce
  have ok: "world_ok demo_race" "healthy demo_race"
    using demo_start_ok(1,3) keeps_mark by (auto simp: demo_race_def world_ok_def sql_keeps_def healthy_def)
  have c: "db_calls demo_race = 0" "db demo_race = db demo_start"
    by (simp_all add: demo_race_def demo_start_def demo_world_def)
  have env: "db demo_start = db_env demo_race (db_calls demo_race) (db demo_race)"
    "?d1 = db_env demo_race (db_calls demo_race + 1) (db demo_start)"
    "\<forall>d. db_env demo_race (db_calls demo_race + 2) d = d"
    unfolding c by (simp_all add: demo_race_def)
  have s: "saga_at (demo_race\<lparr>db := db demo_start\<rparr>) ''g1'' = Some (demo_saga SagaStatePending 0)"
    using demo_start_views(1) by (simp add: saga_at_def)
  have t: "saga_at (demo_race\<lparr>db := ?d1\<rparr>) ''g1'' = Some ?t"
    using views_after_mark(2)[OF demo_start_ok(1), of SagaStateCompleted "demo_race\<lparr>db := ?d1\<rparr>" None 0 "''g1''"]
      demo_start_views(1) by (simp add: demo_saga_def SagaStatePending_def)
  have parts: "saga_State (demo_saga SagaStatePending 0) = SagaStatePending" "saga_State ?t = SagaStateCompleted"
    "saga_SubscriptionID ?t = saga_SubscriptionID (demo_saga SagaStatePending 0)"
    "saga_SubscriptionID (demo_saga SagaStatePending 0) = ''s1''"
    by (simp_all add: demo_saga_def mark_saga_def)
  have "sub_at demo_race ''s1'' \<noteq> None"
    using demo_start_views(3) c(2) views_cong[of demo_race demo_start] by simp
  then show ?thesis
    using HandleFailed_races_with_completion[OF ok env s parts(1) t parts(2,3) run[unfolded demo_oc_def]] run parts(4)
    by simp
qed

section \<open>Publishing the command\<close>



end
