(* ===== verification/Github.thy ===== *)
theory Github
  imports World Json
begin

text \<open>
  \<^verbatim>\<open>internal/release/adapter/github\<close>: the two REST clients, the detection of rate limits, and
  the Redis-backed caches around them. The HTTP client, Redis and the syntax of timestamps
  are parameters: \<open>gh_Do\<close> sends a request and gives a response or a transport error, \<open>rd_Get\<close>
  and \<open>rd_Set\<close> are the two Redis commands, \<open>tc_parse\<close> and \<open>tc_format\<close> are the text form of
  a \<^verbatim>\<open>time.Time\<close>.
\<close>

section \<open>Requests and responses\<close>

record http_request =
  rq_url :: string
  rq_accept :: string
  rq_user_agent :: string
  rq_authorization :: "string option"

record http_response =
  rs_StatusCode :: nat
  rs_RateLimitRemaining :: string        \<comment> \<open>the header, empty when absent\<close>
  rs_Body :: body

text \<open>\<^verbatim>\<open>http.NewRequestWithContext\<close> fails on a URL that does not parse (\<open>gh_BadURL\<close>).\<close>

record 'x http_client =
  gh_BadURL :: "string \<Rightarrow> goerr option"
  gh_Do :: "http_request \<Rightarrow> 'x \<Rightarrow> (goerr + http_response) \<times> 'x"

definition github_request :: "string \<Rightarrow> string \<Rightarrow> http_request" where
  "github_request token url =
     \<lparr>rq_url = url, rq_accept = ''application/vnd.github.v3+json'',
      rq_user_agent = ''github-notifier/1.0'',
      rq_authorization = (if token \<noteq> [] then Some (''Bearer '' @ token) else None)\<rparr>"

definition doRequest ::
    "'x http_client \<Rightarrow> string \<Rightarrow> string \<Rightarrow> ('x, 'm) proc_scheme \<Rightarrow>
     (goerr + http_response) \<times> ('x, 'm) proc_scheme" where
  "doRequest c token url w =
     (case gh_BadURL c url of
        Some err \<Rightarrow> (Inl (Errorf ''create request'' err), w)
      | None \<Rightarrow> call_outside (gh_Do c (github_request token url)) w)"

definition isRateLimited :: "http_response \<Rightarrow> bool" where
  "isRateLimited resp =
     (if rs_StatusCode resp = 429 then True
      else rs_StatusCode resp = 403 \<and> rs_RateLimitRemaining resp = ''0'')"

definition status_error :: "nat \<Rightarrow> goerr" where
  "status_error code = Opaque (''github api returned status '' @ itoa code)"

section \<open>The repository checker\<close>

text \<open>\<^verbatim>\<open>RepoCheckerClient\<close> and \<^verbatim>\<open>ReleaseFetcherClient\<close> have the same fields.\<close>

record 'x github_client =
  gc_httpClient :: "'x http_client"
  gc_token :: string

definition CheckRepo ::
    "'x github_client \<Rightarrow> string \<Rightarrow> string \<Rightarrow> ('x, 'm) proc_scheme \<Rightarrow>
     goerr option \<times> ('x, 'm) proc_scheme" where
  "CheckRepo c owner repo w =
     (case doRequest (gc_httpClient c) (gc_token c)
             (''https://api.github.com/repos/'' @ owner @ ''/'' @ repo) w of
        (Inl err, w1) \<Rightarrow> (Some err, w1)
      | (Inr resp, w1) \<Rightarrow>
          (if isRateLimited resp
           then (Some (Sentinel GithubErrRateLimit), inc (GithubAPIRequestsTotal ''check_repo'' ''rate_limit'') w1)
           else if rs_StatusCode resp = 200
           then (None, inc (GithubAPIRequestsTotal ''check_repo'' ''ok'') w1)
           else if rs_StatusCode resp = 404
           then (Some (Sentinel GithubErrNotFound), inc (GithubAPIRequestsTotal ''check_repo'' ''not_found'') w1)
           else (Some (status_error (rs_StatusCode resp)),
                 inc (GithubAPIRequestsTotal ''check_repo'' ''error'') w1)))"

section \<open>Releases as JSON\<close>

record time_codec =
  tc_parse :: "string \<Rightarrow> int option"
  tc_format :: "int \<Rightarrow> string"

text \<open>The zero \<^verbatim>\<open>time.Time\<close>: the first of January of the year 1.\<close>

definition zero_time :: int where
  "zero_time = -62135596800 * Second"

fun time_field :: "time_codec \<Rightarrow> string \<Rightarrow> (string \<times> json) list \<Rightarrow> int \<Rightarrow> goerr + int" where
  "time_field tc name [] t = Inr t"
| "time_field tc name ((k, j) # ms) t =
     (if key_eq k name
      then (case j of
              JString s \<Rightarrow>
                (case tc_parse tc s of None \<Rightarrow> Inl json_error | Some t' \<Rightarrow> time_field tc name ms t')
            | JNull \<Rightarrow> time_field tc name ms t
            | _ \<Rightarrow> Inl json_error)
      else time_field tc name ms t)"

definition release_names :: "string list" where
  "release_names = [''tag_name'', ''name'', ''body'', ''html_url'']"

definition marshal_Release :: "time_codec \<Rightarrow> Release \<Rightarrow> json" where
  "marshal_Release tc r =
     JObject (zip (release_names @ [''published_at''])
       (map JString [rel_TagName r, rel_Name r, rel_Body r, rel_HTMLURL r, tc_format tc (rel_PublishedAt r)]))"

definition decode_members :: "time_codec \<Rightarrow> (string \<times> json) list \<Rightarrow> goerr + Release" where
  "decode_members tc ms =
     (case (string_fields release_names ms, time_field tc ''published_at'' ms zero_time) of
        (Inr [t, n, b, h], Inr p) \<Rightarrow>
          Inr \<lparr>rel_TagName = t, rel_Name = n, rel_Body = b, rel_HTMLURL = h, rel_PublishedAt = p\<rparr>
      | _ \<Rightarrow> Inl json_error)"

definition unmarshal_Release :: "time_codec \<Rightarrow> body \<Rightarrow> goerr + Release" where
  "unmarshal_Release tc b =
     (case b of
        Some (JObject ms) \<Rightarrow> decode_members tc ms
      | Some JNull \<Rightarrow> decode_members tc []
      | _ \<Rightarrow> Inl json_error)"

section \<open>The release fetcher\<close>

definition GetLatestRelease ::
    "time_codec \<Rightarrow> 'x github_client \<Rightarrow> string \<Rightarrow> string \<Rightarrow> ('x, 'm) proc_scheme \<Rightarrow>
     (goerr + Release) \<times> ('x, 'm) proc_scheme" where
  "GetLatestRelease tc c owner repo w =
     (case doRequest (gc_httpClient c) (gc_token c)
             (''https://api.github.com/repos/'' @ owner @ ''/'' @ repo @ ''/releases/latest'') w of
        (Inl err, w1) \<Rightarrow> (Inl err, w1)
      | (Inr resp, w1) \<Rightarrow>
          (if isRateLimited resp
           then (Inl (Sentinel GithubErrRateLimit), inc (GithubAPIRequestsTotal ''get_release'' ''rate_limit'') w1)
           else if rs_StatusCode resp = 404
           then (Inl (Sentinel GithubErrNotFound), inc (GithubAPIRequestsTotal ''get_release'' ''not_found'') w1)
           else if rs_StatusCode resp = 200
           then (let w2 = inc (GithubAPIRequestsTotal ''get_release'' ''ok'') w1 in
                 case unmarshal_Release tc (rs_Body resp) of
                   Inl err \<Rightarrow> (Inl (Errorf ''decode release'' err), w2)
                 | Inr release \<Rightarrow> (Inr release, w2))
           else (Inl (status_error (rs_StatusCode resp)),
                 inc (GithubAPIRequestsTotal ''get_release'' ''error'') w1)))"

section \<open>The caches\<close>

text \<open>
  A Redis value: the text of a JSON document, or another text (such as \<^verbatim>\<open>notfound\<close>, which is
  no JSON document).
\<close>

datatype redis_value = RText string | RDoc json

record 'x redis_client =
  rd_Get :: "string \<Rightarrow> 'x \<Rightarrow> (goerr + redis_value) \<times> 'x"
  rd_Set :: "string \<Rightarrow> redis_value \<Rightarrow> int \<Rightarrow> 'x \<Rightarrow> goerr option \<times> 'x"

definition repoCheckCacheTTL :: int where "repoCheckCacheTTL = 10 * Minute"
definition releaseCacheTTL :: int where "releaseCacheTTL = 5 * Minute"

definition repo_key :: "string \<Rightarrow> string \<Rightarrow> string" where
  "repo_key owner repo = ''github:repo:'' @ owner @ ''/'' @ repo"

definition release_key :: "string \<Rightarrow> string \<Rightarrow> string" where
  "release_key owner repo = ''github:release:'' @ owner @ ''/'' @ repo"

text \<open>\<^verbatim>\<open>inner\<close> is the port \<^verbatim>\<open>RepoChecker\<close>. A failed \<^verbatim>\<open>Set\<close> is logged and ignored.\<close>

definition Cached_CheckRepo ::
    "'x redis_client \<Rightarrow>
     (string \<Rightarrow> string \<Rightarrow> ('x, 'm) proc_scheme \<Rightarrow> goerr option \<times> ('x, 'm) proc_scheme) \<Rightarrow>
     string \<Rightarrow> string \<Rightarrow> ('x, 'm) proc_scheme \<Rightarrow> goerr option \<times> ('x, 'm) proc_scheme" where
  "Cached_CheckRepo redis inner owner repo w =
     (let cacheKey = repo_key owner repo in
      case call_outside (rd_Get redis cacheKey) w of
        (Inr cached, w1) \<Rightarrow>
          (if cached = RText ''notfound'' then (Some (Sentinel GithubErrNotFound), w1) else (None, w1))
      | (Inl miss, w1) \<Rightarrow>
          (case inner owner repo w1 of
             (None, w2) \<Rightarrow>
               (None, snd (call_outside (rd_Set redis cacheKey (RText ''exists'') repoCheckCacheTTL) w2))
           | (Some err, w2) \<Rightarrow>
               (if errors_Is err GithubErrNotFound
                then (Some err,
                      snd (call_outside (rd_Set redis cacheKey (RText ''notfound'') repoCheckCacheTTL) w2))
                else (Some err, w2))))"

definition cached_release :: "time_codec \<Rightarrow> redis_value \<Rightarrow> (goerr + Release) option" where
  "cached_release tc v =
     (case v of
        RText s \<Rightarrow> (if s = ''notfound'' then Some (Inl (Sentinel GithubErrNotFound)) else None)
      | RDoc j \<Rightarrow>
          (case unmarshal_Release tc (Some j) of Inl _ \<Rightarrow> None | Inr r \<Rightarrow> Some (Inr r)))"

definition Cached_GetLatestRelease ::
    "time_codec \<Rightarrow> 'x redis_client \<Rightarrow>
     (string \<Rightarrow> string \<Rightarrow> ('x, 'm) proc_scheme \<Rightarrow> (goerr + Release) \<times> ('x, 'm) proc_scheme) \<Rightarrow>
     string \<Rightarrow> string \<Rightarrow> ('x, 'm) proc_scheme \<Rightarrow> (goerr + Release) \<times> ('x, 'm) proc_scheme" where
  "Cached_GetLatestRelease tc redis inner owner repo w =
     (let cacheKey = release_key owner repo;
          (got, w1) = call_outside (rd_Get redis cacheKey) w in
      case (case got of Inl _ \<Rightarrow> None | Inr cached \<Rightarrow> cached_release tc cached) of
        Some answer \<Rightarrow> (answer, w1)
      | None \<Rightarrow>
          (case inner owner repo w1 of
             (Inr release, w2) \<Rightarrow>
               (Inr release,
                snd (call_outside (rd_Set redis cacheKey (RDoc (marshal_Release tc release)) releaseCacheTTL) w2))
           | (Inl err, w2) \<Rightarrow>
               (if errors_Is err GithubErrNotFound
                then (Inl err,
                      snd (call_outside (rd_Set redis cacheKey (RText ''notfound'') releaseCacheTTL) w2))
                else (Inl err, w2))))"

section \<open>Frames\<close>

lemma doRequest_frame: "doRequest c token url w = (r, w') \<Longrightarrow> io_only w w'"
  by (auto simp: doRequest_def split: option.splits dest: io_only_calls(4))

lemma io_only_inc: "io_only w w' \<Longrightarrow> io_only w (inc m w')"
  using io_only_trans io_only_basic(4) by blast

lemma io_only_call: "io_only w w' \<Longrightarrow> io_only w (snd (call_outside f w'))"
  using io_only_trans io_only_basic(5) by blast

lemma CheckRepo_frame:
  assumes "CheckRepo c owner repo w = (r, w')"
  shows "io_only w w'"
proof -
  obtain q w1 where q: "doRequest (gc_httpClient c) (gc_token c)
      (''https://api.github.com/repos/'' @ owner @ ''/'' @ repo) w = (q, w1)"
    by fastforce
  then show ?thesis
    using assms io_only_inc[OF doRequest_frame[OF q]] doRequest_frame[OF q]
    by (auto simp: CheckRepo_def split: sum.splits if_splits)
qed

lemma GetLatestRelease_frame:
  assumes "GetLatestRelease tc c owner repo w = (r, w')"
  shows "io_only w w'"
proof -
  obtain q w1 where q: "doRequest (gc_httpClient c) (gc_token c)
      (''https://api.github.com/repos/'' @ owner @ ''/'' @ repo @ ''/releases/latest'') w = (q, w1)"
    by fastforce
  then show ?thesis
    using assms io_only_inc[OF doRequest_frame[OF q]] doRequest_frame[OF q]
    by (auto simp: GetLatestRelease_def Let_def split: sum.splits if_splits)
qed

lemma Cached_CheckRepo_frame:
  assumes "\<And>v q v'. inner owner repo v = (q, v') \<Longrightarrow> io_only v v'"
    and "Cached_CheckRepo redis inner owner repo w = (r, w')"
  shows "io_only w w'"
proof -
  obtain g w1 where g: "call_outside (rd_Get redis (repo_key owner repo)) w = (g, w1)" by fastforce
  obtain q w2 where q: "inner owner repo w1 = (q, w2)" by fastforce
  have o1: "io_only w w1" using io_only_calls(4)[OF g] .
  note o2 = io_only_trans[OF o1 assms(1)[OF q]]
  show ?thesis
    using assms(2) g q o1 o2 io_only_call[OF o2]
    by (auto simp: Cached_CheckRepo_def Let_def split: sum.splits option.splits if_splits)
qed

lemma Cached_GetLatestRelease_frame:
  assumes "\<And>v q v'. inner owner repo v = (q, v') \<Longrightarrow> io_only v v'"
    and "Cached_GetLatestRelease tc redis inner owner repo w = (r, w')"
  shows "io_only w w'"
proof -
  obtain g w1 where g: "call_outside (rd_Get redis (release_key owner repo)) w = (g, w1)" by fastforce
  obtain q w2 where q: "inner owner repo w1 = (q, w2)" by fastforce
  have o1: "io_only w w1" using io_only_calls(4)[OF g] .
  note o2 = io_only_trans[OF o1 assms(1)[OF q]]
  show ?thesis
    using assms(2) g q o1 o2 io_only_call[OF o2]
    by (auto simp: Cached_GetLatestRelease_def Let_def split: sum.splits option.splits if_splits)
qed

section \<open>Keys and round trips\<close>

lemma split_at_sep:
  "c \<notin> set a \<Longrightarrow> c \<notin> set a' \<Longrightarrow> a @ c # b = a' @ c # b' \<Longrightarrow> a = a' \<and> b = b'"
proof (induction a arbitrary: a')
  case Nil
  then show ?case by (cases a') auto
next
  case (Cons x a)
  then show ?case by (cases a') auto
qed

lemma repo_key_inj:
  "CHR ''/'' \<notin> set o1 \<Longrightarrow> CHR ''/'' \<notin> set o2 \<Longrightarrow> repo_key o1 r1 = repo_key o2 r2 \<Longrightarrow> o1 = o2 \<and> r1 = r2"
  using split_at_sep[of "CHR ''/''" o1 o2 r1 r2] by (simp add: repo_key_def)

lemma unmarshal_marshal_Release:
  assumes "tc_parse tc (tc_format tc (rel_PublishedAt r)) = Some (rel_PublishedAt r)"
  shows "unmarshal_Release tc (Some (marshal_Release tc r)) = Inr r"
  using assms
  by (simp add: unmarshal_Release_def marshal_Release_def decode_members_def release_names_def
      key_eq_def lower_def)

section \<open>The checker behind its cache\<close>

text \<open>
  \<open>repo_cache_ok\<close>: what the store holds under the checker's keys agrees with \<open>exists_on\<close>, the
  repositories there are on GitHub.
\<close>

definition repo_cache_ok ::
    "('x \<Rightarrow> string \<Rightarrow> redis_value option) \<Rightarrow> (string \<Rightarrow> string \<Rightarrow> bool) \<Rightarrow> 'x \<Rightarrow> bool" where
  "repo_cache_ok lookup exists_on x \<longleftrightarrow>
     (\<forall>o1 r1 v. CHR ''/'' \<notin> set o1 \<and> lookup x (repo_key o1 r1) = Some v \<longrightarrow>
        v = RText (if exists_on o1 r1 then ''exists'' else ''notfound''))"

text \<open>\<open>says truth r\<close>: \<open>r\<close>, if it is an answer about existence at all, is the true one.\<close>

definition says :: "bool \<Rightarrow> goerr option \<Rightarrow> bool" where
  "says truth r = (case r of None \<Rightarrow> truth | Some e \<Rightarrow> errors_Is e GithubErrNotFound \<longrightarrow> \<not> truth)"

lemma repo_cache_ok_set:
  assumes "repo_cache_ok lookup exists_on x" "CHR ''/'' \<notin> set owner"
    and "v = RText (if exists_on owner repo then ''exists'' else ''notfound'')"
    and "\<And>k u. lookup x' k = Some u \<Longrightarrow> lookup x k = Some u \<or> k = repo_key owner repo \<and> u = v"
  shows "repo_cache_ok lookup exists_on x'"
  unfolding repo_cache_ok_def
proof (intro allI impI, elim conjE)
  fix o1 r1 u assume a: "CHR ''/'' \<notin> set o1" "lookup x' (repo_key o1 r1) = Some u"
  show "u = RText (if exists_on o1 r1 then ''exists'' else ''notfound'')"
  proof (cases "lookup x (repo_key o1 r1) = Some u")
    case True
    then show ?thesis using assms(1) a(1) by (auto simp: repo_cache_ok_def)
  next
    case False
    then have "repo_key o1 r1 = repo_key owner repo" "u = v" using assms(4)[OF a(2)] by blast+
    then show ?thesis using repo_key_inj[OF a(1) assms(2)] assms(3) by metis
  qed
qed

text \<open>
  C23 (refinement). The checker behind its Redis cache answers as GitHub does. \<open>lookup\<close> is
  what Redis holds: a \<^verbatim>\<open>GET\<close> that answers gives the stored value, entries may expire at any
  time, and a \<^verbatim>\<open>SET\<close> stores at most its own entry, or fails. If the cache agrees with
  the repositories GitHub has and the inner checker's verdicts do, then so do the cached verdicts,
  and the cache keeps agreeing: no transport error, rate limit or server error is ever stored.
\<close>

theorem Cached_CheckRepo_agrees:
  fixes w :: "('x, 'm) proc_scheme"
  assumes "repo_cache_ok lookup exists_on (outside w)" "CHR ''/'' \<notin> set owner"
    and get: "\<And>k x v x'. rd_Get redis k x = (v, x') \<Longrightarrow>
      (\<forall>u. v = Inr u \<longrightarrow> lookup x k = Some u) \<and> (\<forall>j u. lookup x' j = Some u \<longrightarrow> lookup x j = Some u)"
    and set: "\<And>k v ttl x r x' j u. rd_Set redis k v ttl x = (r, x') \<Longrightarrow> lookup x' j = Some u \<Longrightarrow>
      lookup x j = Some u \<or> j = k \<and> u = v"
    and inner: "\<And>(v :: ('x, 'm) proc_scheme) r v'. inner owner repo v = (r, v') \<Longrightarrow> says (exists_on owner repo) r \<and>
      (\<forall>j u. lookup (outside v') j = Some u \<longrightarrow> lookup (outside v) j = Some u)"
    and run: "Cached_CheckRepo redis inner owner repo w = (r, w')"
  shows "says (exists_on owner repo) r \<and> repo_cache_ok lookup exists_on (outside w')"
proof -
  let ?k = "repo_key owner repo"
  obtain g x1 where g: "rd_Get redis ?k (outside w) = (g, x1)" by fastforce
  note G = get[OF g]
  let ?w1 = "w\<lparr>outside := x1\<rparr>"
  obtain q w2 where q: "inner owner repo ?w1 = (q, w2)" by fastforce
  note Q = inner[OF q]
  have ok1: "repo_cache_ok lookup exists_on x1"
    using assms(1) G unfolding repo_cache_ok_def by blast
  have ok2: "repo_cache_ok lookup exists_on (outside w2)"
    using ok1 Q unfolding repo_cache_ok_def by simp
  have stored: "repo_cache_ok lookup exists_on (snd (rd_Set redis ?k v ttl (outside w2)))"
    if v: "v = RText (if exists_on owner repo then ''exists'' else ''notfound'')" for v ttl
  proof (rule repo_cache_ok_set[OF ok2 assms(2) v])
    fix k u
    obtain r' x' where s: "rd_Set redis ?k v ttl (outside w2) = (r', x')" by fastforce
    show "lookup (snd (rd_Set redis ?k v ttl (outside w2))) k = Some u \<Longrightarrow>
        lookup (outside w2) k = Some u \<or> k = ?k \<and> u = v"
      using set[OF s] s by simp
  qed
  show ?thesis
  proof (cases g)
    case (Inr u)
    then have "u = RText (if exists_on owner repo then ''exists'' else ''notfound'')"
      using G assms(1,2) by (auto simp: repo_cache_ok_def)
    then show ?thesis
      using run g Inr ok1
      by (auto simp: Cached_CheckRepo_def call_outside_def Let_def says_def split: if_splits)
  next
    case (Inl e)
    then show ?thesis
      using run g q Q ok2 stored
      by (auto simp: Cached_CheckRepo_def call_outside_def Let_def says_def
          split: if_splits option.splits)
  qed
qed

text \<open>A concrete Redis, the map of its entries, and a GitHub that knows one repository.\<close>

definition map_redis :: "(string \<rightharpoonup> redis_value) redis_client" where
  "map_redis =
     \<lparr>rd_Get = (\<lambda>k x. (case x k of None \<Rightarrow> (Inl (Opaque ''redis: nil''), x) | Some v \<Rightarrow> (Inr v, x))),
      rd_Set = (\<lambda>k v ttl x. (None, x(k \<mapsto> v)))\<rparr>"

definition one_repo_github :: "'x github_client" where
  "one_repo_github =
     \<lparr>gc_httpClient = \<lparr>gh_BadURL = (\<lambda>u. None),
        gh_Do = (\<lambda>rq x. (Inr \<lparr>rs_StatusCode =
            (if rq_url rq = ''https://api.github.com/repos/golang/go'' then 200 else 404),
            rs_RateLimitRemaining = ''59'', rs_Body = None\<rparr>, x))\<rparr>,
      gc_token = []\<rparr>"

definition is_golang :: "string \<Rightarrow> string \<Rightarrow> bool" where
  "is_golang owner repo = (owner @ ''/'' @ repo = ''golang/go'')"

theorem Cached_CheckRepo_agrees_witness:
  "let (r, w') = Cached_CheckRepo map_redis (CheckRepo one_repo_github) ''golang'' ''go'' (demo_proc Map.empty)
   in says (is_golang ''golang'' ''go'') r \<and> repo_cache_ok (\<lambda>x. x) is_golang (outside w') \<and>
      outside w' (repo_key ''golang'' ''go'') = Some (RText ''exists'')"
proof -
  obtain r w' where run: "Cached_CheckRepo map_redis (CheckRepo one_repo_github) ''golang'' ''go''
      (demo_proc Map.empty) = (r, w')"
    by fastforce
  have sees: "CheckRepo one_repo_github ''golang'' ''go'' v =
      (None, inc (GithubAPIRequestsTotal ''check_repo'' ''ok'') v)" for v :: "((string \<rightharpoonup> redis_value), 'm) proc_scheme"
    by (simp add: CheckRepo_def one_repo_github_def doRequest_def call_outside_def github_request_def
        isRateLimited_def)
  have "says (is_golang ''golang'' ''go'') r \<and> repo_cache_ok (\<lambda>x. x) is_golang (outside w')"
    by (rule Cached_CheckRepo_agrees[OF _ _ _ _ _ run])
      (auto simp: repo_cache_ok_def demo_proc_def map_redis_def sees says_def is_golang_def inc_def
        split: option.splits if_splits)
  moreover have "outside w' (repo_key ''golang'' ''go'') = Some (RText ''exists'')"
    using run by (auto simp: Cached_CheckRepo_def call_outside_def Let_def map_redis_def demo_proc_def
        sees inc_def)
  ultimately show ?thesis using run by simp
qed

section \<open>The fetcher behind its cache\<close>

text \<open>
  C24 (roundtrip). On a cache miss the fetcher gives GitHub's own answer. A release is stored
  under its key for five minutes in a form that a later hit decodes to the very same release,
  without a request to GitHub; \<^verbatim>\<open>not found\<close> is stored as such and hit as such; any other
  error is returned and not stored. Timestamps are assumed to survive their own text form.
\<close>

theorem Cached_GetLatestRelease_serves:
  fixes w v :: "('x, 'm) proc_scheme"
  assumes "\<And>t. tc_parse tc (tc_format tc t) = Some t"
    and miss: "rd_Get redis (release_key owner repo) (outside w) = (Inl e, x1)"
    and ask: "inner owner repo (w\<lparr>outside := x1\<rparr>) = (q, w2)"
    and run: "Cached_GetLatestRelease tc redis inner owner repo w = (r, w')"
  shows "r = q \<and>
    (let key = release_key owner repo;
         stored = (case q of Inr rel \<Rightarrow> Some (RDoc (marshal_Release tc rel))
           | Inl err \<Rightarrow> if errors_Is err GithubErrNotFound then Some (RText ''notfound'') else None)
     in (case stored of
           None \<Rightarrow> w' = w2
         | Some val \<Rightarrow> w' = w2\<lparr>outside := snd (rd_Set redis key val (5 * Minute) (outside w2))\<rparr> \<and>
             (\<forall>x3 other. rd_Get redis key (outside v) = (Inr val, x3) \<longrightarrow>
                Cached_GetLatestRelease tc redis other owner repo v =
                  ((case q of Inr rel \<Rightarrow> Inr rel | Inl _ \<Rightarrow> Inl (Sentinel GithubErrNotFound)),
                   v\<lparr>outside := x3\<rparr>))))"
proof (cases q)
  case (Inr rel)
  show ?thesis
    using run[symmetric] miss ask[unfolded Inr]
    by (simp add: Inr Cached_GetLatestRelease_def call_outside_def Let_def cached_release_def
        releaseCacheTTL_def unmarshal_marshal_Release[of tc rel, OF assms(1)])
next
  case (Inl err)
  show ?thesis
    using run miss ask
    by (auto simp: Inl Cached_GetLatestRelease_def call_outside_def Let_def cached_release_def
        releaseCacheTTL_def split: if_splits)
qed

definition demo_release :: Release where
  "demo_release = \<lparr>rel_TagName = ''v1'', rel_Name = ''One'', rel_Body = ''b'', rel_HTMLURL = ''u'',
     rel_PublishedAt = 3\<rparr>"

text \<open>A time codec for the concrete runs: unary, with a sign.\<close>

definition unary_codec :: time_codec where
  "unary_codec =
     \<lparr>tc_parse = (\<lambda>s. case s of [] \<Rightarrow> None
        | c # n \<Rightarrow> Some (if c = CHR ''-'' then - int (length n) else int (length n))),
      tc_format = (\<lambda>t. (if t < 0 then CHR ''-'' else CHR ''+'') # replicate (nat (abs t)) CHR ''i'')\<rparr>"

theorem Cached_GetLatestRelease_serves_witness:
  "let inner = (\<lambda>o1 r1 v. (Inr demo_release, v));
       w' = snd (Cached_GetLatestRelease unary_codec map_redis inner ''golang'' ''go'' (demo_proc Map.empty))
   in Cached_GetLatestRelease unary_codec map_redis (\<lambda>o1 r1 v. (Inl (Opaque ''offline''), v)) ''golang'' ''go'' w'
      = (Inr demo_release, w')"
proof -
  let ?inner = "\<lambda>o1 r1 v. (Inr demo_release, v)"
  obtain r w' where run: "Cached_GetLatestRelease unary_codec map_redis ?inner ''golang'' ''go''
      (demo_proc Map.empty) = (r, w')"
    by fastforce
  have codec: "tc_parse unary_codec (tc_format unary_codec t) = Some t" for t
    by (simp add: unary_codec_def)
  have miss: "rd_Get map_redis (release_key ''golang'' ''go'') (outside (demo_proc Map.empty)) =
      (Inl (Opaque ''redis: nil''), Map.empty)"
    by (simp add: map_redis_def demo_proc_def)
  note served = Cached_GetLatestRelease_serves[OF codec miss refl run, of w']
  then have "outside w' (release_key ''golang'' ''go'') = Some (RDoc (marshal_Release unary_codec demo_release))"
    by (simp add: Let_def map_redis_def)
  then have hit: "rd_Get map_redis (release_key ''golang'' ''go'') (outside w') =
      (Inr (RDoc (marshal_Release unary_codec demo_release)), outside w')"
    by (simp add: map_redis_def)
  have "\<forall>other. Cached_GetLatestRelease unary_codec map_redis other ''golang'' ''go'' w' = (Inr demo_release, w')"
    using conjunct2[OF conjunct2[OF served[unfolded Let_def sum.case option.case]], rule_format, OF hit]
    by simp
  then show ?thesis using run unfolding Let_def by (metis snd_conv)
qed

end
