(* ===== verification/UseCases.thy ===== *)
theory UseCases
  imports SagaTheorems Github
begin

text \<open>
  \<^verbatim>\<open>internal/subscription/app\<close>: the validation of e-mail addresses and repository names, and the
  four use cases, each a record of the ports it is built with. The state is a process
  (\<open>proc_scheme\<close>), because the use cases make UUIDs, read the clock and count. The wiring at
  the end is that of \<^verbatim>\<open>setupServices\<close> in \<^verbatim>\<open>cmd/server/main.go\<close>.
\<close>

section \<open>Validation\<close>

definition isValidEmail :: "string \<Rightarrow> bool" where
  "isValidEmail addr =
     (let parts = strings_Split addr CHR ''@'' in
      if length parts \<noteq> 2 then False
      else (let local_part = parts ! 0; domain = parts ! 1
            in length local_part > 0 \<and> strings_Contains domain CHR ''.'' \<and> length domain > 2))"

text \<open>
  \<^verbatim>\<open>repoRegex\<close> as a term, with its language, and the matcher: both ends are anchored, so the
  string is cut at its slash and each side is one or more characters of the class.
\<close>

datatype regex = Class "char \<Rightarrow> bool" | Seq regex regex | Plus regex

inductive_set plus_lang :: "string set \<Rightarrow> string set" for L :: "string set" where
  plus_one: "s \<in> L \<Longrightarrow> s \<in> plus_lang L"
| plus_more: "s \<in> L \<Longrightarrow> t \<in> plus_lang L \<Longrightarrow> s @ t \<in> plus_lang L"

fun lang :: "regex \<Rightarrow> string set" where
  "lang (Class P) = {[c] | c. P c}"
| "lang (Seq a b) = {s @ t | s t. s \<in> lang a \<and> t \<in> lang b}"
| "lang (Plus a) = plus_lang (lang a)"

definition repo_char :: "char \<Rightarrow> bool" where
  "repo_char c =
     (let n = of_char c :: nat in
      97 \<le> n \<and> n \<le> 122 \<or> 65 \<le> n \<and> n \<le> 90 \<or> 48 \<le> n \<and> n \<le> 57 \<or>
      c = CHR ''_'' \<or> c = CHR ''.'' \<or> c = CHR ''-'')"

definition repoRegex :: regex where
  "repoRegex =
     Seq (Plus (Class repo_char)) (Seq (Class (\<lambda>c. c = CHR ''/'')) (Plus (Class repo_char)))"

definition repoRegex_MatchString :: "string \<Rightarrow> bool" where
  "repoRegex_MatchString s =
     (case strings_Split s CHR ''/'' of
        [owner, repo] \<Rightarrow> owner \<noteq> [] \<and> list_all repo_char owner \<and> repo \<noteq> [] \<and> list_all repo_char repo
      | _ \<Rightarrow> False)"

section \<open>Ports\<close>

record 'w SubscribeUseCase =
  uc_GetOrCreate :: "string \<Rightarrow> 'w \<Rightarrow> (goerr + Repository) \<times> 'w"
  uc_CreateWithSaga :: "Subscription \<Rightarrow> Saga \<Rightarrow> 'w \<Rightarrow> goerr option \<times> 'w"
  uc_ExistsByEmailAndRepoID :: "string \<Rightarrow> string \<Rightarrow> 'w \<Rightarrow> (goerr + bool) \<times> 'w"
  uc_CheckRepo :: "string \<Rightarrow> string \<Rightarrow> 'w \<Rightarrow> goerr option \<times> 'w"
  uc_Publish :: "string \<Rightarrow> Subscription \<Rightarrow> string \<Rightarrow> 'w \<Rightarrow> goerr option \<times> 'w"
  uc_baseURL :: string

record 'w ConfirmUseCase =
  cf_GetByConfirmToken :: "string \<Rightarrow> 'w \<Rightarrow> (goerr + Subscription) \<times> 'w"
  cf_Confirm :: "string \<Rightarrow> 'w \<Rightarrow> goerr option \<times> 'w"

record 'w UnsubscribeUseCase =
  un_GetByUnsubscribeToken :: "string \<Rightarrow> 'w \<Rightarrow> (goerr + Subscription) \<times> 'w"
  un_Delete :: "string \<Rightarrow> 'w \<Rightarrow> goerr option \<times> 'w"

record 'w GetSubscriptionsUseCase =
  gs_GetByEmail :: "string \<Rightarrow> 'w \<Rightarrow> (goerr + Subscription list) \<times> 'w"

section \<open>Use cases\<close>

text \<open>\<^verbatim>\<open>parts[1]\<close> panics when \<^verbatim>\<open>SplitN\<close> gives one part; \<open>repo_parts\<close> shows that it never does.\<close>

definition index_panic :: goerr where
  "index_panic = Opaque ''runtime error: index out of range''"

definition Subscribe ::
    "('x, 'm) proc_scheme SubscribeUseCase \<Rightarrow> string \<Rightarrow> string \<Rightarrow> ('x, 'm) proc_scheme \<Rightarrow>
     goerr option \<times> ('x, 'm) proc_scheme" where
  "Subscribe uc emailAddr repoName w =
     (if \<not> isValidEmail emailAddr then (Some (Sentinel AppErrInvalidEmail), w)
      else if \<not> repoRegex_MatchString repoName then (Some (Sentinel AppErrInvalidRepo), w)
      else
        (case strings_SplitN repoName CHR ''/'' 2 of
           owner # repo # _ \<Rightarrow>
             (case uc_CheckRepo uc owner repo w of
                (Some err, w1) \<Rightarrow>
                  (if errors_Is err GithubErrNotFound then (Some (Sentinel AppErrRepoNotFound), w1)
                   else if errors_Is err GithubErrRateLimit then (Some (Sentinel AppErrRateLimit), w1)
                   else (Some (Errorf ''check github repo'' err), w1))
              | (None, w1) \<Rightarrow>
                  (case uc_GetOrCreate uc repoName w1 of
                     (Inl err, w2) \<Rightarrow> (Some (Errorf ''get or create repository'' err), w2)
                   | (Inr repoRecord, w2) \<Rightarrow>
                       (case uc_ExistsByEmailAndRepoID uc emailAddr (repo_ID repoRecord) w2 of
                          (Inl err, w3) \<Rightarrow> (Some (Errorf ''check subscription exists'' err), w3)
                        | (Inr True, w3) \<Rightarrow> (Some (Sentinel AppErrAlreadyExists), w3)
                        | (Inr False, w3) \<Rightarrow>
                            (let (sub, w4) = NewSubscription emailAddr (repo_ID repoRecord) repoName w3;
                                 (sagaEntity, w5) = NewSaga (sub_ID sub) w4 in
                             case uc_CreateWithSaga uc sub sagaEntity w5 of
                               (Some err, w6) \<Rightarrow>
                                 (if errors_Is err DomainErrAlreadyExists
                                  then (Some (Sentinel AppErrAlreadyExists), w6)
                                  else (Some (Errorf ''create subscription'' err), w6))
                             | (None, w6) \<Rightarrow>
                                 (case uc_Publish uc (saga_ID sagaEntity) sub
                                         (confirm_url (uc_baseURL uc) (sub_ConfirmToken sub)) w6 of
                                    (Some err, w7) \<Rightarrow> (Some (Errorf ''publish subscribe saga'' err), w7)
                                  | (None, w7) \<Rightarrow> (None, inc SubscriptionsCreatedTotal w7))))))
         | _ \<Rightarrow> (Some index_panic, w)))"

definition Confirm_usecase ::
    "('x, 'm) proc_scheme ConfirmUseCase \<Rightarrow> string \<Rightarrow> ('x, 'm) proc_scheme \<Rightarrow>
     goerr option \<times> ('x, 'm) proc_scheme" where
  "Confirm_usecase uc token w =
     (case cf_GetByConfirmToken uc token w of
        (Inl err, w1) \<Rightarrow>
          (if errors_Is err DomainErrNotFound then (Some (Sentinel AppErrNotFound), w1)
           else (Some (Errorf ''get subscription by confirm token'' err), w1))
      | (Inr sub, w1) \<Rightarrow>
          (case cf_Confirm uc (sub_ID sub) w1 of
             (Some err, w2) \<Rightarrow> (Some (Errorf ''confirm subscription'' err), w2)
           | (None, w2) \<Rightarrow> (None, inc SubscriptionsConfirmedTotal w2)))"

definition Unsubscribe_usecase ::
    "('x, 'm) proc_scheme UnsubscribeUseCase \<Rightarrow> string \<Rightarrow> ('x, 'm) proc_scheme \<Rightarrow>
     goerr option \<times> ('x, 'm) proc_scheme" where
  "Unsubscribe_usecase uc token w =
     (case un_GetByUnsubscribeToken uc token w of
        (Inl err, w1) \<Rightarrow>
          (if errors_Is err DomainErrNotFound then (Some (Sentinel AppErrNotFound), w1)
           else (Some (Errorf ''get subscription by unsubscribe token'' err), w1))
      | (Inr sub, w1) \<Rightarrow>
          (case un_Delete uc (sub_ID sub) w1 of
             (Some err, w2) \<Rightarrow> (Some (Errorf ''delete subscription'' err), w2)
           | (None, w2) \<Rightarrow> (None, inc SubscriptionsRemovedTotal w2)))"

text \<open>A nil slice and an empty one are the same list here.\<close>

definition GetSubscriptions_usecase ::
    "'w GetSubscriptionsUseCase \<Rightarrow> string \<Rightarrow> 'w \<Rightarrow> (goerr + Subscription list) \<times> 'w" where
  "GetSubscriptions_usecase uc emailAddr w =
     (if \<not> isValidEmail emailAddr then (Inl (Sentinel AppErrInvalidEmail), w)
      else
        (case gs_GetByEmail uc emailAddr w of
           (Inl err, w1) \<Rightarrow> (Inl (Errorf ''get subscriptions'' err), w1)
         | (Inr subs, w1) \<Rightarrow> (Inr subs, w1)))"

section \<open>Wiring\<close>

text \<open>The checker is cached exactly when there is a Redis client.\<close>

definition wired_checker ::
    "'x redis_client option \<Rightarrow> 'x github_client \<Rightarrow> string \<Rightarrow> string \<Rightarrow> ('x, 'm) proc_scheme \<Rightarrow>
     goerr option \<times> ('x, 'm) proc_scheme" where
  "wired_checker redis gh =
     (case redis of None \<Rightarrow> CheckRepo gh | Some rc \<Rightarrow> Cached_CheckRepo rc (CheckRepo gh))"

lemma wired_checker_frame:
  assumes "wired_checker redis gh a b v = (q, v')"
  shows "io_only v v'"
proof (cases redis)
  case None
  then show ?thesis using assms CheckRepo_frame by (simp add: wired_checker_def)
next
  case (Some rc)
  show ?thesis
    by (rule Cached_CheckRepo_frame[where inner = "CheckRepo gh" and redis = rc])
      (use assms Some CheckRepo_frame in \<open>auto simp: wired_checker_def\<close>)
qed

definition wired_subscribe ::
    "'x Publisher \<Rightarrow> 'x Retrier \<Rightarrow> string \<Rightarrow>
     (string \<Rightarrow> string \<Rightarrow> 'x world \<Rightarrow> goerr option \<times> 'x world) \<Rightarrow> 'x world SubscribeUseCase" where
  "wired_subscribe p r baseURL checker =
     \<lparr>uc_GetOrCreate = GetOrCreate, uc_CreateWithSaga = CreateWithSaga,
      uc_ExistsByEmailAndRepoID = ExistsByEmailAndRepoID, uc_CheckRepo = checker,
      uc_Publish = Publish (wired p r baseURL), uc_baseURL = baseURL\<rparr>"

definition wired_confirm :: "'x world ConfirmUseCase" where
  "wired_confirm = \<lparr>cf_GetByConfirmToken = GetByConfirmToken, cf_Confirm = SubscriptionRepository_Confirm\<rparr>"

definition wired_unsubscribe :: "'x world UnsubscribeUseCase" where
  "wired_unsubscribe =
     \<lparr>un_GetByUnsubscribeToken = GetByUnsubscribeToken, un_Delete = SubscriptionRepository_Delete\<rparr>"

definition wired_list :: "'x world GetSubscriptionsUseCase" where
  "wired_list = \<lparr>gs_GetByEmail = GetByEmail\<rparr>"

lemmas wired_usecases =
  wired_subscribe_def wired_confirm_def wired_unsubscribe_def wired_list_def

section \<open>What the validation accepts\<close>

lemma strings_Split_sep:
  "c \<notin> set a \<Longrightarrow> strings_Split (a @ c # b) c = a # strings_Split b c"
  by (induction a) auto

lemma strings_Split_single: "c \<notin> set a \<Longrightarrow> strings_Split a c = [a]"
  by (induction a) auto

lemma strings_Split_two:
  "strings_Split s c = [a, b] \<longleftrightarrow> s = a @ c # b \<and> c \<notin> set a \<and> c \<notin> set b"
proof
  assume split: "strings_Split s c = [a, b]"
  then have "c \<notin> set a" "c \<notin> set b" using strings_Split_no_sep[of _ s c] by auto
  moreover have "s = a @ c # b" using strings_Join_Split[of s c] split by simp
  ultimately show "s = a @ c # b \<and> c \<notin> set a \<and> c \<notin> set b" by blast
qed (auto simp: strings_Split_sep strings_Split_single)

lemma plus_class: "plus_lang {[c] | c. P c} = {s. s \<noteq> [] \<and> list_all P s}"
proof (intro equalityI subsetI)
  fix s assume "s \<in> plus_lang {[c] | c. P c}"
  then show "s \<in> {s. s \<noteq> [] \<and> list_all P s}" by (induction rule: plus_lang.induct) auto
next
  have "s \<noteq> [] \<Longrightarrow> list_all P s \<Longrightarrow> s \<in> plus_lang {[c] | c. P c}" for s
  proof (induction s)
    case (Cons c s)
    have c: "[c] \<in> {[c] | c. P c}" using Cons.prems by simp
    show ?case
    proof (cases "s = []")
      case True
      then show ?thesis using plus_one[OF c] by simp
    next
      case False
      then show ?thesis using plus_more[OF c] Cons by fastforce
    qed
  qed simp
  then show "\<And>s. s \<in> {s. s \<noteq> [] \<and> list_all P s} \<Longrightarrow> s \<in> plus_lang {[c] | c. P c}" by blast
qed

lemma repo_char_slash: "list_all repo_char s \<Longrightarrow> CHR ''/'' \<notin> set s"
  by (auto simp: list_all_iff repo_char_def)

lemma repoRegex_MatchString_eq:
  "repoRegex_MatchString s \<longleftrightarrow>
   (\<exists>owner repo. s = owner @ CHR ''/'' # repo \<and> owner \<noteq> [] \<and> list_all repo_char owner \<and>
      repo \<noteq> [] \<and> list_all repo_char repo)"
proof
  assume m: "repoRegex_MatchString s"
  then obtain a b where "strings_Split s CHR ''/'' = [a, b]"
    by (auto simp: repoRegex_MatchString_def split: list.splits)
  then show "\<exists>owner repo. s = owner @ CHR ''/'' # repo \<and> owner \<noteq> [] \<and> list_all repo_char owner \<and>
      repo \<noteq> [] \<and> list_all repo_char repo"
    using m strings_Split_two[of s "CHR ''/''" a b] by (auto simp: repoRegex_MatchString_def)
next
  assume "\<exists>owner repo. s = owner @ CHR ''/'' # repo \<and> owner \<noteq> [] \<and> list_all repo_char owner \<and>
      repo \<noteq> [] \<and> list_all repo_char repo"
  then obtain a b where s: "s = a @ CHR ''/'' # b" "a \<noteq> []" "list_all repo_char a" "b \<noteq> []" "list_all repo_char b"
    by blast
  then have "strings_Split s CHR ''/'' = [a, b]"
    using repo_char_slash by (simp add: strings_Split_two)
  then show "repoRegex_MatchString s" using s by (simp add: repoRegex_MatchString_def)
qed

lemma repo_parts:
  assumes "repoRegex_MatchString s"
  obtains owner repo where "strings_SplitN s CHR ''/'' 2 = [owner, repo]" "s = owner @ CHR ''/'' # repo"
    "owner \<noteq> []" "repo \<noteq> []" "CHR ''/'' \<notin> set owner" "CHR ''/'' \<notin> set repo"
  using assms repo_char_slash strings_SplitN_two unfolding repoRegex_MatchString_eq by metis

text \<open>
  C25 (equivalence). The matcher accepts exactly the language of the regular expression
  \<^verbatim>\<open>^[a-zA-Z0-9_.\-]+/[a-zA-Z0-9_.\-]+$\<close>, and for a name it accepts \<^verbatim>\<open>SplitN(name, "/", 2)\<close> has
  exactly the two parts that are indexed, both non-empty and without a slash, so the indexing
  does not panic and the parts make up the name.
\<close>

theorem repoRegex_accepts:
  "(repoRegex_MatchString s \<longleftrightarrow> s \<in> lang repoRegex) \<and>
   (repoRegex_MatchString s \<longrightarrow> (\<exists>owner repo. strings_SplitN s CHR ''/'' 2 = [owner, repo] \<and>
      s = owner @ ''/'' @ repo \<and> owner \<noteq> [] \<and> repo \<noteq> [] \<and>
      CHR ''/'' \<notin> set owner \<and> CHR ''/'' \<notin> set repo))"
proof
  have "lang repoRegex = {s @ t | s t. s \<in> {s. s \<noteq> [] \<and> list_all repo_char s} \<and>
      t \<in> {s @ t | s t. s \<in> {[CHR ''/'']} \<and> t \<in> {s. s \<noteq> [] \<and> list_all repo_char s}}}"
    by (simp add: repoRegex_def plus_class)
  then show "repoRegex_MatchString s \<longleftrightarrow> s \<in> lang repoRegex"
    unfolding repoRegex_MatchString_eq by fastforce
  show "repoRegex_MatchString s \<longrightarrow> (\<exists>owner repo. strings_SplitN s CHR ''/'' 2 = [owner, repo] \<and>
      s = owner @ ''/'' @ repo \<and> owner \<noteq> [] \<and> repo \<noteq> [] \<and>
      CHR ''/'' \<notin> set owner \<and> CHR ''/'' \<notin> set repo)"
    by (metis append_Cons append_Nil repo_parts)
qed

theorem repoRegex_accepts_witness:
  "repoRegex_MatchString ''golang/go'' \<and> strings_SplitN ''golang/go'' CHR ''/'' 2 = [''golang'', ''go''] \<and>
   \<not> repoRegex_MatchString ''golang'' \<and> \<not> repoRegex_MatchString ''a/b/c'' \<and> repoRegex_MatchString ''../..''"
proof -
  have "repoRegex_MatchString ''golang/go''" "\<not> repoRegex_MatchString ''golang''"
    "\<not> repoRegex_MatchString ''a/b/c''" "repoRegex_MatchString ''../..''"
    "strings_SplitN ''golang/go'' CHR ''/'' 2 = [''golang'', ''go'']"
    by code_simp+
  then show ?thesis using repoRegex_accepts[of "''golang/go''"] by blast
qed

text \<open>
  An address is accepted exactly when it is a non-empty local part, one at
  sign, and a domain of at least three bytes that contains a dot.
\<close>

lemma isValidEmail_accepts:
  "isValidEmail addr \<longleftrightarrow>
   (\<exists>l d. addr = l @ ''@'' @ d \<and> CHR ''@'' \<notin> set l \<and> CHR ''@'' \<notin> set d \<and> l \<noteq> [] \<and>
      CHR ''.'' \<in> set d \<and> 3 \<le> length d)"
proof -
  have two: "length (strings_Split addr CHR ''@'') = 2 \<longleftrightarrow>
      (\<exists>l d. strings_Split addr CHR ''@'' = [l, d])"
    by (auto simp: numeral_2_eq_2 length_Suc_conv)
  have "isValidEmail addr \<longleftrightarrow> (\<exists>l d. strings_Split addr CHR ''@'' = [l, d] \<and> l \<noteq> [] \<and>
      CHR ''.'' \<in> set d \<and> 3 \<le> length d)"
    using two by (auto simp: isValidEmail_def Let_def strings_Contains_def)
  also have "\<dots> \<longleftrightarrow> (\<exists>l d. addr = l @ ''@'' @ d \<and> CHR ''@'' \<notin> set l \<and> CHR ''@'' \<notin> set d \<and>
      l \<noteq> [] \<and> CHR ''.'' \<in> set d \<and> 3 \<le> length d)"
    by (simp add: strings_Split_two)
  finally show ?thesis .
qed



section \<open>The paths of \<open>Subscribe\<close>\<close>

text \<open>What follows the checks: the pair is stored and its saga published.\<close>

definition Subscribe_store ::
    "('x, 'm) proc_scheme SubscribeUseCase \<Rightarrow> string \<Rightarrow> Repository \<Rightarrow> string \<Rightarrow> ('x, 'm) proc_scheme \<Rightarrow>
     goerr option \<times> ('x, 'm) proc_scheme" where
  "Subscribe_store uc email q repoName w3 =
     (let (sub, w4) = NewSubscription email (repo_ID q) repoName w3;
          (s, w5) = NewSaga (sub_ID sub) w4 in
      case uc_CreateWithSaga uc sub s w5 of
        (Some err, w6) \<Rightarrow>
          (if errors_Is err DomainErrAlreadyExists then (Some (Sentinel AppErrAlreadyExists), w6)
           else (Some (Errorf ''create subscription'' err), w6))
      | (None, w6) \<Rightarrow>
          (case uc_Publish uc (saga_ID s) sub (confirm_url (uc_baseURL uc) (sub_ConfirmToken sub)) w6 of
             (Some err, w7) \<Rightarrow> (Some (Errorf ''publish subscribe saga'' err), w7)
           | (None, w7) \<Rightarrow> (None, inc SubscriptionsCreatedTotal w7)))"

text \<open>
  The use case by its exits: how far it came, through which answers of its ports, and what it
  returned there. Every proof about a whole subscription is a case analysis by these two rules.
\<close>

lemma Subscribe_path:
  assumes "Subscribe uc email repoName w = (res, w')"
  obtains (refused) "res \<noteq> None" "w' = w"
  | (asked) a b ck where "res \<noteq> None" "uc_CheckRepo uc a b w = (ck, w')"
  | (creating) a b w1 gr where "res \<noteq> None" "uc_CheckRepo uc a b w = (None, w1)"
      "uc_GetOrCreate uc repoName w1 = (gr, w')"
  | (looking) a b w1 q w2 ex where "res \<noteq> None" "uc_CheckRepo uc a b w = (None, w1)"
      "uc_GetOrCreate uc repoName w1 = (Inr q, w2)"
      "uc_ExistsByEmailAndRepoID uc email (repo_ID q) w2 = (ex, w')"
  | (storing) a b w1 q w2 w3 where "isValidEmail email" "repoRegex_MatchString repoName"
      "uc_CheckRepo uc a b w = (None, w1)" "uc_GetOrCreate uc repoName w1 = (Inr q, w2)"
      "uc_ExistsByEmailAndRepoID uc email (repo_ID q) w2 = (Inr False, w3)"
      "Subscribe_store uc email q repoName w3 = (res, w')"
proof (cases "isValidEmail email \<and> repoRegex_MatchString repoName")
  case False
  then show ?thesis using assms refused by (auto simp: Subscribe_def split: if_splits)
next
  case True
  then obtain a b where parts: "strings_SplitN repoName CHR ''/'' 2 = [a, b]" by (metis repo_parts)
  obtain ck w1 where ck: "uc_CheckRepo uc a b w = (ck, w1)" by fastforce
  obtain gr w2 where gr: "uc_GetOrCreate uc repoName w1 = (gr, w2)" by fastforce
  note run = assms[unfolded Subscribe_def parts, simplified, folded Subscribe_store_def]
  note step = True parts ck gr
  show ?thesis
  proof (cases "ck = None \<and> (\<exists>q. gr = Inr q)")
    case False
    then show ?thesis
      using assms step asked[of a b] creating[of a b] by (auto simp: Subscribe_def split: if_splits option.splits sum.splits)
  next
    case True2: True
    then obtain q where q: "ck = None" "gr = Inr q" by blast
    obtain ex w3 where ex: "uc_ExistsByEmailAndRepoID uc email (repo_ID q) w2 = (ex, w3)" by fastforce
    show ?thesis
      using assms step q ex looking[of a b] storing[of a b]
      by (auto simp: Subscribe_def Subscribe_store_def split: sum.splits bool.splits)
  qed
qed

lemma Subscribe_store_path:
  assumes "Subscribe_store uc email q repoName w = (res, w')"
  obtains (failed) sub w1 s w2 err where "res \<noteq> None"
      "NewSubscription email (repo_ID q) repoName w = (sub, w1)" "NewSaga (sub_ID sub) w1 = (s, w2)"
      "uc_CreateWithSaga uc sub s w2 = (Some err, w')"
  | (stored) sub w1 s w2 w3 e w4 where
      "NewSubscription email (repo_ID q) repoName w = (sub, w1)" "NewSaga (sub_ID sub) w1 = (s, w2)"
      "uc_CreateWithSaga uc sub s w2 = (None, w3)"
      "uc_Publish uc (saga_ID s) sub (confirm_url (uc_baseURL uc) (sub_ConfirmToken sub)) w3 = (e, w4)"
      "res = None \<longleftrightarrow> e = None" "w' = (if e = None then inc SubscriptionsCreatedTotal w4 else w4)"
  using assms by (auto simp: Subscribe_store_def Let_def split: prod.splits option.splits if_splits)

end
