(* ===== verification/SubscribeRuns.thy ===== *)
theory SubscribeRuns
  imports UseCases
begin

text \<open>
  The \<^verbatim>\<open>Subscribe\<close> use case on PostgreSQL: the transaction of \<^verbatim>\<open>CreateWithSaga\<close>, and what a
  whole subscription leaves in the tables on every path.
\<close>

section \<open>The transaction\<close>

definition with_pair :: "tables \<Rightarrow> Subscription \<Rightarrow> Saga \<Rightarrow> tables" where
  "with_pair d sub s =
     d\<lparr>t_subscriptions := t_subscriptions d @ [row_of_sub sub],
       t_sagas := t_sagas d @ [s\<lparr>saga_LastError := None, saga_CompletedAt := None\<rparr>]\<rparr>"

definition pair_fits :: "tables \<Rightarrow> Subscription \<Rightarrow> Saga \<Rightarrow> bool" where
  "pair_fits d sub s \<longleftrightarrow>
     sub_ID sub \<notin> sr_id ` set (t_subscriptions d) \<and>
     sub_ConfirmToken sub \<notin> sr_confirm_token ` set (t_subscriptions d) \<and>
     sub_UnsubscribeToken sub \<notin> sr_unsubscribe_token ` set (t_subscriptions d) \<and>
     sub_RepoID sub \<in> repo_ID ` set (t_repositories d) \<and>
     saga_ID s \<notin> saga_ID ` set (t_sagas d) \<and> saga_state_check (saga_State s) \<and>
     (saga_SubscriptionID s = sub_ID sub \<or> saga_SubscriptionID s \<in> sr_id ` set (t_subscriptions d))"

lemma both_inserts:
  assumes "sql_insert_subscription (row_of_sub sub) d = (Inr (), d1)"
    and "sql_insert_saga s d1 = (Inr (), d2)"
  shows "pair_fits d sub s \<and> d2 = with_pair d sub s"
  using assms
  by (auto simp: sql_insert_subscription_def sql_insert_saga_def row_of_sub_def pair_fits_def
      with_pair_def split: if_splits)

lemma insert_fails_same:
  "sql_insert_subscription r d = (Inl e, d1) \<Longrightarrow> d1 = d"
  "sql_insert_saga s d = (Inl e, d1) \<Longrightarrow> d1 = d"
  by (auto simp: sql_insert_subscription_def sql_insert_saga_def split: if_splits)

text \<open>\<open>touched w v\<close>: as \<open>w\<close> but for the number of statements and, perhaps, the tables.\<close>

definition touched :: "'x world \<Rightarrow> 'x world \<Rightarrow> bool" where
  "touched w v \<longleftrightarrow> v = w\<lparr>db := db v, db_calls := db_calls v\<rparr>"

lemma touchedI: "touched w (w\<lparr>db := d, db_calls := n\<rparr>)"
  by (simp add: touched_def)

lemma touched_frame:
  assumes "touched w v"
  shows "clock v = clock w" "clock_reads v = clock_reads w" "uuids v = uuids w"
    "uuid_reads v = uuid_reads w" "ctx_done v = ctx_done w" "metrics v = metrics w"
    "outside v = outside w" "db_env v = db_env w" "db_oracle v = db_oracle w"
proof -
  let ?v = "w\<lparr>db := db v, db_calls := db_calls v\<rparr>"
  have "v = ?v" using assms by (simp add: touched_def)
  moreover have "clock ?v = clock w" "clock_reads ?v = clock_reads w" "uuids ?v = uuids w"
    "uuid_reads ?v = uuid_reads w" "ctx_done ?v = ctx_done w" "metrics ?v = metrics w"
    "outside ?v = outside w" "db_env ?v = db_env w" "db_oracle ?v = db_oracle w"
    by simp_all
  ultimately show "clock v = clock w" "clock_reads v = clock_reads w" "uuids v = uuids w"
    "uuid_reads v = uuid_reads w" "ctx_done v = ctx_done w" "metrics v = metrics w"
    "outside v = outside w" "db_env v = db_env w" "db_oracle v = db_oracle w"
    by simp_all
qed

lemma fits_inserts:
  assumes "pair_fits d sub s"
  shows "sql_insert_subscription (row_of_sub sub) d =
      (Inr (), d\<lparr>t_subscriptions := t_subscriptions d @ [row_of_sub sub]\<rparr>)"
    and "sql_insert_saga s (d\<lparr>t_subscriptions := t_subscriptions d @ [row_of_sub sub]\<rparr>) =
      (Inr (), with_pair d sub s)"
  using assms
  by (auto simp: sql_insert_subscription_def sql_insert_saga_def row_of_sub_def pair_fits_def with_pair_def)

text \<open>The transaction, as one case distinction: nothing, or both rows at once.\<close>

lemma CreateWithSaga_run:
  fixes w :: "'x world"
  defines "d \<equiv> db (db_turn w)"
  assumes run: "CreateWithSaga sub s w = (r, w')"
    and i1: "sql_insert_subscription (row_of_sub sub) d = (r1, d1)"
    and i2: "sql_insert_saga s d1 = (r2, d2)"
  obtains (stopped) "touched w w'" "db w' = d" "r \<noteq> None" "healthy w \<Longrightarrow> r1 \<noteq> Inr () \<or> r2 \<noteq> Inr ()"
  | (committed) "touched w w'" "db w' = d2" "r1 = Inr ()" "r2 = Inr ()" "healthy w \<Longrightarrow> r = None"
proof -
  note defs = CreateWithSaga_def db_Begin_def insertSubscriptionRow_def insertSagaRow_def tx_exec_def
    tx_Commit_def Let_def db_turn_def touched_def
  let ?o = "\<lambda>k. db_oracle w (k + db_calls w)"
  have sick: "\<not> healthy w" if "db_oracle w n \<noteq> DbOk" for n using that by (auto simp: healthy_def)
  consider (start) "?o 0 \<noteq> DbOk" | (one) "?o 0 = DbOk" "?o 1 \<noteq> DbOk \<or> r1 \<noteq> Inr ()"
    | (two) "?o 0 = DbOk" "?o 1 = DbOk" "r1 = Inr ()" "?o 2 \<noteq> DbOk \<or> r2 \<noteq> Inr ()"
    | (commit) "?o 0 = DbOk" "?o 1 = DbOk" "r1 = Inr ()" "?o 2 = DbOk" "r2 = Inr ()"
    by blast
  then show ?thesis
  proof cases
    case start
    show ?thesis
      by (rule stopped) (use start run d_def sick[of "db_calls w"] in \<open>auto simp: defs split: db_outcome.splits\<close>)
  next
    case one
    show ?thesis
      by (rule stopped) (use run one i1 d_def sick[of "1 + db_calls w"] in \<open>auto simp: defs split: db_outcome.splits sum.splits if_splits\<close>)
  next
    case two
    show ?thesis
      by (rule stopped) (use run two i1 i2 d_def sick[of "2 + db_calls w"] in \<open>auto simp: defs split: db_outcome.splits sum.splits if_splits\<close>)
  next
    case commit
    have "(touched w w' \<and> db w' = d2 \<and> (healthy w \<longrightarrow> r = None)) \<or>
        (touched w w' \<and> db w' = d \<and> r \<noteq> None \<and> \<not> healthy w)"
      using run commit i1 i2 d_def sick[of "3 + db_calls w"]
      by (cases "?o 3") (auto simp: defs eval_nat_numeral)
    then show ?thesis using stopped committed commit by blast
  qed
qed

lemma CreateWithSaga_cases:
  assumes "CreateWithSaga sub s w = (r, w')"
  obtains (unchanged) "touched w w'" "db w' = db (db_turn w)" "r \<noteq> None"
      "healthy w \<Longrightarrow> \<not> pair_fits (db (db_turn w)) sub s"
  | (both) "touched w w'" "pair_fits (db (db_turn w)) sub s"
      "db w' = with_pair (db (db_turn w)) sub s" "healthy w \<Longrightarrow> r = None"
proof -
  obtain r1 d1 where i1: "sql_insert_subscription (row_of_sub sub) (db (db_turn w)) = (r1, d1)" by fastforce
  obtain r2 d2 where i2: "sql_insert_saga s d1 = (r2, d2)" by fastforce
  show ?thesis
    using assms i1 i2
  proof (cases rule: CreateWithSaga_run)
    case stopped
    then show ?thesis
      by (intro unchanged) (use fits_inserts[of "db (db_turn w)" sub s] i1 i2 in auto)
  next
    case committed
    then show ?thesis using both both_inserts[of sub "db (db_turn w)" d1 s d2] i1 i2 by simp
  qed
qed

section \<open>The views after the transaction\<close>

lemma with_pair_ok:
  assumes "db_ok d" "pair_fits d sub s"
  shows "db_ok (with_pair d sub s)"
  using keeps_insert_subscription keeps_insert_saga fits_inserts[OF assms(2)] assms(1)
  unfolding sql_keeps_def by (metis snd_conv)

lemma pair_fits_fresh:
  assumes "pair_fits (db v) sub s"
  shows "sub_at v (sub_ID sub) = None" "saga_at v (saga_ID s) = None"
proof -
  have "sub_ID sub \<notin> sr_id ` set (t_subscriptions (db v))" "saga_ID s \<notin> saga_ID ` set (t_sagas (db v))"
    using assms by (simp_all add: pair_fits_def)
  note this[THEN find_None_image]
  then show "sub_at v (sub_ID sub) = None" "saga_at v (saga_ID s) = None"
    by (simp_all add: sub_at_def saga_at_def)
qed

lemma saga_at_with_pair:
  assumes "pair_fits (db v) sub s" "db w = with_pair (db v) sub s"
  shows "saga_at w = (saga_at v)(saga_ID s \<mapsto> s\<lparr>saga_LastError := None, saga_CompletedAt := None\<rparr>)"
proof
  fix k
  have "find (\<lambda>x. saga_ID x = saga_ID s) (t_sagas (db v)) = None"
    by (rule find_None_image) (use assms(1) in \<open>simp add: pair_fits_def\<close>)
  then show "saga_at w k =
      ((saga_at v)(saga_ID s \<mapsto> s\<lparr>saga_LastError := None, saga_CompletedAt := None\<rparr>)) k"
    by (simp add: saga_at_def assms(2) with_pair_def find_append split: option.splits)
qed

lemma sub_at_with_pair:
  assumes "pair_fits (db v) sub s" "db w = with_pair (db v) sub s"
  shows "sub_at w = (sub_at v)(sub_ID sub := join_row (db v) (row_of_sub sub))"
proof
  fix k
  have "find (\<lambda>x. sr_id x = sub_ID sub) (t_subscriptions (db v)) = None"
    by (rule find_None_image) (use assms(1) in \<open>simp add: pair_fits_def\<close>)
  moreover have "join_row (db w) = join_row (db v)"
    by (simp add: assms(2) with_pair_def join_row_def fun_eq_iff)
  ultimately show "sub_at w k = ((sub_at v)(sub_ID sub := join_row (db v) (row_of_sub sub))) k"
    by (simp add: sub_at_def assms(2) with_pair_def find_append row_of_sub_def split: option.splits)
qed

section \<open>Steps that leave subscriptions and sagas alone\<close>

definition calm :: "'x world \<Rightarrow> 'x world \<Rightarrow> bool" where
  "calm w v \<longleftrightarrow> world_ok v \<and> quiet v \<and> (healthy w \<longrightarrow> healthy v) \<and>
     t_subscriptions (db v) = t_subscriptions (db w) \<and> t_sagas (db v) = t_sagas (db w) \<and>
     sub_at v = sub_at w \<and> saga_at v = saga_at w"

lemma calm_trans: "calm w v \<Longrightarrow> calm v u \<Longrightarrow> calm w u"
  by (simp add: calm_def)

lemma calm_others: "world_ok w \<Longrightarrow> quiet w \<Longrightarrow> others w v \<Longrightarrow> calm w v"
  using quiet_others[of w v] views_cong[of v w] healthy_others[of w v] world_ok_others[of w v]
  by (auto simp: calm_def)

lemma calmD: "calm w v \<Longrightarrow> world_ok v \<and> quiet v"
  by (simp add: calm_def)

lemma touched_calm:
  assumes "world_ok w" "quiet w" "touched w v" "db v = db w"
  shows "calm w v"
  using assms touched_frame[OF assms(3)] views_cong[OF assms(4)]
  by (simp add: calm_def world_ok_def quiet_def healthy_def)

lemma exec_sql_touched: "exec_sql stmt w = (r, v) \<Longrightarrow> touched w v"
  by (auto simp: exec_sql_def Let_def touched_def db_turn_def split: db_outcome.splits)

lemma exec_sql_same:
  assumes "quiet w" "snd (stmt (db w)) = db w" "exec_sql stmt w = (r, v)"
  shows "db v = db w \<and> (r = fst (stmt (db w)) \<or> \<not> healthy w \<and> (\<exists>e. r = Inl e))"
proof -
  have "db_oracle w (db_calls w) \<noteq> DbOk \<Longrightarrow> \<not> healthy w" by (auto simp: healthy_def)
  then show ?thesis using assms by (auto simp: exec_sql_def Let_def split: db_outcome.splits)
qed

lemma one_row_calm:
  assumes "world_ok w" "quiet w" "one_row what sel w = (r, v)"
  shows "calm w v"
  using calm_others[OF assms(1,2)] one_row_found one_row_failed assms(3) by (metis sum.exhaust)

lemma many_rows_calm:
  assumes "world_ok w" "quiet w" "many_rows what sel w = (r, v)"
  shows "calm w v"
  using calm_others[OF assms(1,2)] many_rows_found many_rows_failed assms(3) by (metis sum.exhaust)

lemma GetOrCreate_calm:
  assumes "world_ok w" "quiet w" "GetOrCreate n w = (r, v)"
  shows "calm w v"
    and "r = Inr q \<Longrightarrow> q \<in> set (t_repositories (db v)) \<and> repo_FullName q = n"
proof -
  obtain i w1 where u: "uuid_New w = (i, w1)" by fastforce
  obtain t w2 where c: "time_Now w1 = (t, w2)" by fastforce
  have o: "others w w2" using io_only_others[OF io_only_trans] io_only_calls u c by blast
  note c2 = calm_others[OF assms(1,2) o]
  have ok2: "world_ok w2" "quiet w2" "db_ok (db w2)" using c2 by (auto simp: calm_def world_ok_def)
  obtain e where e: "exec_sql (sql_get_or_create i n t) w2 = (e, v)"
    and r: "r = (case e of Inl err \<Rightarrow> Inl (Errorf ''get or create repository'' err) | Inr q \<Rightarrow> Inr q)"
    using assms(3) u c by (auto simp: GetOrCreate_def split: prod.splits sum.splits)
  note tf = touched_frame[OF exec_sql_touched[OF e]]
  let ?d = "snd (sql_get_or_create i n t (db w2))"
  have dv: "db v = db w2 \<or> db v = ?d"
    using e ok2(2) by (auto simp: exec_sql_def Let_def split: db_outcome.splits)
  have d: "?d = db w2 \<or> (\<exists>p. ?d = (db w2)\<lparr>t_repositories := t_repositories (db w2) @ [p]\<rparr>)"
    by (auto simp: sql_get_or_create_def Let_def split: option.splits)
  have vs: "saga_at v = saga_at w2" "sub_at v = sub_at w2" "t_subscriptions (db v) = t_subscriptions (db w2)"
    "t_sagas (db v) = t_sagas (db w2)"
    using dv d views_after_repo[OF ok2(1), of v i n t] views_cong[of v w2] by auto
  have "world_ok v" by (rule exec_sql_ok[OF keeps_get_or_create ok2(1) e])
  moreover have "quiet v" "healthy w2 \<longrightarrow> healthy v"
    using ok2(2) tf by (simp_all add: quiet_def healthy_def)
  ultimately have "calm w2 v" using vs by (simp add: calm_def)
  then show "calm w v" by (rule calm_trans[OF c2])
  assume q: "r = Inr q"
  then have "e = Inr q" using r by (auto split: sum.splits)
  then have "fst (sql_get_or_create i n t (db w2)) = Inr q" "db v = ?d"
    using e ok2(2) by (auto simp: exec_sql_def Let_def split: db_outcome.splits)
  then show "q \<in> set (t_repositories (db v)) \<and> repo_FullName q = n"
    by (auto simp: sql_get_or_create_def Let_def split: option.splits if_splits dest: find_SomeD)
qed

lemma Exists_calm:
  assumes "world_ok w" "quiet w" "ExistsByEmailAndRepoID a b w = (r, v)"
  shows "calm w v \<and> db v = db w \<and>
    (\<forall>x. r = Inr x \<longrightarrow> x = (\<exists>y \<in> set (t_subscriptions (db w)). sr_email y = a \<and> sr_repo_id y = b)) \<and>
    (healthy w \<longrightarrow> (\<exists>x. r = Inr x))"
proof -
  obtain e where e: "exec_sql (sql_exists a b) w = (e, v)"
    and r: "r = (case e of Inl err \<Rightarrow> Inl (Errorf ''check exists'' err) | Inr q \<Rightarrow> Inr q)"
    using assms(3) by (auto simp: ExistsByEmailAndRepoID_def split: prod.splits sum.splits)
  have s: "db v = db w \<and> (e = fst (sql_exists a b (db w)) \<or> \<not> healthy w \<and> (\<exists>m. e = Inl m))"
    by (rule exec_sql_same[OF assms(2) _ e]) (simp add: sql_exists_def)
  then show ?thesis
    using touched_calm[OF assms(1,2) exec_sql_touched[OF e]] r
    by (auto simp: sql_exists_def list_ex_iff)
qed

text \<open>The steps before the transaction, appended to a calm run.\<close>

lemma calm_refl: "world_ok w \<Longrightarrow> quiet w \<Longrightarrow> calm w w"
  by (simp add: calm_def)

lemma calm_io: "calm w v \<Longrightarrow> io_only v v' \<Longrightarrow> calm w v'"
  using calm_trans calm_others io_only_others calmD by blast

lemma calm_repo:
  assumes "calm w v" "GetOrCreate n v = (r, v')"
  shows "calm w v'" "r = Inr q \<Longrightarrow> q \<in> set (t_repositories (db v')) \<and> repo_FullName q = n"
  using calm_trans[OF assms(1)] GetOrCreate_calm[OF _ _ assms(2)] calmD[OF assms(1)] by blast+

lemma calm_exists:
  assumes "calm w v" "ExistsByEmailAndRepoID e i v = (r, v')"
  shows "calm w v'" "db v' = db v"
  using calm_trans[OF assms(1)] Exists_calm[OF _ _ assms(2)] calmD[OF assms(1)] by blast+

lemma touched_pair:
  assumes "touched w v" "world_ok w" "quiet w" "pair_fits (db w) sub s" "db v = with_pair (db w) sub s"
  shows "world_ok v" "quiet v" "healthy w \<Longrightarrow> healthy v"
  using assms(2-) touched_frame[OF assms(1)] with_pair_ok[OF _ assms(4)]
  by (simp_all add: world_ok_def quiet_def healthy_def)

section \<open>The whole use case\<close>

text \<open>
  The pair a subscription makes: the rows of a new, unconfirmed subscription and of its
  pending saga, on tables that hold its repository.
\<close>

definition new_pair :: "tables \<Rightarrow> string \<Rightarrow> string \<Rightarrow> Subscription \<Rightarrow> Saga \<Rightarrow> bool" where
  "new_pair d email repoName sub s \<longleftrightarrow>
     sub_Email sub = email \<and> sub_Repo sub = repoName \<and> \<not> sub_Confirmed sub \<and>
     saga_SubscriptionID s = sub_ID sub \<and> saga_State s = SagaStatePending \<and>
     saga_LastError s = None \<and> saga_CompletedAt s = None \<and>
     (\<exists>q \<in> set (t_repositories d). repo_FullName q = repoName \<and> repo_ID q = sub_RepoID sub)"

lemma new_pair_joined:
  assumes "db_ok d" "new_pair d email repoName sub s"
  obtains tag where "join_row d (row_of_sub sub) = Some (sub\<lparr>sub_LastSeenTag := tag\<rparr>)"
proof -
  obtain q where q: "q \<in> set (t_repositories d)" "repo_FullName q = repoName" "repo_ID q = sub_RepoID sub"
    using assms(2) by (auto simp: new_pair_def)
  have "distinct (map repo_ID (t_repositories d))" using assms(1) by (simp add: db_ok_def)
  then have "find (\<lambda>x. repo_ID x = sub_RepoID sub) (t_repositories d) = Some q"
    using find_key_eq q by metis
  then have "join_row d (row_of_sub sub) = Some (sub\<lparr>sub_LastSeenTag := repo_LastSeenTag q\<rparr>)"
    using assms(2) q(2) by (simp add: join_row_def row_of_sub_def new_pair_def)
  then show ?thesis by (rule that)
qed

text \<open>Making the entities reads UUIDs and the clock only.\<close>

lemma new_entities:
  assumes "NewSubscription e rid n w = (sub, w1)" "NewSaga (sub_ID sub) w1 = (s, w2)"
  shows "io_only w w2" and "q \<in> set (t_repositories d) \<Longrightarrow> repo_ID q = rid \<Longrightarrow>
      repo_FullName q = n \<Longrightarrow> new_pair d e n sub s"
proof -
  show "io_only w w2"
    using assms by (auto simp: NewSubscription_def NewSaga_def Let_def io_only_def rewind_def
        uuid_New_def time_Now_def)
  assume "q \<in> set (t_repositories d)" "repo_ID q = rid" "repo_FullName q = n"
  then show "new_pair d e n sub s"
    using assms by (auto simp: NewSubscription_def NewSaga_def Let_def new_pair_def uuid_New_def time_Now_def)
qed

text \<open>The checks leave subscriptions and sagas alone and find the repository.\<close>

lemma Subscribe_checks:
  fixes w :: "'x world"
  assumes "world_ok w" "quiet w"
    and frame: "\<forall>a b (v :: 'x world) q v'. checker a b v = (q, v') \<longrightarrow> io_only v v'"
    and run: "Subscribe (wired_subscribe p r u checker) email repoName w = (res, w')"
  obtains (rejected) "calm w w'" "res \<noteq> None"
  | (storing) q v where "calm w v" "q \<in> set (t_repositories (db v))" "repo_FullName q = repoName"
      "isValidEmail email" "repoRegex_MatchString repoName"
      "Subscribe_store (wired_subscribe p r u checker) email q repoName v = (res, w')"
proof -
  note ports = wired_subscribe_def SubscribeUseCase.simps
  note start = calm_refl[OF assms(1,2)]
  note ck = calm_io[OF start frame[rule_format]]
  show ?thesis
    using run
  proof (cases rule: Subscribe_path)
    case refused
    then show ?thesis using rejected start by blast
  next
    case (asked a b c)
    then show ?thesis using rejected ck by (simp add: ports)
  next
    case (creating a b v1 g)
    then show ?thesis using rejected calm_repo(1)[OF ck] by (simp add: ports)
  next
    case (looking a b v1 q v2 x)
    then show ?thesis using rejected calm_exists(1)[OF calm_repo(1)[OF ck]] by (simp add: ports)
  next
    case (storing a b v1 q v2 v3)
    have c: "checker a b w = (None, v1)" "GetOrCreate repoName v1 = (Inr q, v2)"
      "ExistsByEmailAndRepoID email (repo_ID q) v2 = (Inr False, v3)"
      using storing(3-5) by (simp_all add: ports)
    note c2 = calm_repo[OF ck[OF c(1)] c(2)] and c3 = calm_exists[OF calm_repo(1)[OF ck[OF c(1)] c(2)] c(3)]
    show ?thesis
      by (rule that(2)[OF c3(1) _ _ storing(1,2,6)]) (use c2(2) c3(2) in simp_all)
  qed
qed

text \<open>
  \<open>Subscribe\<close> alone, on every path: it left subscriptions and sagas as they were and returned
  an error; or the pair was stored but its answer lost; or it was stored and published.
\<close>

lemma Subscribe_cases:
  fixes w :: "'x world"
  assumes "world_ok w" "quiet w"
    and frame: "\<forall>a b (v :: 'x world) q v'. checker a b v = (q, v') \<longrightarrow> io_only v v'"
    and run: "Subscribe (wired_subscribe p r u checker) email repoName w = (res, w')"
  obtains (rejected) "calm w w'" "res \<noteq> None"
  | (lost) v sub s where "calm w v" "new_pair (db v) email repoName sub s" "pair_fits (db v) sub s"
      "db w' = with_pair (db v) sub s" "world_ok w'" "quiet w'" "res \<noteq> None" "\<not> healthy w"
  | (published) v sub s v' e v'' where "calm w v" "new_pair (db v) email repoName sub s"
      "pair_fits (db v) sub s" "db v' = with_pair (db v) sub s" "world_ok v'" "quiet v'"
      "healthy w \<Longrightarrow> healthy v'"
      "Publish (wired p r u) (saga_ID s) sub (confirm_url u (sub_ConfirmToken sub)) v' = (e, v'')"
      "res = None \<longleftrightarrow> e = None" "w' = (if e = None then inc SubscriptionsCreatedTotal v'' else v'')"
      "isValidEmail email" "repoRegex_MatchString repoName"
  using assms
proof (cases rule: Subscribe_checks)
  case (storing q v0)
  have made: "calm w v \<and> new_pair (db v) email repoName sub s"
    if "NewSubscription email (repo_ID q) repoName v0 = (sub, v1)" "NewSaga (sub_ID sub) v1 = (s, v)" for sub v1 s v
    using calm_io[OF storing(1) new_entities(1)[OF that]] new_entities(2)[OF that storing(2)] storing(3)
      io_only_world(1)[OF new_entities(1)[OF that]] by simp
  show ?thesis
    using storing(6)
  proof (cases rule: Subscribe_store_path)
    case (failed sub v1 s v err)
    note m = made[OF failed(2,3)]
    have ok: "world_ok v" "quiet v" using m calmD by blast+
    have create: "CreateWithSaga sub s v = (Some err, w')" using failed(4) by (simp add: wired_subscribe_def)
    then show ?thesis
    proof (cases rule: CreateWithSaga_cases)
      case unchanged
      then show ?thesis using rejected calm_trans touched_calm[OF ok] m failed(1) ok(2) by auto
    next
      case both
      then show ?thesis
        using lost[OF conjunct1[OF m] conjunct2[OF m]] touched_pair[OF both(1) ok] m ok(2) failed(1)
        by (auto simp: calm_def)
    qed
  next
    case (stored sub v1 s v v' e v'')
    note m = made[OF stored(1,2)]
    have ok: "world_ok v" "quiet v" using m calmD by blast+
    have create: "CreateWithSaga sub s v = (None, v')" using stored(3) by (simp add: wired_subscribe_def)
    then show ?thesis
    proof (cases rule: CreateWithSaga_cases)
      case both
      then show ?thesis
        using published[OF conjunct1[OF m] conjunct2[OF m] _ _ _ _ _ _ stored(5,6) storing(4,5)]
          touched_pair[OF both(1) ok] m ok(2) stored(4)
        by (simp add: calm_def wired_subscribe_def)
    qed simp
  qed
qed

section \<open>Publishing the pair\<close>

lemma Publish_leaves:
  assumes "world_ok v" "quiet v" "saga_at v i = Some s" "saga_State s = SagaStatePending"
    and "saga_SubscriptionID s = j" "Publish (wired p r u) i sub url v = (e, v')"
  shows "saga_at v' = saga_at v \<and> sub_at v' = sub_at v \<or> sub_at v' = (sub_at v)(j := None)"
proof -
  obtain q v1 where q: "SendConfirmationCommand_publish p i (sub_Email sub) (sub_Repo sub) url v = (q, v1)"
    by fastforce
  note P = orch.Publish_alone[OF assms(1,2,6), unfolded wired_simps q prod.case]
  show ?thesis
  proof (cases q)
    case None
    then show ?thesis using P by simp
  next
    case (Some err)
    obtain h v2 where h: "HandleFailed (wired p r u) i (''publish_failed: '' @ error_text err) v1 = (h, v2)"
      by fastforce
    then have "v' = v2" "world_ok v1" "quiet v1" "saga_at v1 = saga_at v" "sub_at v1 = sub_at v"
      using P Some by simp_all
    then show ?thesis using orch.HandleFailed_pending[OF _ _ _ assms(4) h] assms(3,5) by auto
  qed
qed

lemma Publish_removes:
  assumes "world_ok v" "quiet v" "healthy v" "saga_at v i = Some s" "saga_State s = SagaStatePending"
    and "Publish (wired p r u) i sub url v = (e, v')" "e \<noteq> None"
  shows "saga_at v' = cascaded (saga_SubscriptionID s) (saga_at v) \<and>
    sub_at v' = (sub_at v)(saga_SubscriptionID s := None)"
proof -
  obtain q v1 where q: "SendConfirmationCommand_publish p i (sub_Email sub) (sub_Repo sub) url v = (q, v1)"
    by fastforce
  note P = orch.Publish_alone[OF assms(1,2,6), unfolded wired_simps q prod.case]
  obtain err where err: "q = Some err" using P assms(7) by (cases q) auto
  obtain h v2 where h: "HandleFailed (wired p r u) i (''publish_failed: '' @ error_text err) v1 = (h, v2)"
    by fastforce
  have v1: "v' = v2" "world_ok v1" "quiet v1" "saga_at v1 = saga_at v" "sub_at v1 = sub_at v"
    using P err h by simp_all
  have "healthy v1"
    using publish_frame q io_only_others healthy_others[OF assms(3)]
    unfolding SendConfirmationCommand_publish_def by blast
  then have "h = None" using orch.HandleFailed_sure[OF v1(2) _ h] by blast
  then show ?thesis using orch.HandleFailed_pending[OF v1(2,3) _ assms(5) h] assms(4) v1 by simp
qed

section \<open>Success and failure\<close>

lemma checker_frame: "\<forall>a b v q v'. wired_checker redis gh a b v = (q, v') \<longrightarrow> io_only v v'"
  using wired_checker_frame by blast

lemma Publish_acknowledged:
  assumes "world_ok v" "quiet v" "Publish (wired p r u) i sub url v = (None, v')"
  shows "saga_at v' = saga_at v \<and> sub_at v' = sub_at v \<and>
    (\<exists>ch x tag x1 x2. pub_ch p x = Some ch \<and>
       ch_Publish ch ExchangeNotifications RoutingKeyCmdSendConfirmation True False
         (marshal_command \<lparr>sc_SagaID = i, sc_To = sub_Email sub, sc_Repo = sub_Repo sub,
           sc_ConfirmURL = url\<rparr>) x = (Inr tag, x1) \<and>
       ch_Wait ch tag x1 = (Inr True, x2))"
proof -
  obtain q v1 where q: "SendConfirmationCommand_publish p i (sub_Email sub) (sub_Repo sub) url v = (q, v1)"
    by fastforce
  note P = orch.Publish_alone[OF assms, unfolded wired_simps q prod.case]
  have q': "q = None" using P by (cases q) auto
  show ?thesis
    using P q' publish_ok_acked[OF q[unfolded q' SendConfirmationCommand_publish_def]] by auto blast
qed

lemma Subscribe_success:
  fixes w :: "'x world"
  assumes "world_ok w" "quiet w"
    and run: "Subscribe (wired_subscribe p r u (wired_checker redis gh)) email repoName w = (None, w')"
  shows "isValidEmail email \<and> repoRegex_MatchString repoName \<and>
    (\<exists>sub s. sub_at w (sub_ID sub) = None \<and> sub_at w' = (sub_at w)(sub_ID sub \<mapsto> sub) \<and>
       sub_Email sub = email \<and> sub_Repo sub = repoName \<and> \<not> sub_Confirmed sub \<and>
       saga_at w (saga_ID s) = None \<and> saga_at w' = (saga_at w)(saga_ID s \<mapsto> s) \<and>
       saga_State s = SagaStatePending \<and> saga_SubscriptionID s = sub_ID sub \<and>
       (\<exists>ch x tag x1 x2. pub_ch p x = Some ch \<and>
          ch_Publish ch ExchangeNotifications RoutingKeyCmdSendConfirmation True False
            (marshal_command \<lparr>sc_SagaID = saga_ID s, sc_To = email, sc_Repo = repoName,
              sc_ConfirmURL = u @ ''/api/confirm/'' @ sub_ConfirmToken sub\<rparr>) x = (Inr tag, x1) \<and>
          ch_Wait ch tag x1 = (Inr True, x2)))"
  using assms(1,2) checker_frame run
proof (cases rule: Subscribe_cases)
  case (published v sub s v' e v'')
  then have e: "e = None" by simp
  note P = Publish_acknowledged[OF published(5,6,8)[unfolded e]]
  have w': "saga_at w' = saga_at v'" "sub_at w' = sub_at v'"
    using P published(10) e by (simp_all add: inc_def saga_at_def sub_at_def fun_eq_iff)
  have okd: "db_ok (db v)" using published(1) by (simp add: calm_def world_ok_def)
  obtain tag where j: "join_row (db v) (row_of_sub sub) = Some (sub\<lparr>sub_LastSeenTag := tag\<rparr>)"
    by (rule new_pair_joined[OF okd published(2)])
  let ?sub = "sub\<lparr>sub_LastSeenTag := tag\<rparr>"
  have np: "sub_Email sub = email" "sub_Repo sub = repoName" "\<not> sub_Confirmed sub"
    "saga_State s = SagaStatePending" "saga_SubscriptionID s = sub_ID sub"
    "s\<lparr>saga_LastError := None, saga_CompletedAt := None\<rparr> = s"
    using published(2) by (simp_all add: new_pair_def)
  have fresh: "sub_at w (sub_ID sub) = None" "saga_at w (saga_ID s) = None"
    using pair_fits_fresh[OF published(3)] published(1) by (simp_all add: calm_def)
  have maps: "sub_at w' = (sub_at w)(sub_ID sub \<mapsto> ?sub)" "saga_at w' = (saga_at w)(saga_ID s \<mapsto> s)"
    using sub_at_with_pair[OF published(3,4)] saga_at_with_pair[OF published(3,4)] j w' np(6) published(1)
    by (simp_all add: calm_def)
  show ?thesis
    using published(11,12) fresh maps np P[unfolded np(1,2) confirm_url_def]
    by (intro conjI exI[of _ ?sub] exI[of _ s]) simp_all
qed simp_all

lemma Subscribe_failure:
  fixes w :: "'x world"
  assumes "world_ok w" "quiet w" "healthy w"
    and run: "Subscribe (wired_subscribe p r u (wired_checker redis gh)) email repoName w = (Some err, w')"
  shows "sub_at w' = sub_at w \<and> saga_at w' = saga_at w"
  using assms(1,2) checker_frame run
proof (cases rule: Subscribe_cases)
  case rejected
  then show ?thesis by (simp add: calm_def)
next
  case lost
  then show ?thesis using assms(3) by simp
next
  case (published v sub s v' e v'')
  have fresh: "sub_at w (sub_ID sub) = None" "saga_at w (saga_ID s) = None"
    using pair_fits_fresh[OF published(3)] published(1) by (simp_all add: calm_def)
  have saga: "saga_at v' = (saga_at w)(saga_ID s \<mapsto> s)" "saga_State s = SagaStatePending"
    "saga_SubscriptionID s = sub_ID sub"
    using saga_at_with_pair[OF published(3,4)] published(1,2) by (auto simp: new_pair_def calm_def)
  have subs: "sub_at v' = (sub_at w)(sub_ID sub := join_row (db v) (row_of_sub sub))"
    using sub_at_with_pair[OF published(3,4)] published(1) by (simp add: calm_def)
  have e: "e \<noteq> None" "w' = v''" using published(9,10) by auto
  have gone: "saga_at v'' = cascaded (sub_ID sub) (saga_at v') \<and> sub_at v'' = (sub_at v')(sub_ID sub := None)"
    using Publish_removes[OF published(5,6) published(7)[OF assms(3)] _ saga(2) published(8) e(1)] saga by simp
  have "cascaded (sub_ID sub) (saga_at v') = saga_at w"
  proof
    fix k
    have "saga_SubscriptionID g \<noteq> sub_ID sub" if "saga_at w k = Some g" for g
      using world_saga_has_sub[OF assms(1) that] fresh(1) by auto
    then show "cascaded (sub_ID sub) (saga_at v') k = saga_at w k"
      using saga fresh by (auto simp: cascaded_def split: option.splits)
  qed
  then show ?thesis using gone e(2) subs fresh(1) by auto
qed

end
