(* ===== verification/SubscribeTheorems.thy ===== *)
theory SubscribeTheorems
  imports SubscribeRuns
begin

text \<open>
  What \<^verbatim>\<open>Subscribe\<close>, \<^verbatim>\<open>Confirm\<close>, \<^verbatim>\<open>Unsubscribe\<close> and \<^verbatim>\<open>GetSubscriptions\<close> do to the tables, wired as
  in \<^verbatim>\<open>setupServices\<close>, with concrete runs.
\<close>

abbreviation subscribe_uc ::
    "'x Publisher \<Rightarrow> 'x Retrier \<Rightarrow> string \<Rightarrow> 'x redis_client option \<Rightarrow> 'x github_client \<Rightarrow> 'x world SubscribeUseCase" where
  "subscribe_uc p r u redis gh \<equiv> wired_subscribe p r u (wired_checker redis gh)"

section \<open>Subscribe\<close>

text \<open>
  C14 (functional). When \<^verbatim>\<open>Subscribe\<close> reports success, with no other session interfering, both inputs
  were valid, and exactly one subscription and one saga have been added: the subscription is new,
  unconfirmed, of this address and repository; the saga is pending and refers to it; and the
  broker has acknowledged the saga's command, with the confirmation URL of this very
  subscription's token.
\<close>

theorem Subscribe_accepts:
  fixes w :: "'x world"
  assumes "world_ok w" "quiet w"
    and run: "Subscribe (subscribe_uc p r u redis gh) email repoName w = (None, w')"
  shows "isValidEmail email \<and> repoRegex_MatchString repoName \<and>
    (\<exists>sub s. sub_at w (sub_ID sub) = None \<and> sub_at w' = (sub_at w)(sub_ID sub \<mapsto> sub) \<and>
       sub_Email sub = email \<and> sub_Repo sub = repoName \<and> \<not> sub_Confirmed sub \<and>
       saga_at w (saga_ID s) = None \<and> saga_at w' = (saga_at w)(saga_ID s \<mapsto> s) \<and>
       saga_State s = SagaStatePending \<and> saga_SubscriptionID s = sub_ID sub \<and>
       (\<exists>ch x tag x1 x2. pub_ch p x = Some ch \<and>
          ch_Publish ch ExchangeNotifications RoutingKeyCmdSendConfirmation True False
            (marshal_command \<lparr>sc_SagaID = saga_ID s, sc_To = email, sc_Repo = repoName,
              sc_ConfirmURL = u @ ''/api/confirm/'' @ sub_ConfirmToken sub\<rparr>) x = (Inr tag, x1) \<and>
          ch_Wait ch tag x1 = (Inr True, x2)))"
  by (rule Subscribe_success[OF assms])

text \<open>A concrete run: one message on a broker that takes it, GitHub without a cache.\<close>

definition demo_empty :: "nat world" where
  "demo_empty = demo_world 0 no_tables"

lemma demo_empty_ok [simp]: "world_ok demo_empty" "quiet demo_empty" "healthy demo_empty"
  using db_ok_no_tables by (simp_all add: demo_empty_def)

definition demo_subscribe :: "bool \<Rightarrow> nat world SubscribeUseCase" where
  "demo_subscribe up = subscribe_uc (demo_publisher up) (demo_retrier up) ''http://h'' None one_repo_github"

theorem Subscribe_accepts_witness:
  "let (r, w') = Subscribe (demo_subscribe True) ''a@b.co'' ''golang/go'' demo_empty
   in r = None \<and> outside w' = 1 \<and>
      (\<exists>sub. sub_at w' (sub_ID sub) = Some sub \<and> sub_Email sub = ''a@b.co'' \<and> \<not> sub_Confirmed sub)"
proof -
  obtain r w' where run: "Subscribe (demo_subscribe True) ''a@b.co'' ''golang/go'' demo_empty = (r, w')"
    by fastforce
  have "fst (Subscribe (demo_subscribe True) ''a@b.co'' ''golang/go'' demo_empty) = None"
    "outside (snd (Subscribe (demo_subscribe True) ''a@b.co'' ''golang/go'' demo_empty)) = 1"
    by code_simp+
  then have r: "r = None" "outside w' = 1" using run by simp_all
  obtain sub where "sub_at w' = (sub_at demo_empty)(sub_ID sub \<mapsto> sub)" "sub_Email sub = ''a@b.co''"
    "\<not> sub_Confirmed sub"
    using Subscribe_accepts[OF demo_empty_ok(1,2) run[unfolded demo_subscribe_def r]] by blast
  then show ?thesis using run r by (auto intro!: exI[of _ sub])
qed

text \<open>
  C15 (safety). No orphans. Whatever database calls fail or lose their answer, and whatever
  \<^verbatim>\<open>Subscribe\<close> returns, with no other session interfering no subscription is lost or changed,
  and every subscription it leaves behind has a pending saga that refers to it: a failure to
  send the confirmation is always within reach of the sweeper.
\<close>

theorem Subscribe_no_orphans:
  fixes w :: "'x world"
  assumes "world_ok w" "quiet w"
    and run: "Subscribe (subscribe_uc p r u redis gh) email repoName w = (res, w')"
  shows "sub_at w' j = sub_at w j \<or>
    sub_at w j = None \<and> (\<exists>k s. saga_at w' k = Some s \<and> saga_State s = SagaStatePending \<and>
      saga_SubscriptionID s = j)"
  using assms(1,2) checker_frame run
proof (cases rule: Subscribe_cases)
  case rejected
  then show ?thesis by (simp add: calm_def)
next
  case (lost v sub s)
  have "sub_at w (sub_ID sub) = None" using pair_fits_fresh[OF lost(3)] lost(1) by (simp add: calm_def)
  then show ?thesis
    using sub_at_with_pair[OF lost(3,4)] saga_at_with_pair[OF lost(3,4)] lost(1,2)
    by (auto simp: calm_def new_pair_def)
next
  case (published v sub s v' e v'')
  have fresh: "sub_at w (sub_ID sub) = None"
    using pair_fits_fresh[OF published(3)] published(1) by (simp add: calm_def)
  have saga: "saga_at v' (saga_ID s) = Some s" "saga_State s = SagaStatePending"
    "saga_SubscriptionID s = sub_ID sub"
    using saga_at_with_pair[OF published(3,4)] published(2) by (auto simp: new_pair_def)
  have subs: "sub_at v' = (sub_at w)(sub_ID sub := join_row (db v) (row_of_sub sub))"
    using sub_at_with_pair[OF published(3,4)] published(1) by (simp add: calm_def)
  have w': "saga_at w' = saga_at v''" "sub_at w' = sub_at v''"
    using published(10) by (simp_all add: inc_def saga_at_def sub_at_def fun_eq_iff)
  have "saga_at v'' = saga_at v' \<and> sub_at v'' = sub_at v' \<or> sub_at v'' = (sub_at v')(sub_ID sub := None)"
    by (rule Publish_leaves[OF published(5,6) saga published(8)])
  then show ?thesis using subs saga w' fresh by (cases "j = sub_ID sub") auto
qed

text \<open>
  C16 (error). On a database that answers and with no other session interfering, a \<^verbatim>\<open>Subscribe\<close>
  that returns an error has no lasting effect on subscriptions and sagas: invalid input, an unknown repository, a rate limit, a
  duplicate, or a broker that does not take the command (then the compensation has removed both rows).
\<close>

theorem Subscribe_error_no_effect:
  fixes w :: "'x world"
  assumes "world_ok w" "quiet w" "healthy w"
    and run: "Subscribe (subscribe_uc p r u redis gh) email repoName w = (Some err, w')"
  shows "sub_at w' = sub_at w \<and> saga_at w' = saga_at w"
  by (rule Subscribe_failure[OF assms])

text \<open>
  The concrete runs of the two: a broker that takes nothing, on a healthy database, and one
  whose third statement, the delete of the compensation, fails.
\<close>

definition demo_flaky :: "nat world" where
  "demo_flaky = demo_empty\<lparr>db_oracle := (\<lambda>n. if n = 7 then DbFail ''gone'' else DbOk)\<rparr>"

lemma demo_flaky_ok [simp]: "world_ok demo_flaky" "quiet demo_flaky"
  using demo_empty_ok by (simp_all add: demo_flaky_def world_ok_def quiet_def)

theorem Subscribe_no_orphans_witness:
  "let (r, w') = Subscribe (demo_subscribe False) ''a@b.co'' ''golang/go'' demo_flaky
   in r \<noteq> None \<and> length (t_subscriptions (db w')) = 1 \<and>
      (\<exists>k s j. saga_at w' k = Some s \<and> saga_State s = SagaStatePending \<and>
         saga_SubscriptionID s = j \<and> sub_at w' j \<noteq> None)"
proof -
  obtain r w' where run: "Subscribe (demo_subscribe False) ''a@b.co'' ''golang/go'' demo_flaky = (r, w')"
    by fastforce
  have "fst (Subscribe (demo_subscribe False) ''a@b.co'' ''golang/go'' demo_flaky) \<noteq> None"
    "length (t_subscriptions (db (snd (Subscribe (demo_subscribe False) ''a@b.co'' ''golang/go'' demo_flaky)))) = 1"
    "sub_at (snd (Subscribe (demo_subscribe False) ''a@b.co'' ''golang/go'' demo_flaky)) ''ui'' \<noteq> None"
    "sub_at demo_flaky ''ui'' = None"
    by code_simp+
  then have r: "r \<noteq> None" "length (t_subscriptions (db w')) = 1" "sub_at w' ''ui'' \<noteq> None"
    "sub_at w' ''ui'' \<noteq> sub_at demo_flaky ''ui''"
    using run by simp_all
  then obtain k s where "saga_at w' k = Some s" "saga_State s = SagaStatePending"
    "saga_SubscriptionID s = ''ui''"
    using Subscribe_no_orphans[OF demo_flaky_ok run[unfolded demo_subscribe_def], of "''ui''"] by blast
  then show ?thesis using r run by simp metis
qed

theorem Subscribe_error_no_effect_witness:
  "let (r, w') = Subscribe (demo_subscribe False) ''a@b.co'' ''golang/go'' demo_empty
   in r \<noteq> None \<and> sub_at w' = sub_at demo_empty \<and> saga_at w' = saga_at demo_empty \<and>
      length (t_repositories (db w')) = 1"
proof -
  obtain r w' where run: "Subscribe (demo_subscribe False) ''a@b.co'' ''golang/go'' demo_empty = (r, w')"
    by fastforce
  have "fst (Subscribe (demo_subscribe False) ''a@b.co'' ''golang/go'' demo_empty) \<noteq> None"
    "length (t_repositories (db (snd (Subscribe (demo_subscribe False) ''a@b.co'' ''golang/go'' demo_empty)))) = 1"
    by code_simp+
  then obtain err where "r = Some err" "length (t_repositories (db w')) = 1" using run by auto
  then show ?thesis
    using Subscribe_error_no_effect[OF demo_empty_ok, of "demo_publisher False" "demo_retrier False"
        "''http://h''" None one_repo_github] run
    unfolding demo_subscribe_def by auto
qed

section \<open>Duplicates\<close>

text \<open>
  No key of the migrated schema mentions the address: migration 2 drops the column \<^verbatim>\<open>repo\<close> and with
  it \<^verbatim>\<open>UNIQUE (email, repo)\<close>.
\<close>

lemma no_key_on_email: "list_all (\<lambda>k. \<not> mentions ''email'' k) (table_keys ''subscriptions'')"
  by (simp add: table_keys_simps)

text \<open>The two statements before the transaction leave the database as sound as it was.\<close>

lemma healthy_touched: "healthy w \<Longrightarrow> touched w v \<Longrightarrow> healthy v"
  using touched_frame[of w v] by (simp add: healthy_def)

lemma healthy_repo:
  assumes "healthy w" "GetOrCreate n w = (r, v)"
  shows "healthy v"
proof -
  obtain i w1 where u: "uuid_New w = (i, w1)" by fastforce
  obtain t w2 where c: "time_Now w1 = (t, w2)" by fastforce
  obtain e v' where e: "exec_sql (sql_get_or_create i n t) w2 = (e, v')" by fastforce
  have "healthy w2" using assms(1) u c by (auto simp: uuid_New_def time_Now_def healthy_def)
  moreover have "v = v'" using assms(2) u c e by (cases e) (simp_all add: GetOrCreate_def)
  ultimately show ?thesis using healthy_touched exec_sql_touched[OF e] by blast
qed

lemma healthy_exists:
  assumes "healthy w" "ExistsByEmailAndRepoID a b w = (r, v)"
  shows "healthy v"
proof -
  obtain e v' where e: "exec_sql (sql_exists a b) w = (e, v')" by fastforce
  then have "v = v'" using assms(2) by (cases e) (simp_all add: ExistsByEmailAndRepoID_def)
  then show ?thesis using healthy_touched[OF assms(1)] exec_sql_touched[OF e] by blast
qed

text \<open>
  C17 (safety). \<^verbatim>\<open>Subscribe\<close> does not keep a pair from being subscribed twice. On a database that
  answers, let the repository exist, let the check find no subscription of the pair, and let other
  sessions do what they like between the check and the transaction as long as the new rows still
  fit the constraints there (fresh ids and tokens). If a subscription of the same pair has
  appeared meanwhile and the broker takes the command, \<^verbatim>\<open>Subscribe\<close> still reports success, and the
  pair then has two subscriptions.
\<close>

theorem Subscribe_admits_duplicates:
  fixes w :: "'x world"
  assumes "healthy w" "isValidEmail email" "repoRegex_MatchString repoName"
    and "strings_SplitN repoName CHR ''/'' 2 = [owner, name]"
    and "wired_checker redis gh owner name w = (None, w1)" "GetOrCreate repoName w1 = (Inr q, w2)"
      "ExistsByEmailAndRepoID email (repo_ID q) w2 = (Inr False, w3)"
    and "NewSubscription email (repo_ID q) repoName w3 = (sub, w4)" "NewSaga (sub_ID sub) w4 = (s, w5)"
    and "d = db_env w3 (db_calls w3) (db w3)" "pair_fits d sub s"
    and "rival \<in> set (t_subscriptions d)" "sr_email rival = email" "sr_repo_id rival = repo_ID q"
    and "\<forall>(v :: 'x world) url. outside v = outside w3 \<longrightarrow>
      (\<exists>v'. SendConfirmationCommand_publish p (saga_ID s) email repoName url v = (None, v'))"
    and run: "Subscribe (subscribe_uc p r u redis gh) email repoName w = (res, w')"
  shows "res = None \<and>
    (\<exists>x \<in> set (t_subscriptions (db w')). \<exists>y \<in> set (t_subscriptions (db w')).
       sr_id x \<noteq> sr_id y \<and> sr_email x = email \<and> sr_email y = email \<and>
       sr_repo_id x = repo_ID q \<and> sr_repo_id y = repo_ID q)"
proof -
  have io: "io_only w w1" "io_only w3 w5"
    using assms(5) checker_frame new_entities(1)[OF assms(8,9)] by blast+
  have "healthy w1" using healthy_others[OF assms(1) io_only_others[OF io(1)]] .
  then have "healthy w3" using healthy_repo[OF _ assms(6)] healthy_exists[OF _ assms(7)] by blast
  then have h5: "healthy w5" using healthy_others[OF _ io_only_others[OF io(2)]] by blast
  have d: "db (db_turn w5) = d"
    using io_only_world[OF io(2)] assms(10) by (simp add: db_turn_def)
  obtain e w6 where c: "CreateWithSaga sub s w5 = (e, w6)" by fastforce
  then have new: "e = None" "db w6 = with_pair d sub s"
    using h5 assms(11) d by (cases rule: CreateWithSaga_cases; simp)+
  have subf: "sub_Email sub = email" "sub_Repo sub = repoName" "sub_RepoID sub = repo_ID q"
    using assms(8) by (auto simp: NewSubscription_def Let_def split_def)
  have "outside w5 = outside w3"
    using assms(8,9) by (auto simp: NewSubscription_def NewSaga_def Let_def uuid_New_def time_Now_def)
  moreover have "outside w6 = outside w5"
    using c touched_frame by (cases rule: CreateWithSaga_cases) blast+
  ultimately have "outside w6 = outside w3" by simp
  let ?url = "confirm_url u (sub_ConfirmToken sub)"
  obtain w7 where pub: "SendConfirmationCommand_publish p (saga_ID s) email repoName ?url w6 = (None, w7)"
    using assms(15) \<open>outside w6 = outside w3\<close> by blast
  have "Publish (wired p r u) (saga_ID s) sub ?url w6 = (None, w7)"
    using pub subf by (simp add: Publish_def)
  then have "Subscribe (subscribe_uc p r u redis gh) email repoName w = (None, inc SubscriptionsCreatedTotal w7)"
    using assms(2-9) c new(1) by (simp add: Subscribe_def wired_subscribe_def)
  then have res: "res = None" "w' = inc SubscriptionsCreatedTotal w7" using run by simp_all
  have "db w7 = db w6"
    using publish_frame pub io_only_world(1) unfolding SendConfirmationCommand_publish_def by blast
  then have t: "t_subscriptions (db w') = t_subscriptions d @ [row_of_sub sub]"
    using res(2) new(2) by (simp add: with_pair_def inc_def)
  have "sr_id rival \<noteq> sub_ID sub" using assms(11,12) by (metis image_eqI pair_fits_def)
  then show ?thesis
    using t res(1) assms(12-14) subf by (auto simp: row_of_sub_def)
qed

text \<open>A session subscribes the pair between the check (the second statement) and the transaction.\<close>

definition demo_rival :: sub_row where
  "demo_rival = \<lparr>sr_id = ''s9'', sr_email = ''a@b.co'', sr_repo_id = ''u'', sr_confirmed = False,
     sr_confirm_token = ''c9'', sr_unsubscribe_token = ''u9'', sr_created_at = 0\<rparr>"

definition demo_twice :: "nat world" where
  "demo_twice = demo_empty\<lparr>db_env := (\<lambda>n d. if n = 2
     then d\<lparr>t_subscriptions := t_subscriptions d @ [demo_rival]\<rparr> else d)\<rparr>"

theorem Subscribe_admits_duplicates_witness:
  "let (r, w') = Subscribe (demo_subscribe True) ''a@b.co'' ''golang/go'' demo_twice
   in r = None \<and> (\<exists>x \<in> set (t_subscriptions (db w')). \<exists>y \<in> set (t_subscriptions (db w')).
       sr_id x \<noteq> sr_id y \<and> sr_email x = ''a@b.co'' \<and> sr_email y = ''a@b.co'' \<and>
       sr_repo_id x = ''u'' \<and> sr_repo_id y = ''u'')"
proof -
  let ?q = "\<lparr>repo_ID = ''u'', repo_FullName = ''golang/go'', repo_LastSeenTag = None, repo_CreatedAt = 0\<rparr>"
  let ?w1 = "snd (wired_checker None one_repo_github ''golang'' ''go'' demo_twice)"
  let ?w2 = "snd (GetOrCreate ''golang/go'' ?w1)"
  let ?w3 = "snd (ExistsByEmailAndRepoID ''a@b.co'' ''u'' ?w2)"
  let ?sub = "NewSubscription ''a@b.co'' ''u'' ''golang/go'' ?w3"
  let ?s = "NewSaga (sub_ID (fst ?sub)) (snd ?sub)"
  let ?d = "db_env ?w3 (db_calls ?w3) (db ?w3)"
  obtain r w' where run: "Subscribe (demo_subscribe True) ''a@b.co'' ''golang/go'' demo_twice = (r, w')" by fastforce
  have h: "healthy demo_twice" using demo_empty_ok(3) by (simp add: demo_twice_def healthy_def)
  have input: "isValidEmail ''a@b.co''" "repoRegex_MatchString ''golang/go''"
    "strings_SplitN ''golang/go'' CHR ''/'' 2 = [''golang'', ''go'']"
    by code_simp+
  have results: "fst (wired_checker None one_repo_github ''golang'' ''go'' demo_twice) = None"
    "fst (GetOrCreate ''golang/go'' ?w1) = Inr ?q" "fst (ExistsByEmailAndRepoID ''a@b.co'' ''u'' ?w2) = Inr False"
    by code_simp+
  have fits: "pair_fits ?d (fst ?sub) (fst ?s)" "demo_rival \<in> set (t_subscriptions ?d)"
    by code_simp+
  have rival: "sr_email demo_rival = ''a@b.co''" "sr_repo_id demo_rival = repo_ID ?q"
    by (simp_all add: demo_rival_def)
  have pub: "\<forall>(v :: nat world) url. outside v = outside ?w3 \<longrightarrow>
      (\<exists>v'. SendConfirmationCommand_publish (demo_publisher True) (saga_ID (fst ?s)) ''a@b.co'' ''golang/go'' url v = (None, v'))"
    by (auto simp: SendConfirmationCommand_publish_def publish_def demo_publisher_def demo_channel_def
        call_outside_def Let_def split_def)
  have "r = None \<and> (\<exists>x \<in> set (t_subscriptions (db w')). \<exists>y \<in> set (t_subscriptions (db w')).
      sr_id x \<noteq> sr_id y \<and> sr_email x = ''a@b.co'' \<and> sr_email y = ''a@b.co'' \<and>
      sr_repo_id x = repo_ID ?q \<and> sr_repo_id y = repo_ID ?q)"
    by (rule Subscribe_admits_duplicates[where ?w1.0 = ?w1 and ?w2.0 = ?w2 and ?w3.0 = ?w3 and sub = "fst ?sub"
        and ?w4.0 = "snd ?sub" and s = "fst ?s" and ?w5.0 = "snd ?s" and rival = demo_rival,
        OF h input _ _ _ _ _ refl fits rival pub run[unfolded demo_subscribe_def]])
      (simp_all add: prod_eq_iff results)
  then show ?thesis using run by simp
qed

end
