(* ===== verification/TokenTheorems.thy ===== *)
theory TokenTheorems
  imports SubscribeRuns
begin

text \<open>
  The use cases behind the links of the mails, \<^verbatim>\<open>Confirm\<close> and \<^verbatim>\<open>Unsubscribe\<close>, and the listing of
  subscriptions, on PostgreSQL.
\<close>

section \<open>Rows and views\<close>

lemma join_row_row: "join_row d r = Some s \<Longrightarrow> row_of_sub s = r"
  by (auto simp: join_row_def row_of_sub_def)

lemma join_row_ids: "join_row d r = Some s \<Longrightarrow> sr_id r = sub_ID s"
  by (auto simp: join_row_def)

lemma sub_at_iff:
  assumes "world_ok w"
  shows "sub_at w i = Some s \<longleftrightarrow>
    (\<exists>r \<in> set (t_subscriptions (db w)). sr_id r = i \<and> join_row (db w) r = Some s)"
proof
  assume "sub_at w i = Some s"
  then obtain r where f: "find (\<lambda>r. sr_id r = i) (t_subscriptions (db w)) = Some r"
    and j: "join_row (db w) r = Some s"
    by (cases "find (\<lambda>r. sr_id r = i) (t_subscriptions (db w))") (auto simp: sub_at_def)
  then show "\<exists>r \<in> set (t_subscriptions (db w)). sr_id r = i \<and> join_row (db w) r = Some s"
    using find_SomeD[OF f] by blast
next
  assume "\<exists>r \<in> set (t_subscriptions (db w)). sr_id r = i \<and> join_row (db w) r = Some s"
  then obtain r where r: "r \<in> set (t_subscriptions (db w))" "sr_id r = i" "join_row (db w) r = Some s"
    by blast
  have "distinct (map sr_id (t_subscriptions (db w)))" using assms by (simp add: world_ok_def db_ok_def)
  then show "sub_at w i = Some s" using find_key_eq[of sr_id _ r i] r by (simp add: sub_at_def)
qed

lemma select_subs_iff:
  assumes "world_ok w" "\<And>s. P (row_of_sub s) = Q s"
  shows "s \<in> set (select_subs P (db w)) \<longleftrightarrow> sub_at w (sub_ID s) = Some s \<and> Q s"
proof -
  have "s \<in> set (select_subs P (db w)) \<longleftrightarrow>
      (\<exists>r \<in> set (t_subscriptions (db w)). P r \<and> join_row (db w) r = Some s)"
    by (auto simp: select_subs_def set_map_filter)
  also have "\<dots> \<longleftrightarrow> sub_at w (sub_ID s) = Some s \<and> Q s"
    unfolding sub_at_iff[OF assms(1)] assms(2)[symmetric]
    by (metis join_row_row join_row_ids)
  finally show ?thesis .
qed


section \<open>Confirming\<close>


text \<open>No two subscriptions share a token.\<close>

lemma token_unique:
  assumes "world_ok w" "sub_at w i = Some s" "sub_at w j = Some t"
  shows "sub_ConfirmToken s = sub_ConfirmToken t \<Longrightarrow> i = j \<and> s = t"
    and "sub_UnsubscribeToken s = sub_UnsubscribeToken t \<Longrightarrow> i = j \<and> s = t"
proof -
  obtain r q where r: "r \<in> set (t_subscriptions (db w))" "sr_id r = i" "join_row (db w) r = Some s"
    and q: "q \<in> set (t_subscriptions (db w))" "sr_id q = j" "join_row (db w) q = Some t"
    using assms sub_at_iff by blast
  have ct: "sr_confirm_token r = sub_ConfirmToken s" "sr_confirm_token q = sub_ConfirmToken t"
    and ut: "sr_unsubscribe_token r = sub_UnsubscribeToken s" "sr_unsubscribe_token q = sub_UnsubscribeToken t"
    using r(3) q(3) by (auto simp: join_row_def)
  have d: "distinct (map sr_confirm_token (t_subscriptions (db w)))"
    "distinct (map sr_unsubscribe_token (t_subscriptions (db w)))"
    using assms(1) by (simp_all add: world_ok_def db_ok_def)
  show "sub_ConfirmToken s = sub_ConfirmToken t \<Longrightarrow> i = j \<and> s = t"
    using distinct_key_eq[OF d(1) r(1) q(1)] ct r(2,3) q(2,3) by (metis option.inject)
  show "sub_UnsubscribeToken s = sub_UnsubscribeToken t \<Longrightarrow> i = j \<and> s = t"
    using distinct_key_eq[OF d(2) r(1) q(1)] ut r(2,3) q(2,3) by (metis option.inject)
qed




section \<open>Unsubscribing\<close>



section \<open>Listing\<close>

lemma select_subs_ids:
  assumes "db_ok d"
  shows "map sub_ID (select_subs P d) = map sr_id (filter P (t_subscriptions d))"
proof -
  have "select_subs P d = map (the \<circ> join_row d) (filter P (t_subscriptions d))"
    unfolding select_subs_def by (rule map_filter_find) (rule join_row_found[OF assms])
  moreover have "sub_ID (the (join_row d r)) = sr_id r" if "r \<in> set (t_subscriptions d)" for r
    using join_row_found[OF assms that] join_row_ids[of d r] by auto
  ultimately show ?thesis by simp
qed

text \<open>
  C20 (functional). \<^verbatim>\<open>GetSubscriptions\<close> changes nothing. For a valid address it lists, without
  repetition, exactly the confirmed subscriptions of that very address; never an unconfirmed one
  and never another subscriber's. An invalid address is refused before the database is asked.
\<close>

theorem GetSubscriptions_lists_confirmed:
  fixes w :: "'x world"
  assumes "world_ok w" "quiet w" "GetSubscriptions_usecase wired_list email w = (x, w')"
  shows "sub_at w' = sub_at w \<and> saga_at w' = saga_at w \<and>
    (if isValidEmail email
     then (\<forall>subs. x = Inr subs \<longrightarrow> distinct (map sub_ID subs) \<and>
         set subs = {s. sub_at w (sub_ID s) = Some s \<and> sub_Email s = email \<and> sub_Confirmed s}) \<and>
       (healthy w \<longrightarrow> (\<exists>subs. x = Inr subs))
     else x = Inl (Sentinel AppErrInvalidEmail) \<and> w' = w)"
proof (cases "isValidEmail email")
  case False
  then show ?thesis using assms(3) by (simp add: GetSubscriptions_usecase_def)
next
  case True
  let ?P = "\<lambda>r. sr_email r = email \<and> sr_confirmed r = True"
  obtain y w1 where get: "many_rows ''get by email'' (select_subs ?P) w = (y, w1)" by fastforce
  note c = many_rows_calm[OF assms(1,2) get]
  then have c1: "world_ok w1" "sub_at w1 = sub_at w" "saga_at w1 = saga_at w" "db_ok (db w1)"
    by (auto simp: calm_def world_ok_def)
  have run: "w' = w1" "\<And>subs. x = Inr subs \<longleftrightarrow> y = Inr subs"
    using assms(3) get True
    by (auto simp: GetSubscriptions_usecase_def wired_list_def GetByEmail_def split: sum.splits)
  have P: "?P (row_of_sub s) \<longleftrightarrow> sub_Email s = email \<and> sub_Confirmed s" for s
    by (simp add: row_of_sub_def)
  have "distinct (map sub_ID subs) \<and>
      set subs = {s. sub_at w (sub_ID s) = Some s \<and> sub_Email s = email \<and> sub_Confirmed s}"
    if "y = Inr subs" for subs
  proof -
    have s: "subs = select_subs ?P (db w1)" using many_rows_found[OF get[unfolded that]] by blast
    have "distinct (map sr_id (t_subscriptions (db w1)))" using c1(4) by (simp add: db_ok_def)
    then have "distinct (map sub_ID subs)"
      unfolding s select_subs_ids[OF c1(4)] by (rule distinct_map_filter_key)
    then show ?thesis
      using select_subs_iff[OF c1(1), of ?P "\<lambda>s. sub_Email s = email \<and> sub_Confirmed s", OF P] c1(2) s
      by auto
  qed
  moreover have "healthy w \<Longrightarrow> \<exists>subs. y = Inr subs"
    using many_rows_failed get by (cases y) blast+
  ultimately show ?thesis using True run c1 by simp
qed

theorem GetSubscriptions_lists_confirmed_witness:
  "fst (GetSubscriptions_usecase wired_list ''a@b.co'' demo_start) = Inr [] \<and>
   sub_Email (the (sub_at demo_start ''s1'')) = ''a@b.co''"
proof -
  obtain x w' where run: "GetSubscriptions_usecase wired_list ''a@b.co'' demo_start = (x, w')" by fastforce
  have e: "isValidEmail ''a@b.co''" "\<not> sub_Confirmed (the (sub_at demo_start ''s1''))"
    "sub_Email (the (sub_at demo_start ''s1'')) = ''a@b.co''"
    by code_simp+
  note t = GetSubscriptions_lists_confirmed[OF demo_start_ok(1,2) run]
  obtain subs where subs: "x = Inr subs" using t e(1) demo_start_ok(3) by auto
  have "sub_at demo_start k = None" if "k \<noteq> ''s1''" for k
    using that by (simp add: demo_start_def demo_world_def sub_at_def demo_data)
  then have "set subs = {}" using t e subs by (auto split: if_splits) (metis option.distinct(1) option.sel)
  then show ?thesis using run subs e(3) by simp
qed

end
