(* ===== verification/HttpApi.thy ===== *)
theory HttpApi
  imports UseCases Platform
begin

text \<open>
  \<^verbatim>\<open>internal/subscription/adapter/http\<close>: the four handlers over the ports of \<^verbatim>\<open>service.go\<close>, and
  the router of \<^verbatim>\<open>newRouter\<close> in \<^verbatim>\<open>cmd/server/main.go\<close>. The body of \<^verbatim>\<open>POST /api/subscribe\<close> is a
  JSON value; \<^verbatim>\<open>uuid.Parse\<close> of the google/uuid package is the parameter \<open>uuid_ok\<close>.
\<close>

section \<open>Messages\<close>

definition msgInternalError :: string where "msgInternalError = ''internal server error''"
definition msgInvalidToken :: string where "msgInvalidToken = ''invalid token''"
definition msgTokenNotFound :: string where "msgTokenNotFound = ''token not found''"
definition msgInvalidRequestBody :: string where "msgInvalidRequestBody = ''invalid request body''"
definition msgEmailAndRepoRequired :: string where "msgEmailAndRepoRequired = ''email and repo are required''"
definition msgEmailRequired :: string where "msgEmailRequired = ''email query parameter is required''"
definition msgSubscribeSuccess :: string where
  "msgSubscribeSuccess = ''Subscription accepted. Check your inbox shortly to confirm.''"
definition msgConfirmSuccess :: string where "msgConfirmSuccess = ''Subscription confirmed successfully''"
definition msgUnsubscribeSuccess :: string where "msgUnsubscribeSuccess = ''Unsubscribed successfully''"

record subscriptionResponse =
  re_Email :: string
  re_Repo :: string
  re_Confirmed :: bool
  re_LastSeenTag :: "string option"

definition toResponse :: "Subscription \<Rightarrow> subscriptionResponse" where
  "toResponse s = \<lparr>re_Email = sub_Email s, re_Repo = sub_Repo s, re_Confirmed = sub_Confirmed s,
     re_LastSeenTag = sub_LastSeenTag s\<rparr>"

datatype payload =
    errorResponse string
  | messageResponse string
  | subscriptionList "subscriptionResponse list"
  | health_status string
  | raw string
  | no_body

text \<open>The request of this API: gin's, with its body.\<close>

record api_request = request +
  in_Body :: body

type_synonym 'w api_handler = "(api_request, payload, 'w) gin_handler"

section \<open>Handlers\<close>

record 'w Handler =
  h_subscriber :: "string \<Rightarrow> string \<Rightarrow> 'w \<Rightarrow> goerr option \<times> 'w"
  h_confirmer :: "string \<Rightarrow> 'w \<Rightarrow> goerr option \<times> 'w"
  h_unsubscriber :: "string \<Rightarrow> 'w \<Rightarrow> goerr option \<times> 'w"
  h_subscriptionLister :: "string \<Rightarrow> 'w \<Rightarrow> (goerr + Subscription list) \<times> 'w"

definition Handler_Subscribe :: "'w Handler \<Rightarrow> 'w api_handler" where
  "Handler_Subscribe h rq w =
     (case unmarshal_strings [''email'', ''repo''] (in_Body rq) of
        Inl err \<Rightarrow> (reply 400 (errorResponse msgInvalidRequestBody), w)
      | Inr vs \<Rightarrow>
          (let email = nth_or_empty vs 0; repo = nth_or_empty vs 1 in
           if email = [] \<or> repo = [] then (reply 400 (errorResponse msgEmailAndRepoRequired), w)
           else
             (case h_subscriber h email repo w of
                (Some err, w1) \<Rightarrow>
                  (if errors_Is err AppErrInvalidEmail \<or> errors_Is err AppErrInvalidRepo
                   then (reply 400 (errorResponse (error_text err)), w1)
                   else if errors_Is err AppErrRepoNotFound
                   then (reply 404 (errorResponse (error_text err)), w1)
                   else if errors_Is err AppErrAlreadyExists
                   then (reply 409 (errorResponse (error_text err)), w1)
                   else if errors_Is err AppErrRateLimit
                   then (reply 429 (errorResponse (error_text err)), w1)
                   else (reply 500 (errorResponse msgInternalError), w1))
              | (None, w1) \<Rightarrow> (reply 202 (messageResponse msgSubscribeSuccess), w1))))"

definition Handler_Confirm :: "(string \<Rightarrow> bool) \<Rightarrow> 'w Handler \<Rightarrow> 'w api_handler" where
  "Handler_Confirm uuid_ok h rq w =
     (let token = in_Param rq ''token'' in
      if \<not> uuid_ok token then (reply 400 (errorResponse msgInvalidToken), w)
      else
        (case h_confirmer h token w of
           (Some err, w1) \<Rightarrow>
             (if errors_Is err AppErrNotFound then (reply 404 (errorResponse msgTokenNotFound), w1)
              else (reply 500 (errorResponse msgInternalError), w1))
         | (None, w1) \<Rightarrow> (reply 200 (messageResponse msgConfirmSuccess), w1)))"

definition Handler_Unsubscribe :: "(string \<Rightarrow> bool) \<Rightarrow> 'w Handler \<Rightarrow> 'w api_handler" where
  "Handler_Unsubscribe uuid_ok h rq w =
     (let token = in_Param rq ''token'' in
      if \<not> uuid_ok token then (reply 400 (errorResponse msgInvalidToken), w)
      else
        (case h_unsubscriber h token w of
           (Some err, w1) \<Rightarrow>
             (if errors_Is err AppErrNotFound then (reply 404 (errorResponse msgTokenNotFound), w1)
              else (reply 500 (errorResponse msgInternalError), w1))
         | (None, w1) \<Rightarrow> (reply 200 (messageResponse msgUnsubscribeSuccess), w1)))"

definition Handler_GetSubscriptions :: "'w Handler \<Rightarrow> 'w api_handler" where
  "Handler_GetSubscriptions h rq w =
     (let emailAddr = in_Query rq ''email'' in
      if emailAddr = [] then (reply 400 (errorResponse msgEmailRequired), w)
      else
        (case h_subscriptionLister h emailAddr w of
           (Inl err, w1) \<Rightarrow>
             (if errors_Is err AppErrInvalidEmail then (reply 400 (errorResponse (error_text err)), w1)
              else (reply 500 (errorResponse msgInternalError), w1))
         | (Inr subs, w1) \<Rightarrow> (reply 200 (subscriptionList (map toResponse subs)), w1)))"

section \<open>The router\<close>

text \<open>
  The routes as \<^verbatim>\<open>newRouter\<close> registers them. \<^verbatim>\<open>promhttp.Handler()\<close> is the parameter \<open>prom\<close> and
  the embedded page \<open>index_html\<close> (\<open>None\<close> when \<^verbatim>\<open>ReadFile\<close> fails). A request no route matches
  gets gin's 404.
\<close>

definition routes ::
    "(string \<Rightarrow> bool) \<Rightarrow> 'w api_handler \<Rightarrow> string option \<Rightarrow> 'w Handler \<Rightarrow>
     ((string \<times> string) \<times> 'w api_handler) list" where
  "routes uuid_ok prom index_html h =
     [((''POST'', ''/api/subscribe''), Handler_Subscribe h),
      ((''GET'', ''/api/confirm/:token''), Handler_Confirm uuid_ok h),
      ((''GET'', ''/api/unsubscribe/:token''), Handler_Unsubscribe uuid_ok h),
      ((''GET'', ''/api/subscriptions''), Handler_GetSubscriptions h),
      ((''GET'', ''/health''), \<lambda>rq w. (reply 200 (health_status ''ok''), w)),
      ((''GET'', ''/metrics''), prom),
      ((''GET'', ''/''), \<lambda>rq w. (case index_html of
          None \<Rightarrow> (reply 500 no_body, w) | Some data \<Rightarrow> (reply 200 (raw data), w)))]"

definition dispatch_route :: "((string \<times> string) \<times> 'w api_handler) list \<Rightarrow> 'w api_handler" where
  "dispatch_route rs rq w =
     (case map_of rs (in_Method rq, in_FullPath rq) of
        Some handler \<Rightarrow> handler rq w
      | None \<Rightarrow> (reply 404 (raw ''404 page not found''), w))"

text \<open>
  \<^verbatim>\<open>gin.Recovery\<close>, the outermost handler, turns a panic of a handler into a 500; no handler of the
  model panics, so it is left out. So are gin's own redirects of paths with a superfluous or a
  missing trailing slash: a request comes with the route gin has matched.
\<close>

definition newRouter ::
    "(string \<Rightarrow> bool) \<Rightarrow> ('x, 'm) proc_scheme api_handler \<Rightarrow> string option \<Rightarrow>
     ('x, 'm) proc_scheme Handler \<Rightarrow> ('x, 'm) proc_scheme api_handler" where
  "newRouter uuid_ok prom index_html h =
     RequestID (Logger (Prometheus (dispatch_route (routes uuid_ok prom index_html h))))"

text \<open>\<^verbatim>\<open>subscriptionhttp.New(svc.subscribe, svc.confirm, svc.unsubscribe, svc.getSubs)\<close>.\<close>

definition wired_handler ::
    "'x Publisher \<Rightarrow> 'x Retrier \<Rightarrow> string \<Rightarrow> 'x redis_client option \<Rightarrow> 'x github_client \<Rightarrow>
     'x world Handler" where
  "wired_handler p r u redis gh =
     \<lparr>h_subscriber = Subscribe (wired_subscribe p r u (wired_checker redis gh)),
      h_confirmer = Confirm_usecase wired_confirm,
      h_unsubscriber = Unsubscribe_usecase wired_unsubscribe,
      h_subscriptionLister = GetSubscriptions_usecase wired_list\<rparr>"

end
