(* ===== verification/HttpTheorems.thy ===== *)
theory HttpTheorems
  imports HttpApi SubscribeTheorems
begin

text \<open>
  The HTTP API end to end: from a request on the router, through the middlewares, the handler
  and the use case, to the tables and the status of the answer.
\<close>

section \<open>The middleware chain\<close>

lemma router_run:
  fixes w :: "('x, 'm) proc_scheme"
  assumes "newRouter uuid_ok prom page h rq w = (resp, w')"
  shows "\<exists>i w1 inner w2 m.
    i = (if in_Header rq ''X-Request-Id'' = [] then uuids w (uuid_reads w) else in_Header rq ''X-Request-Id'') \<and>
    io_only w w1 \<and>
    dispatch_route (routes uuid_ok prom page h) (rq\<lparr>in_ctxRequestID := i\<rparr>) w1 = (inner, w2) \<and>
    out_Status resp = out_Status inner \<and> out_Body resp = out_Body inner \<and>
    out_Header resp = (''X-Request-Id'', i) # out_Header inner \<and>
    out_Log resp = out_Log inner @
      [(levelForStatus (out_Status inner), in_Method rq, in_FullPath rq, out_Status inner)] \<and>
    io_only w2 w' \<and> outside w' = outside w2 \<and>
    m = HTTPRequestsTotal (in_Method rq) (in_FullPath rq) (itoa (out_Status inner)) \<and>
    metrics w' m = Suc (metrics w2 m)"
proof -
  define i where "i = (if in_Header rq ''X-Request-Id'' = [] then uuids w (uuid_reads w)
    else in_Header rq ''X-Request-Id'')"
  define w0 where "w0 = (if in_Header rq ''X-Request-Id'' = [] then snd (uuid_New w) else w)"
  define w1 where "w1 = snd (time_Now (snd (time_Now w0)))"
  obtain inner w2 where inner: "dispatch_route (routes uuid_ok prom page h) (rq\<lparr>in_ctxRequestID := i\<rparr>) w1 = (inner, w2)"
    by fastforce
  have id: "(if in_Header rq ''X-Request-Id'' = [] then uuid_New w else (in_Header rq ''X-Request-Id'', w)) = (i, w0)"
    by (simp add: i_def w0_def uuid_New_def)
  have run: "(resp, w') =
      (inner\<lparr>out_Log := out_Log inner @
          [(levelForStatus (out_Status inner), in_Method rq, in_FullPath rq, out_Status inner)],
          out_Header := (''X-Request-Id'', i) # out_Header inner\<rparr>,
       snd (time_Now (inc (HTTPRequestDuration (in_Method rq) (in_FullPath rq))
         (inc (HTTPRequestsTotal (in_Method rq) (in_FullPath rq) (itoa (out_Status inner))) (snd (time_Now w2))))))"
    using assms inner unfolding newRouter_def RequestID_def id Let_def prod.case
    by (simp add: Logger_def Prometheus_def Let_def split_def WithRequestID_def w1_def)
  have o1: "io_only w w1"
  proof -
    have "io_only w w0" by (simp add: w0_def)
    then show ?thesis unfolding w1_def by (blast intro: io_only_trans io_only_basic)
  qed
  have o2: "io_only w2 w'"
    using run by (simp add: io_only_def rewind_def time_Now_def inc_def)
  show ?thesis
    using run inner o1 o2 unfolding i_def[symmetric]
    by (intro exI conjI) (auto simp: time_Now_def inc_def)
qed

text \<open>
  C27 (functional). Whatever the routes answer, the middleware chain of \<^verbatim>\<open>newRouter\<close> gives the
  handler one correlation id, the client's own if it sent one and else a fresh UUID, echoes
  that same id in the response, leaves status and body alone, writes one access-log entry at
  the level of the final status, and counts the request once under its final status.
\<close>

theorem router_observes:
  fixes w :: "('x, 'm) proc_scheme"
  assumes "newRouter uuid_ok prom page h rq w = (resp, w')"
  shows "\<exists>i w1 inner w2 m.
    i = (if in_Header rq ''X-Request-Id'' = [] then uuids w (uuid_reads w) else in_Header rq ''X-Request-Id'') \<and>
    io_only w w1 \<and>
    dispatch_route (routes uuid_ok prom page h) (rq\<lparr>in_ctxRequestID := i\<rparr>) w1 = (inner, w2) \<and>
    out_Status resp = out_Status inner \<and> out_Body resp = out_Body inner \<and>
    out_Header resp = (''X-Request-Id'', i) # out_Header inner \<and>
    out_Log resp = out_Log inner @
      [(levelForStatus (out_Status inner), in_Method rq, in_FullPath rq, out_Status inner)] \<and>
    io_only w2 w' \<and> outside w' = outside w2 \<and>
    m = HTTPRequestsTotal (in_Method rq) (in_FullPath rq) (itoa (out_Status inner)) \<and>
    metrics w' m = Suc (metrics w2 m)"
  by (rule router_run[OF assms])

definition demo_request :: "string \<Rightarrow> string \<Rightarrow> body \<Rightarrow> api_request" where
  "demo_request verb route payload =
     \<lparr>in_Method = verb, in_FullPath = route, in_Param = (\<lambda>_. ''ct''), in_Query = (\<lambda>_. ''a@b.co''),
      in_Header = (\<lambda>k. if k = ''X-Request-Id'' then ''req-7'' else []), in_ctxRequestID = [],
      in_Body = payload\<rparr>"

definition demo_router :: "bool \<Rightarrow> nat world api_handler" where
  "demo_router up = newRouter (\<lambda>s. s = ''ct'') (\<lambda>rq w. (reply 200 no_body, w)) None
     (wired_handler (demo_publisher up) (demo_retrier up) ''http://h'' None one_repo_github)"

theorem router_observes_witness:
  "let (resp, w') = demo_router True (demo_request ''GET'' ''/health'' None) demo_start
   in out_Status resp = 200 \<and> out_Header resp = [(''X-Request-Id'', ''req-7'')] \<and>
      out_Log resp = [(LevelInfo, ''GET'', ''/health'', 200)]"
proof -
  obtain resp w' where run: "demo_router True (demo_request ''GET'' ''/health'' None) demo_start = (resp, w')"
    by fastforce
  show ?thesis
    using router_observes[OF run[unfolded demo_router_def]] run
    by (auto simp: dispatch_route_def routes_def reply_def levelForStatus_def demo_request_def)
qed

section \<open>What the statuses mean\<close>

text \<open>The handler of \<^verbatim>\<open>POST /api/subscribe\<close> alone, wired to the use case.\<close>

lemma Handler_Subscribe_sound:
  fixes w :: "'x world"
  assumes "world_ok w" "quiet w" "healthy w"
    and H: "Handler_Subscribe (wired_handler p r u redis gh) rq w = (resp, w')"
  shows "if out_Status resp = 202
    then \<exists>sub email repo. unmarshal_strings [''email'', ''repo''] (in_Body rq) = Inr [email, repo] \<and>
      sub_at w (sub_ID sub) = None \<and> sub_at w' = (sub_at w)(sub_ID sub \<mapsto> sub) \<and>
      sub_Email sub = email \<and> sub_Repo sub = repo \<and> \<not> sub_Confirmed sub
    else out_Status resp \<in> {400, 404, 409, 429, 500} \<and> sub_at w' = sub_at w \<and> saga_at w' = saga_at w"
proof (cases "unmarshal_strings [''email'', ''repo''] (in_Body rq)")
  case (Inl e)
  then show ?thesis using H by (auto simp: Handler_Subscribe_def reply_def)
next
  case (Inr vs)
  then obtain email repo where vs: "vs = [email, repo]"
    by (auto simp: unmarshal_strings_def split: option.splits json.splits sum.splits)
  show ?thesis
  proof (cases "email = [] \<or> repo = []")
    case True
    then show ?thesis using H Inr vs by (auto simp: Handler_Subscribe_def reply_def)
  next
    case False
    obtain q w3 where q: "Subscribe (wired_subscribe p r u (wired_checker redis gh)) email repo w = (q, w3)"
      by fastforce
    have "w' = w3" "out_Status resp = 202 \<longleftrightarrow> q = None"
      "q \<noteq> None \<Longrightarrow> out_Status resp \<in> {400, 404, 409, 429, 500}"
      using H Inr vs False q
      by (auto simp: Handler_Subscribe_def reply_def wired_handler_def split: option.splits if_splits)
    then show ?thesis
      using Subscribe_success[OF assms(1,2)] Subscribe_failure[OF assms(1-3)] q Inr vs
      by (cases q) (simp, metis, simp)
  qed
qed

text \<open>
  C26 (functional). On a database that answers, with no other session interfering,
  \<^verbatim>\<open>POST /api/subscribe\<close> answers 202 only if a new unconfirmed subscription for the address and
  the repository of the body has been stored, and any other status (400, 404, 409, 429 or 500)
  only if subscriptions and sagas are exactly as they were. (The row of the repository may be new
  all the same: \<^verbatim>\<open>GetOrCreate\<close> stores it before the duplicate check and is not undone.)
\<close>

theorem subscribe_status_sound:
  fixes w :: "'x world"
  assumes "world_ok w" "quiet w" "healthy w"
    and "in_Method rq = ''POST''" "in_FullPath rq = ''/api/subscribe''"
    and "newRouter uuid_ok prom page (wired_handler p r u redis gh) rq w = (resp, w')"
  shows "if out_Status resp = 202
    then \<exists>sub email repo. unmarshal_strings [''email'', ''repo''] (in_Body rq) = Inr [email, repo] \<and>
      sub_at w (sub_ID sub) = None \<and> sub_at w' = (sub_at w)(sub_ID sub \<mapsto> sub) \<and>
      sub_Email sub = email \<and> sub_Repo sub = repo \<and> \<not> sub_Confirmed sub
    else out_Status resp \<in> {400, 404, 409, 429, 500} \<and> sub_at w' = sub_at w \<and> saga_at w' = saga_at w"
proof -
  obtain i w1 inner w2 where o1: "io_only w w1" "io_only w2 w'" "out_Status resp = out_Status inner"
    and d: "dispatch_route (routes uuid_ok prom page (wired_handler p r u redis gh))
      (rq\<lparr>in_ctxRequestID := i\<rparr>) w1 = (inner, w2)"
    using router_run[OF assms(6)] by blast
  note c = calm_others[OF assms(1,2) io_only_others[OF o1(1)]]
  have w1: "world_ok w1" "quiet w1" "healthy w1" "sub_at w1 = sub_at w" "saga_at w1 = saga_at w"
    using c assms(3) by (auto simp: calm_def)
  have w': "sub_at w' = sub_at w2" "saga_at w' = saga_at w2"
    using views_cong[OF io_only_world(1)[OF o1(2)]] by simp_all
  have "Handler_Subscribe (wired_handler p r u redis gh) (rq\<lparr>in_ctxRequestID := i\<rparr>) w1 = (inner, w2)"
    using d assms(4,5) by (simp add: dispatch_route_def routes_def)
  from Handler_Subscribe_sound[OF w1(1-3) this] show ?thesis
    unfolding w1(4,5) w' o1(3) by (simp cong: if_cong)
qed

theorem subscribe_status_sound_witness:
  "let (resp, w') = demo_router True (demo_request ''POST'' ''/api/subscribe''
     (marshal_strings [''email'', ''repo''] [''a@b.co'', ''golang/go''])) demo_empty
   in out_Status resp = 202 \<and> (\<exists>sub. sub_at w' (sub_ID sub) = Some sub \<and> sub_Email sub = ''a@b.co'')"
proof -
  let ?rq = "demo_request ''POST'' ''/api/subscribe'' (marshal_strings [''email'', ''repo''] [''a@b.co'', ''golang/go''])"
  obtain resp w' where run: "demo_router True ?rq demo_empty = (resp, w')" by fastforce
  have "out_Status (fst (demo_router True ?rq demo_empty)) = 202"
    "unmarshal_strings [''email'', ''repo''] (in_Body ?rq) = Inr [''a@b.co'', ''golang/go'']"
    "in_Method ?rq = ''POST''" "in_FullPath ?rq = ''/api/subscribe''"
    by code_simp+
  note e = this
  obtain sub where "sub_at w' = (sub_at demo_empty)(sub_ID sub \<mapsto> sub)" "sub_Email sub = ''a@b.co''"
    using subscribe_status_sound[OF demo_empty_ok e(3,4) run[unfolded demo_router_def]] e(1,2) run by auto
  then show ?thesis using run e(1) by (auto intro!: exI[of _ sub])
qed

text \<open>
  The router never looks at \<^verbatim>\<open>X-API-Key\<close>: for every route of the API the answer and
  the effect are the same whatever key the client sends, none included.
\<close>

lemma router_ignores_api_key:
  "in_FullPath rq \<noteq> ''/metrics'' \<longrightarrow>
   newRouter uuid_ok prom page h (rq\<lparr>in_Header := (in_Header rq)(''X-API-Key'' := key)\<rparr>) w =
   newRouter uuid_ok prom page h rq w"
proof
  assume route: "in_FullPath rq \<noteq> ''/metrics''"
  let ?k = "\<lambda>rq. rq\<lparr>in_Header := (in_Header rq)(''X-API-Key'' := key)\<rparr>"
  have h: "Handler_Subscribe h (?k rq) = Handler_Subscribe h rq" "Handler_Confirm uuid_ok h (?k rq) = Handler_Confirm uuid_ok h rq"
    "Handler_Unsubscribe uuid_ok h (?k rq) = Handler_Unsubscribe uuid_ok h rq"
    "Handler_GetSubscriptions h (?k rq) = Handler_GetSubscriptions h rq" for rq
    by (simp_all add: fun_eq_iff Handler_Subscribe_def Handler_Confirm_def Handler_Unsubscribe_def
        Handler_GetSubscriptions_def)
  have "dispatch_route (routes uuid_ok prom page h) (?k q) v = dispatch_route (routes uuid_ok prom page h) q v"
    if "in_FullPath q = in_FullPath rq" for q v
    using route that by (simp add: dispatch_route_def routes_def h)
  note same = this
  have swap: "rq\<lparr>in_Header := hd1, in_ctxRequestID := i\<rparr> = rq\<lparr>in_ctxRequestID := i, in_Header := hd1\<rparr>" for hd1 i
    by (cases rq) simp
  have "dispatch_route (routes uuid_ok prom page h)
      (rq\<lparr>in_Header := (in_Header rq)(''X-API-Key'' := key), in_ctxRequestID := i\<rparr>) v =
    dispatch_route (routes uuid_ok prom page h) (rq\<lparr>in_ctxRequestID := i\<rparr>) v" for i v
    unfolding swap using same[of "rq\<lparr>in_ctxRequestID := i\<rparr>" v] by simp
  then show "newRouter uuid_ok prom page h (?k rq) w = newRouter uuid_ok prom page h rq w"
    by (simp add: newRouter_def RequestID_def Logger_def Prometheus_def Let_def split_def WithRequestID_def)
qed

end
