(* ===== verification/Scanner.thy ===== *)
theory Scanner
  imports SubscribeRuns TokenTheorems
begin

text \<open>
  \<^verbatim>\<open>internal/release/app/scanner.go\<close>: one scan over the repositories that have confirmed
  subscribers, the handling of one repository's latest release, and the loop of \<^verbatim>\<open>Start\<close>, over
  the ports the scanner is built with; then the scanner wired to PostgreSQL, GitHub and the
  publisher.
\<close>

record 'w Scanner =
  sn_GetAllWithConfirmedSubscriptions :: "'w \<Rightarrow> (goerr + Repository list) \<times> 'w"
  sn_UpdateLastSeenTag :: "string \<Rightarrow> string \<Rightarrow> 'w \<Rightarrow> goerr option \<times> 'w"
  sn_GetConfirmedByRepoID :: "string \<Rightarrow> 'w \<Rightarrow> (goerr + Subscription list) \<times> 'w"
  sn_GetLatestRelease :: "string \<Rightarrow> string \<Rightarrow> 'w \<Rightarrow> (goerr + Release) \<times> 'w"
  sn_SendReleaseNotification ::
    "string \<Rightarrow> string \<Rightarrow> string \<Rightarrow> string \<Rightarrow> string \<Rightarrow> string \<Rightarrow> string \<Rightarrow> 'w \<Rightarrow> goerr option \<times> 'w"
  sn_baseURL :: string
  sn_interval :: int

definition unsubscribe_url :: "string \<Rightarrow> string \<Rightarrow> string" where
  "unsubscribe_url baseURL token = baseURL @ ''/api/unsubscribe/'' @ token"

text \<open>A failed notification is logged; the next subscriber gets its turn.\<close>

fun notify_subs :: "'w Scanner \<Rightarrow> Repository \<Rightarrow> Release \<Rightarrow> Subscription list \<Rightarrow> 'w \<Rightarrow> 'w" where
  "notify_subs s repo release [] w = w"
| "notify_subs s repo release (sub # subs) w =
     notify_subs s repo release subs
       (snd (sn_SendReleaseNotification s (sub_Email sub) (repo_FullName repo) (rel_TagName release)
         (rel_Name release) (rel_Body release) (rel_HTMLURL release)
         (unsubscribe_url (sn_baseURL s) (sub_UnsubscribeToken sub)) w))"

definition processRepo ::
    "('x, 'm) proc_scheme Scanner \<Rightarrow> Repository \<Rightarrow> Release \<Rightarrow> ('x, 'm) proc_scheme \<Rightarrow> ('x, 'm) proc_scheme" where
  "processRepo s repo release w =
     (case repo_LastSeenTag repo of
        None \<Rightarrow> snd (sn_UpdateLastSeenTag s (repo_ID repo) (rel_TagName release) w)
      | Some tag \<Rightarrow>
          (if tag = rel_TagName release then w
           else
             (let w1 = inc ReleasesDetectedTotal w in
              case sn_GetConfirmedByRepoID s (repo_ID repo) w1 of
                (Inl err, w2) \<Rightarrow> w2
              | (Inr subs, w2) \<Rightarrow>
                  snd (sn_UpdateLastSeenTag s (repo_ID repo) (rel_TagName release)
                    (notify_subs s repo release subs w2)))))"

text \<open>The loop of \<^verbatim>\<open>scan\<close>; the flag is false when it returned early.\<close>

fun scan_repos ::
    "('x, 'm) proc_scheme Scanner \<Rightarrow> Repository list \<Rightarrow> ('x, 'm) proc_scheme \<Rightarrow> bool \<times> ('x, 'm) proc_scheme" where
  "scan_repos s [] w = (True, w)"
| "scan_repos s (repo # repos) w =
     (case ctx_Err w of
        (True, w1) \<Rightarrow> (False, w1)
      | (False, w1) \<Rightarrow>
          (case strings_SplitN (repo_FullName repo) CHR ''/'' 2 of
             [owner, repoName] \<Rightarrow>
               (case sn_GetLatestRelease s owner repoName w1 of
                  (Inl err, w2) \<Rightarrow>
                    (if errors_Is err GithubErrRateLimit then (False, w2)
                     else scan_repos s repos w2)
                | (Inr release, w2) \<Rightarrow> scan_repos s repos (processRepo s repo release w2))
           | _ \<Rightarrow> scan_repos s repos w1))"

definition scan :: "('x, 'm) proc_scheme Scanner \<Rightarrow> ('x, 'm) proc_scheme \<Rightarrow> ('x, 'm) proc_scheme" where
  "scan s w =
     (let (start, w1) = time_Now w in
      case sn_GetAllWithConfirmedSubscriptions s w1 of
        (Inl err, w2) \<Rightarrow> inc (ScannerRunsTotal ''error'') w2
      | (Inr repos, w2) \<Rightarrow>
          (case scan_repos s repos w2 of
             (False, w3) \<Rightarrow> w3
           | (True, w3) \<Rightarrow>
               inc ScannerDuration (snd (time_Now (inc (ScannerRunsTotal ''success'') w3)))))"

definition Scanner_Start ::
    "('x, 'm) proc_scheme Scanner \<Rightarrow> loop_event list \<Rightarrow> ('x, 'm) proc_scheme \<Rightarrow>
     loop_end \<times> ('x, 'm) proc_scheme" where
  "Scanner_Start s es w =
     (if sn_interval s \<le> 0 then (Panicked, w) else ticker_loop (scan s) es (scan s w))"

section \<open>Wiring\<close>

definition wired_fetcher ::
    "time_codec \<Rightarrow> 'x redis_client option \<Rightarrow> 'x github_client \<Rightarrow> string \<Rightarrow> string \<Rightarrow>
     ('x, 'm) proc_scheme \<Rightarrow> (goerr + Release) \<times> ('x, 'm) proc_scheme" where
  "wired_fetcher tc redis gh =
     (case redis of None \<Rightarrow> GetLatestRelease tc gh
      | Some rc \<Rightarrow> Cached_GetLatestRelease tc rc (GetLatestRelease tc gh))"

definition wired_scanner ::
    "'x Publisher \<Rightarrow> string \<Rightarrow> int \<Rightarrow> time_codec \<Rightarrow> 'x redis_client option \<Rightarrow> 'x github_client \<Rightarrow>
     'x world Scanner" where
  "wired_scanner p baseURL interval tc redis gh =
     \<lparr>sn_GetAllWithConfirmedSubscriptions = GetAllWithConfirmedSubscriptions,
      sn_UpdateLastSeenTag = UpdateLastSeenTag, sn_GetConfirmedByRepoID = GetConfirmedByRepoID,
      sn_GetLatestRelease = wired_fetcher tc redis gh,
      sn_SendReleaseNotification = SendReleaseNotification p,
      sn_baseURL = baseURL, sn_interval = interval\<rparr>"

lemma wired_scanner_simps [simp]:
  "sn_GetAllWithConfirmedSubscriptions (wired_scanner p u k tc redis gh) = GetAllWithConfirmedSubscriptions"
  "sn_UpdateLastSeenTag (wired_scanner p u k tc redis gh) = UpdateLastSeenTag"
  "sn_GetConfirmedByRepoID (wired_scanner p u k tc redis gh) = GetConfirmedByRepoID"
  "sn_GetLatestRelease (wired_scanner p u k tc redis gh) = wired_fetcher tc redis gh"
  "sn_SendReleaseNotification (wired_scanner p u k tc redis gh) = SendReleaseNotification p"
  "sn_baseURL (wired_scanner p u k tc redis gh) = u" "sn_interval (wired_scanner p u k tc redis gh) = k"
  by (simp_all add: wired_scanner_def)

lemma wired_fetcher_frame:
  assumes "wired_fetcher tc redis gh a b v = (q, v')"
  shows "io_only v v'"
proof (cases redis)
  case None
  then show ?thesis using assms GetLatestRelease_frame by (simp add: wired_fetcher_def)
next
  case (Some rc)
  show ?thesis
    by (rule Cached_GetLatestRelease_frame[where inner = "GetLatestRelease tc gh" and redis = rc and tc = tc])
      (use assms Some GetLatestRelease_frame in \<open>auto simp: wired_fetcher_def\<close>)
qed

section \<open>What a publish does to the outside\<close>

definition publish_effect :: "'x Publisher \<Rightarrow> string \<Rightarrow> body \<Rightarrow> 'x \<Rightarrow> 'x" where
  "publish_effect p k b x =
     (case pub_ch p x of
        None \<Rightarrow> x
      | Some ch \<Rightarrow>
          (case ch_Publish ch ExchangeNotifications k True False b x of
             (Inl e, x1) \<Rightarrow> x1
           | (Inr tag, x1) \<Rightarrow> snd (ch_Wait ch tag x1)))"

lemma outside_publish: "outside (snd (publish p k b w)) = publish_effect p k b (outside w)"
  by (auto simp: publish_def publish_effect_def Let_def time_Now_def call_outside_def inc_def
      split: option.splits sum.splits prod.splits)

text \<open>The message one subscriber gets.\<close>

definition release_mail :: "string \<Rightarrow> Repository \<Rightarrow> Release \<Rightarrow> Subscription \<Rightarrow> ReleaseMessage" where
  "release_mail u repo rel sub =
     \<lparr>rm_To = sub_Email sub, rm_Repo = repo_FullName repo, rm_TagName = rel_TagName rel,
      rm_ReleaseName = rel_Name rel, rm_Body = rel_Body rel, rm_ReleaseURL = rel_HTMLURL rel,
      rm_UnsubscribeURL = u @ ''/api/unsubscribe/'' @ sub_UnsubscribeToken sub\<rparr>"

lemma notify_subs_wired:
  fixes w :: "'x world"
  shows "io_only w (notify_subs (wired_scanner p u k tc redis gh) repo rel subs w) \<and>
    outside (notify_subs (wired_scanner p u k tc redis gh) repo rel subs w) =
      fold (\<lambda>sub. publish_effect p RoutingKeyRelease (marshal_release (release_mail u repo rel sub)))
        subs (outside w)"
proof (induction subs arbitrary: w)
  case (Cons sub subs)
  let ?send = "SendReleaseNotification p (sub_Email sub) (repo_FullName repo) (rel_TagName rel) (rel_Name rel)
      (rel_Body rel) (rel_HTMLURL rel) (unsubscribe_url u (sub_UnsubscribeToken sub)) w"
  have f: "io_only w (snd ?send)"
    unfolding SendReleaseNotification_def by (metis prod.collapse publish_frame)
  have o: "outside (snd ?send) =
      publish_effect p RoutingKeyRelease (marshal_release (release_mail u repo rel sub)) (outside w)"
    unfolding SendReleaseNotification_def outside_publish release_mail_def unsubscribe_url_def ..
  show ?case using Cons.IH[of "snd ?send"] f o io_only_trans by auto
qed simp

end
