(* ===== verification/Dedupe.thy ===== *)
theory Dedupe
  imports World "HOL-Library.AList"
begin

text \<open>
  \<^verbatim>\<open>internal/notifier/adapter/grpcsrv/dedupe.go\<close>: the bounded, time-limited set of saga ids that
  the gRPC server and the RabbitMQ consumer of the notifier share. Every exported method holds
  the mutex throughout, so it is one step. The Go map is an association list with distinct
  keys; the order in which \<^verbatim>\<open>range\<close> visits it is not specified by the language, so it is a
  field, one permutation for each time the map is ranged over.

  \<open>node\<close> is the process of \<^verbatim>\<open>cmd/notifier\<close>: a process with this cache.
\<close>

section \<open>State\<close>

type_synonym entries = "(string \<times> int) list"

record Dedupe =
  dd_entries :: entries
  dd_max :: int
  dd_ttl :: int
  dd_order :: "nat \<Rightarrow> entries \<Rightarrow> entries"
  dd_ranges :: nat

record 'x node = "'x proc" +
  dedupe :: Dedupe

definition defaultDedupeMax :: int where "defaultDedupeMax = 10000"
definition defaultDedupeTTL :: int where "defaultDedupeTTL = Hour"

definition NewDedupe :: "(nat \<Rightarrow> entries \<Rightarrow> entries) \<Rightarrow> int \<Rightarrow> int \<Rightarrow> Dedupe" where
  "NewDedupe order maxSize ttl =
     \<lparr>dd_entries = [], dd_max = maxSize, dd_ttl = ttl, dd_order = order, dd_ranges = 0\<rparr>"

definition NewDefaultDedupe :: "(nat \<Rightarrow> entries \<Rightarrow> entries) \<Rightarrow> Dedupe" where
  "NewDefaultDedupe order = NewDedupe order defaultDedupeMax defaultDedupeTTL"

definition set_entries :: "entries \<Rightarrow> 'x node \<Rightarrow> 'x node" where
  "set_entries es w = w\<lparr>dedupe := (dedupe w)\<lparr>dd_entries := es\<rparr>\<rparr>"

section \<open>Operations\<close>

definition evictExpiredLocked :: "'x node \<Rightarrow> 'x node" where
  "evictExpiredLocked w =
     (let (now, w1) = time_Now w; cutoff = now - dd_ttl (dedupe w)
      in set_entries (filter (\<lambda>(k, t). \<not> t < cutoff) (dd_entries (dedupe w))) w1)"

text \<open>The loop of \<^verbatim>\<open>evictOldestLocked\<close>; \<open>None\<close> is \<^verbatim>\<open>first\<close>.\<close>

fun oldest :: "entries \<Rightarrow> (string \<times> int) option \<Rightarrow> (string \<times> int) option" where
  "oldest [] best = best"
| "oldest ((k, t) # es) best =
     oldest es (case best of None \<Rightarrow> Some (k, t) | Some (k', t') \<Rightarrow> if t < t' then Some (k, t) else best)"

definition evictOldestLocked :: "'x node \<Rightarrow> 'x node" where
  "evictOldestLocked w =
     (let d = dedupe w; w1 = w\<lparr>dedupe := d\<lparr>dd_ranges := Suc (dd_ranges d)\<rparr>\<rparr> in
      case oldest (dd_order d (dd_ranges d) (dd_entries d)) None of
        None \<Rightarrow> w1
      | Some (oldestKey, _) \<Rightarrow> set_entries (AList.delete oldestKey (dd_entries d)) w1)"

definition at_capacity :: "'x node \<Rightarrow> bool" where
  "at_capacity w \<longleftrightarrow> int (length (dd_entries (dedupe w))) \<ge> dd_max (dedupe w)"

definition insertLocked :: "string \<Rightarrow> 'x node \<Rightarrow> 'x node" where
  "insertLocked sagaID w =
     (let w1 = (if at_capacity w then evictExpiredLocked w else w);
          w2 = (if at_capacity w1 then evictOldestLocked w1 else w1);
          (now, w3) = time_Now w2
      in set_entries (AList.update sagaID now (dd_entries (dedupe w3))) w3)"

definition Mark :: "string \<Rightarrow> 'x node \<Rightarrow> 'x node" where
  "Mark sagaID w = insertLocked sagaID w"

definition TryClaim :: "string \<Rightarrow> 'x node \<Rightarrow> bool \<times> 'x node" where
  "TryClaim sagaID w =
     (case map_of (dd_entries (dedupe w)) sagaID of
        Some t \<Rightarrow>
          (let (now, w1) = time_Now w in
           if now - t \<le> dd_ttl (dedupe w) then (False, w1) else (True, insertLocked sagaID w1))
      | None \<Rightarrow> (True, insertLocked sagaID w))"

definition Release_claim :: "string \<Rightarrow> 'x node \<Rightarrow> 'x node" where
  "Release_claim sagaID w = set_entries (AList.delete sagaID (dd_entries (dedupe w))) w"

definition Seen :: "string \<Rightarrow> 'x node \<Rightarrow> bool \<times> 'x node" where
  "Seen sagaID w =
     (case map_of (dd_entries (dedupe w)) sagaID of
        None \<Rightarrow> (False, w)
      | Some t \<Rightarrow>
          (let (now, w1) = time_Now w in
           if now - t > dd_ttl (dedupe w)
           then (False, set_entries (AList.delete sagaID (dd_entries (dedupe w))) w1)
           else (True, w1)))"

section \<open>Frames\<close>

text \<open>The cache's operations change the clock's reading count and the cache; of the cache, never its bounds.\<close>

definition dd_upd :: "'x node \<Rightarrow> nat \<Rightarrow> entries \<Rightarrow> nat \<Rightarrow> 'x node" where
  "dd_upd w r es n = w\<lparr>clock_reads := r, dedupe := (dedupe w)\<lparr>dd_entries := es, dd_ranges := n\<rparr>\<rparr>"

definition dd_only :: "'x node \<Rightarrow> 'x node \<Rightarrow> bool" where
  "dd_only w v \<longleftrightarrow> (\<exists>r es n. clock_reads w \<le> r \<and> v = dd_upd w r es n)"

lemma dd_upd_upd: "dd_upd (dd_upd w r es n) r' es' n' = dd_upd w r' es' n'"
  by (simp add: dd_upd_def)

lemma dd_onlyD:
  assumes "dd_only w v"
  shows "clock v = clock w" "uuids v = uuids w" "uuid_reads v = uuid_reads w" "ctx_done v = ctx_done w"
    "ctx_reads v = ctx_reads w" "metrics v = metrics w" "outside v = outside w"
    "dd_max (dedupe v) = dd_max (dedupe w)" "dd_ttl (dedupe v) = dd_ttl (dedupe w)"
    "dd_order (dedupe v) = dd_order (dedupe w)" "clock_reads w \<le> clock_reads v"
  using assms by (auto simp: dd_only_def dd_upd_def)

lemma dd_only_refl [simp]: "dd_only w w"
proof -
  have "w = dd_upd w (clock_reads w) (dd_entries (dedupe w)) (dd_ranges (dedupe w))"
    by (simp add: dd_upd_def)
  then show ?thesis unfolding dd_only_def by blast
qed

lemma dd_only_trans [trans]:
  assumes "dd_only w v" "dd_only v x"
  shows "dd_only w x"
proof -
  obtain r es n r' es' n' where v: "clock_reads w \<le> r" "v = dd_upd w r es n"
    and x: "clock_reads v \<le> r'" "x = dd_upd v r' es' n'"
    using assms by (auto simp: dd_only_def)
  have "clock_reads v = r" by (simp add: v(2) dd_upd_def)
  then have "clock_reads w \<le> r' \<and> x = dd_upd w r' es' n'" using v x by (simp add: dd_upd_upd)
  then show ?thesis by (auto simp: dd_only_def)
qed

lemma dd_only_steps [simp]:
  "dd_only w (snd (time_Now w))" "dd_only w (set_entries es w)"
  "dd_only w (w\<lparr>dedupe := (dedupe w)\<lparr>dd_ranges := n\<rparr>\<rparr>)"
proof -
  have "snd (time_Now w) = dd_upd w (Suc (clock_reads w)) (dd_entries (dedupe w)) (dd_ranges (dedupe w))"
    "set_entries es w = dd_upd w (clock_reads w) es (dd_ranges (dedupe w))"
    "w\<lparr>dedupe := (dedupe w)\<lparr>dd_ranges := n\<rparr>\<rparr> = dd_upd w (clock_reads w) (dd_entries (dedupe w)) n"
    by (simp_all add: time_Now_def set_entries_def dd_upd_def)
  then show "dd_only w (snd (time_Now w))" "dd_only w (set_entries es w)"
    "dd_only w (w\<lparr>dedupe := (dedupe w)\<lparr>dd_ranges := n\<rparr>\<rparr>)"
    unfolding dd_only_def by (metis le_SucI order_refl)+
qed

lemma entries_set [simp]: "dd_entries (dedupe (set_entries es w)) = es"
  by (simp add: set_entries_def)

lemma entries_time [simp]: "dedupe (snd (time_Now w)) = dedupe w" "fst (time_Now w) = clock w (clock_reads w)"
  by (simp_all add: time_Now_def)

lemma dd_only_evict: "dd_only w (evictExpiredLocked w)" "dd_only w (evictOldestLocked w)"
  unfolding evictExpiredLocked_def evictOldestLocked_def
  by (auto simp: Let_def split_def intro: dd_only_trans[OF dd_only_steps(1) dd_only_steps(2)]
      dd_only_trans[OF dd_only_steps(3) dd_only_steps(2)] split: option.splits)

lemma dd_only_insert: "dd_only w (insertLocked i w)"
proof -
  let ?w1 = "if at_capacity w then evictExpiredLocked w else w"
  let ?w2 = "if at_capacity ?w1 then evictOldestLocked ?w1 else ?w1"
  have "dd_only w ?w1" by (simp add: dd_only_evict)
  also have "dd_only ?w1 ?w2" by (simp add: dd_only_evict)
  also have "dd_only ?w2 (insertLocked i w)"
    by (simp add: insertLocked_def Let_def split_def dd_only_trans[OF dd_only_steps(1) dd_only_steps(2)])
  finally show ?thesis .
qed

lemma dd_only_ops:
  "dd_only w (Mark i w)" "dd_only w (snd (TryClaim i w))" "dd_only w (Release_claim i w)"
  "dd_only w (snd (Seen i w))"
  using dd_only_insert dd_only_trans[OF dd_only_steps(1) dd_only_insert]
    dd_only_trans[OF dd_only_steps(1) dd_only_steps(2)]
  by (auto simp: Mark_def TryClaim_def Release_claim_def Seen_def split_def Let_def split: option.splits)

section \<open>What the operations do to the entries\<close>

definition order_ok :: "Dedupe \<Rightarrow> bool" where
  "order_ok d \<longleftrightarrow> (\<forall>n es. set (dd_order d n es) = set es)"

definition dedupe_ok :: "'x node \<Rightarrow> bool" where
  "dedupe_ok w \<longleftrightarrow> order_ok (dedupe w) \<and> distinct (map fst (dd_entries (dedupe w))) \<and>
     int (length (dd_entries (dedupe w))) \<le> max 1 (dd_max (dedupe w))"

lemma oldest_acc:
  "oldest es (Some (k, t)) = Some (k', t') \<Longrightarrow>
   (k', t') \<in> set ((k, t) # es) \<and> (\<forall>(j, s) \<in> set ((k, t) # es). t' \<le> s)"
proof (induction es arbitrary: k t)
  case (Cons e es)
  obtain j s where e: "e = (j, s)" by fastforce
  show ?case
  proof (cases "s < t")
    case True
    then show ?thesis using Cons.IH[of j s] Cons.prems by (auto simp: e)
  next
    case False
    then show ?thesis using Cons.IH[of k t] Cons.prems by (auto simp: e)
  qed
qed simp

lemma oldest_some: "oldest es (Some b) \<noteq> None"
  by (induction es arbitrary: b) (auto split: prod.splits)

lemma oldest_None: "oldest es None = None \<longleftrightarrow> es = []"
  using oldest_some by (cases es) (auto split: prod.splits)

lemma oldest_min:
  assumes "oldest es None = Some (k, t)"
  shows "(k, t) \<in> set es \<and> (\<forall>(j, s) \<in> set es. t \<le> s)"
proof (cases es)
  case (Cons e es')
  then show ?thesis using assms oldest_acc[of es' "fst e" "snd e" k t] by (cases e) simp
qed (use assms in simp)

lemma length_delete_key:
  "distinct (map fst es) \<Longrightarrow> k \<in> fst ` set es \<Longrightarrow> length (AList.delete k es) = length es - 1"
proof (induction es)
  case (Cons e es)
  show ?case
  proof (cases "fst e = k")
    case True
    then have "k \<notin> fst ` set es" using Cons.prems by auto
    then have "AList.delete k es = es" by (simp add: AList.delete_idem image_def)
    then show ?thesis using True by (simp add: AList.delete_eq split_def)
  next
    case False
    then have "length es > 0" using Cons.prems(2) by auto
    then show ?thesis using Cons False by (auto simp: AList.delete_eq split_def)
  qed
qed simp

lemma length_update: "length (AList.update k v es) \<le> Suc (length es)"
  by (induction es) auto

lemma distinct_filter_keys: "distinct (map fst es) \<Longrightarrow> distinct (map fst (filter P es))"
  by (rule distinct_map_filter)

lemma entries_evictExpired [simp]:
  "dd_entries (dedupe (evictExpiredLocked w)) =
   filter (\<lambda>(k, t). \<not> t < clock w (clock_reads w) - dd_ttl (dedupe w)) (dd_entries (dedupe w))"
  by (simp add: evictExpiredLocked_def Let_def split_def time_Now_def)

lemma entries_evictOldest:
  assumes "order_ok (dedupe w)"
  obtains (none) "dd_entries (dedupe w) = []" "dd_entries (dedupe (evictOldestLocked w)) = []"
  | (gone) k t where "(k, t) \<in> set (dd_entries (dedupe w))" "\<forall>(j, s) \<in> set (dd_entries (dedupe w)). t \<le> s"
      "dd_entries (dedupe (evictOldestLocked w)) = AList.delete k (dd_entries (dedupe w))"
proof -
  let ?es = "dd_entries (dedupe w)" and ?os = "dd_order (dedupe w) (dd_ranges (dedupe w)) (dd_entries (dedupe w))"
  have os: "set ?os = set ?es" using assms by (simp add: order_ok_def)
  show ?thesis
  proof (cases "oldest ?os None")
    case None
    then have "?es = []" using os by (simp add: oldest_None)
    then show ?thesis using none None by (simp add: evictOldestLocked_def Let_def)
  next
    case (Some b)
    obtain k t where b: "b = (k, t)" by fastforce
    show ?thesis
      using gone[of k t] oldest_min[OF Some[unfolded b]] Some b os by (simp add: evictOldestLocked_def Let_def)
  qed
qed

lemma evictOldest_filter:
  assumes "order_ok (dedupe w)"
  shows "\<exists>P. dd_entries (dedupe (evictOldestLocked w)) = filter P (dd_entries (dedupe w))"
  using assms by (cases rule: entries_evictOldest) (auto simp: AList.delete_eq)

lemma order_ok_dd_only: "dd_only w v \<Longrightarrow> order_ok (dedupe v) = order_ok (dedupe w)"
  by (simp add: order_ok_def dd_onlyD)

text \<open>The eviction of the oldest entry makes room, and what it removes is the oldest of a full cache.\<close>

lemma oldest_makes_room:
  assumes "order_ok (dedupe w)" "distinct (map fst (dd_entries (dedupe w)))"
    and "int (length (dd_entries (dedupe w))) \<le> max 1 (dd_max (dedupe w))"
  shows "int (length (dd_entries (dedupe (if at_capacity w then evictOldestLocked w else w)))) < max 1 (dd_max (dedupe w))"
proof (cases "at_capacity w")
  case True
  from assms(1) show ?thesis
  proof (cases rule: entries_evictOldest)
    case none
    then show ?thesis using True by simp
  next
    case (gone k t)
    let ?es = "dd_entries (dedupe w)"
    have "length (dd_entries (dedupe (evictOldestLocked w))) = length ?es - 1" "length ?es > 0"
      using length_delete_key[OF assms(2), of k] gone by (auto simp: rev_image_eqI)
    then show ?thesis using True assms(3) by simp
  qed
next
  case False
  then show ?thesis by (simp add: at_capacity_def)
qed

lemma oldest_is_lost:
  assumes "order_ok (dedupe w)" "distinct (map fst (dd_entries (dedupe w)))"
    and "(k, t) \<in> set (dd_entries (dedupe w))"
    and "(k, t) \<notin> set (dd_entries (dedupe (if at_capacity w then evictOldestLocked w else w)))"
  shows "dd_max (dedupe w) \<le> int (length (dd_entries (dedupe w))) \<and> (\<forall>(j, s) \<in> set (dd_entries (dedupe w)). t \<le> s)"
proof -
  have cap: "at_capacity w" using assms(3,4) by (auto split: if_splits)
  from assms(1) have "\<forall>(j, s) \<in> set (dd_entries (dedupe w)). t \<le> s"
  proof (cases rule: entries_evictOldest)
    case none
    then show ?thesis using assms(3) by simp
  next
    case (gone k' t')
    have "(k, t) \<notin> set (AList.delete k' (dd_entries (dedupe w)))" using gone(3) assms(4) cap by simp
    then have "k = k'" using assms(3) by (auto simp: AList.delete_eq)
    then have "t = t'" using eq_key_imp_eq_value[OF assms(2)] gone(1) assms(3) by blast
    then show ?thesis using gone(2) by simp
  qed
  then show ?thesis using cap by (simp add: at_capacity_def)
qed

text \<open>
  The three phases of an insertion: what is left of the entries before the new one is set. An
  entry is lost only if it has expired or is the oldest of a full cache's worth of entries.
\<close>

definition may_lose :: "'x node \<Rightarrow> string \<Rightarrow> int \<Rightarrow> bool" where
  "may_lose w k t \<longleftrightarrow> t < clock w (clock_reads w) - dd_ttl (dedupe w) \<or>
     (\<exists>fs. set fs \<subseteq> set (dd_entries (dedupe w)) \<and> distinct (map fst fs) \<and>
        dd_max (dedupe w) \<le> int (length fs) \<and> (k, t) \<in> set fs \<and> (\<forall>(j, s) \<in> set fs. t \<le> s))"

lemma expired_phase:
  fixes w :: "'x node"
  assumes "dedupe_ok w" "w1 = (if at_capacity w then evictExpiredLocked w else w)"
  shows "dd_only w w1" "order_ok (dedupe w1)" "set (dd_entries (dedupe w1)) \<subseteq> set (dd_entries (dedupe w))"
    and "distinct (map fst (dd_entries (dedupe w1)))" "int (length (dd_entries (dedupe w1))) \<le> max 1 (dd_max (dedupe w))"
    and "(k, t) \<in> set (dd_entries (dedupe w)) - set (dd_entries (dedupe w1)) \<Longrightarrow> may_lose w k t"
proof -
  let ?es = "dd_entries (dedupe w)" and ?e1 = "dd_entries (dedupe w1)"
  have d: "distinct (map fst ?es)" "order_ok (dedupe w)" "int (length ?es) \<le> max 1 (dd_max (dedupe w))"
    using assms(1) by (simp_all add: dedupe_ok_def)
  show d1: "dd_only w w1" unfolding assms(2) by (simp add: dd_only_evict)
  show "order_ok (dedupe w1)" using order_ok_dd_only[OF d1] d(2) by simp
  have e1: "?e1 = (if at_capacity w then filter (\<lambda>(k, t). \<not> t < clock w (clock_reads w) - dd_ttl (dedupe w)) ?es else ?es)"
    by (simp add: assms(2))
  show "set ?e1 \<subseteq> set ?es" "distinct (map fst ?e1)" unfolding e1 using d(1) by (auto intro: distinct_filter_keys)
  have "length ?e1 \<le> length ?es" unfolding e1 by simp
  then show "int (length ?e1) \<le> max 1 (dd_max (dedupe w))" using d(3) by linarith
  show "may_lose w k t" if "(k, t) \<in> set ?es - set ?e1"
    using that unfolding e1 may_lose_def by (auto split: if_splits)
qed

lemma insert_phases:
  assumes "dedupe_ok w"
  obtains es where
    "dd_entries (dedupe (insertLocked i w)) =
       AList.update i (clock w (clock_reads (insertLocked i w) - 1)) es"
    "set es \<subseteq> set (dd_entries (dedupe w))" "distinct (map fst es)"
    "clock_reads w < clock_reads (insertLocked i w)" "int (length es) < max 1 (dd_max (dedupe w))"
    "\<And>k t. (k, t) \<in> set (dd_entries (dedupe w)) - set es \<Longrightarrow> may_lose w k t"
proof -
  let ?w1 = "if at_capacity w then evictExpiredLocked w else w"
  let ?w2 = "if at_capacity ?w1 then evictOldestLocked ?w1 else ?w1"
  let ?es = "dd_entries (dedupe w)" and ?e1 = "dd_entries (dedupe ?w1)" and ?e2 = "dd_entries (dedupe ?w2)"
  note p = expired_phase[OF assms refl]
  have d2: "dd_only ?w1 ?w2" by (simp add: dd_only_evict)
  note D1 = dd_onlyD[OF p(1)] and D2 = dd_onlyD[OF d2]
  have reads: "clock_reads (insertLocked i w) = Suc (clock_reads ?w2)"
    by (simp add: insertLocked_def Let_def split_def time_Now_def set_entries_def)
  have ins: "dd_entries (dedupe (insertLocked i w)) =
      AList.update i (clock w (clock_reads (insertLocked i w) - 1)) ?e2"
    using D1(1) D2(1) unfolding reads
    by (simp add: insertLocked_def Let_def split_def time_Now_def set_entries_def)
  obtain P where "dd_entries (dedupe (evictOldestLocked ?w1)) = filter P ?e1"
    using evictOldest_filter[OF p(2)] by blast
  then have e2: "?e2 = (if at_capacity ?w1 then filter P ?e1 else ?e1)" by simp
  have s2: "set ?e2 \<subseteq> set ?e1" and k2: "distinct (map fst ?e2)"
    unfolding e2 using p(4) by (auto simp: distinct_filter_keys)
  have max1: "dd_max (dedupe ?w1) = dd_max (dedupe w)" by (rule D1(8))
  from oldest_makes_room[OF p(2,4)] p(5) have room: "int (length ?e2) < max 1 (dd_max (dedupe w))"
    unfolding max1 by blast
  have lost: "may_lose w k t" if kt: "(k, t) \<in> set ?es - set ?e2" for k t
  proof (cases "(k, t) \<in> set ?e1")
    case False
    then show ?thesis using kt p(6) by blast
  next
    case True
    then have "dd_max (dedupe w) \<le> int (length ?e1) \<and> (\<forall>(j, s) \<in> set ?e1. t \<le> s)"
      using oldest_is_lost[OF p(2,4) True] kt max1 by simp
    then show ?thesis using True p(3,4) unfolding may_lose_def by blast
  qed
  have h1: "set ?e2 \<subseteq> set ?es" using p(3) s2 by (rule order_trans[rotated])
  have h2: "clock_reads w < clock_reads (insertLocked i w)" using reads D1(11) D2(11) by linarith
  show ?thesis by (rule that[OF ins h1 k2 h2 room lost])
qed

end
