(* ===== verification/Mailer.thy ===== *)
theory Mailer
  imports Dedupe Retrier
begin

text \<open>
  The sending side of the notifier: \<^verbatim>\<open>internal/notifier/adapter/templates/renderer.go\<close>,
  \<^verbatim>\<open>internal/notifier/adapter/resend/sender.go\<close>, and the gRPC service of
  \<^verbatim>\<open>internal/notifier/adapter/grpcsrv\<close> with its validation interceptor. Parameters: executing an
  HTML template (\<^verbatim>\<open>html/template\<close> on the embedded files), the HTTP client, and
  \<^verbatim>\<open>protovalidate.Validate\<close>.
\<close>

section \<open>Rendering\<close>

definition renderTemplate :: "('d \<Rightarrow> goerr + string) \<Rightarrow> 'd \<Rightarrow> goerr + string" where
  "renderTemplate execute data =
     (case execute data of
        Inl err \<Rightarrow> Inl (Errorf ''render template'' err)
      | Inr buf \<Rightarrow> Inr buf)"

text \<open>The two templates, as what executing them gives.\<close>

record Renderer =
  rn_confirmTmpl :: "ConfirmData \<Rightarrow> goerr + string"
  rn_releaseTmpl :: "ReleaseData \<Rightarrow> goerr + string"

definition RenderConfirmation :: "Renderer \<Rightarrow> ConfirmData \<Rightarrow> goerr + string" where
  "RenderConfirmation r data = renderTemplate (rn_confirmTmpl r) data"

definition RenderRelease :: "Renderer \<Rightarrow> ReleaseData \<Rightarrow> goerr + string" where
  "RenderRelease r data = renderTemplate (rn_releaseTmpl r) data"

text \<open>
  The package's variables: the two templates are parsed into copies of the base template. The
  methods of \<^verbatim>\<open>html/template\<close> are the parameter; \<open>Inl\<close> is the value \<^verbatim>\<open>mustLoadTemplate\<close> or
  \<^verbatim>\<open>template.Must\<close> panics with, which ends the process before \<^verbatim>\<open>main\<close>.
\<close>

record 't template_lib =
  tl_ReadFile :: "string \<Rightarrow> goerr + string"
  tl_New :: "string \<Rightarrow> 't"
  tl_Clone :: "'t \<Rightarrow> goerr + 't"
  tl_Parse :: "'t \<Rightarrow> string \<Rightarrow> goerr + 't"
  tl_ExecuteConfirm :: "'t \<Rightarrow> ConfirmData \<Rightarrow> goerr + string"
  tl_ExecuteRelease :: "'t \<Rightarrow> ReleaseData \<Rightarrow> goerr + string"

definition mustLoadTemplate :: "'t template_lib \<Rightarrow> 't option \<Rightarrow> string \<Rightarrow> goerr + 't" where
  "mustLoadTemplate lib base path =
     (case tl_ReadFile lib path of
        Inl err \<Rightarrow> Inl (Opaque (''read template '' @ path @ '': '' @ error_text err))
      | Inr content \<Rightarrow>
          (case base of
             Some t \<Rightarrow> (case tl_Clone lib t of Inl err \<Rightarrow> Inl err | Inr t' \<Rightarrow> tl_Parse lib t' content)
           | None \<Rightarrow> tl_Parse lib (tl_New lib ''base'') content))"

definition NewRenderer :: "'t template_lib \<Rightarrow> goerr + Renderer" where
  "NewRenderer lib =
     (case mustLoadTemplate lib None ''templates/base.html'' of
        Inl p \<Rightarrow> Inl p
      | Inr baseTmpl \<Rightarrow>
          (case mustLoadTemplate lib (Some baseTmpl) ''templates/confirm.html'' of
             Inl p \<Rightarrow> Inl p
           | Inr confirmTmpl \<Rightarrow>
               (case mustLoadTemplate lib (Some baseTmpl) ''templates/release.html'' of
                  Inl p \<Rightarrow> Inl p
                | Inr releaseTmpl \<Rightarrow>
                    Inr \<lparr>rn_confirmTmpl = tl_ExecuteConfirm lib confirmTmpl,
                         rn_releaseTmpl = tl_ExecuteRelease lib releaseTmpl\<rparr>)))"

text \<open>With the embedded files readable, and an empty template cloned without error, only their parsing can fail.\<close>

lemma NewRenderer_panics:
  assumes "\<And>path. \<exists>content. tl_ReadFile lib path = Inr content" "\<And>t. tl_Clone lib t = Inr t"
    and "NewRenderer lib = Inl p"
  shows "\<exists>t content. tl_Parse lib t content = Inl p"
  using assms(3) assms(1)[of "''templates/base.html''"] assms(1)[of "''templates/confirm.html''"]
    assms(1)[of "''templates/release.html''"]
  by (auto simp: NewRenderer_def mustLoadTemplate_def assms(2) split: sum.splits)

section \<open>Sending through Resend\<close>

record mail_request =
  ml_url :: string
  ml_authorization :: string
  ml_from :: string
  ml_to :: "string list"
  ml_subject :: string
  ml_html :: string

record 'x mail_client =
  mc_BadURL :: "string \<Rightarrow> goerr option"
  mc_Do :: "mail_request \<Rightarrow> 'x \<Rightarrow> (goerr + nat) \<times> 'x"    \<comment> \<open>the status code of the response\<close>

record 'x Sender =
  sd_httpClient :: "'x mail_client"
  sd_apiURL :: string
  sd_apiKey :: string
  sd_from :: string
  sd_renderer :: Renderer

definition NewSender :: "'x mail_client \<Rightarrow> string \<Rightarrow> string \<Rightarrow> string \<Rightarrow> Renderer \<Rightarrow> 'x Sender" where
  "NewSender net apiKey sender apiURL r =
     \<lparr>sd_httpClient = net, sd_apiURL = apiURL, sd_apiKey = apiKey, sd_from = sender, sd_renderer = r\<rparr>"

definition send ::
    "'x Sender \<Rightarrow> string \<Rightarrow> string \<Rightarrow> string \<Rightarrow> ('x, 'm) proc_scheme \<Rightarrow>
     goerr option \<times> ('x, 'm) proc_scheme" where
  "send s to_addr subject htmlBody w =
     (case mc_BadURL (sd_httpClient s) (sd_apiURL s) of
        Some err \<Rightarrow> (Some (Errorf ''create resend request'' err), w)
      | None \<Rightarrow>
          (case call_outside (mc_Do (sd_httpClient s)
                  \<lparr>ml_url = sd_apiURL s, ml_authorization = ''Bearer '' @ sd_apiKey s,
                   ml_from = sd_from s, ml_to = [to_addr], ml_subject = subject, ml_html = htmlBody\<rparr>) w of
             (Inl err, w1) \<Rightarrow>
               (Some (Errorf ''send resend request'' (Join err (Sentinel ErrUpstreamUnavailable))), w1)
           | (Inr code, w1) \<Rightarrow>
               (if code \<ge> 500
                then (Some (Errorf (''resend returned status '' @ itoa code) (Sentinel ErrUpstreamUnavailable)), w1)
                else if code \<ge> 300 then (Some (Opaque (''resend returned status '' @ itoa code)), w1)
                else (None, w1))))"

definition Sender_SendConfirmation ::
    "'x Sender \<Rightarrow> string \<Rightarrow> ConfirmData \<Rightarrow> ('x, 'm) proc_scheme \<Rightarrow>
     goerr option \<times> ('x, 'm) proc_scheme" where
  "Sender_SendConfirmation s to_addr data w =
     (case RenderConfirmation (sd_renderer s) data of
        Inl err \<Rightarrow> (Some err, w)
      | Inr body \<Rightarrow>
          (case send s to_addr (''Confirm your subscription to '' @ cd_Repo data @ '' releases'') body w of
             (None, w1) \<Rightarrow> (None, inc (EmailsSentTotal ''confirmation'') w1)
           | (Some err, w1) \<Rightarrow> (Some err, inc (EmailSendErrorsTotal ''confirmation'') w1)))"

definition Sender_SendReleaseNotification ::
    "'x Sender \<Rightarrow> string \<Rightarrow> ReleaseData \<Rightarrow> ('x, 'm) proc_scheme \<Rightarrow>
     goerr option \<times> ('x, 'm) proc_scheme" where
  "Sender_SendReleaseNotification s to_addr data w =
     (case RenderRelease (sd_renderer s) data of
        Inl err \<Rightarrow> (Some err, w)
      | Inr body \<Rightarrow>
          (case send s to_addr (''['' @ rd_Repo data @ ''] New release: '' @ rd_TagName data) body w of
             (None, w1) \<Rightarrow> (None, inc (EmailsSentTotal ''release'') w1)
           | (Some err, w1) \<Rightarrow> (Some err, inc (EmailSendErrorsTotal ''release'') w1)))"

lemma send_frame: "send s a b c w = (r, w') \<Longrightarrow> io_only w w'"
  by (auto simp: send_def split: option.splits prod.splits sum.splits if_splits dest: io_only_calls(4))

lemma Sender_frames:
  "Sender_SendConfirmation s a d w = (r, w') \<Longrightarrow> io_only w w'"
  "Sender_SendReleaseNotification s a e w = (r, w') \<Longrightarrow> io_only w w'"
proof -
  have inc: "io_only w (inc m v)" if "send s a b c w = (x, v)" for b c m x v
    using io_only_trans[OF send_frame[OF that] io_only_basic(4)] .
  show "Sender_SendConfirmation s a d w = (r, w') \<Longrightarrow> io_only w w'"
    "Sender_SendReleaseNotification s a e w = (r, w') \<Longrightarrow> io_only w w'"
    using inc by (auto simp: Sender_SendConfirmation_def Sender_SendReleaseNotification_def
        split: sum.splits prod.splits option.splits)
qed

section \<open>The gRPC service\<close>

definition sendErrorToStatus :: "goerr \<Rightarrow> goerr" where
  "sendErrorToStatus err =
     (if errors_Is err CtxDeadlineExceeded
      then StatusError DeadlineExceeded (''send confirmation: '' @ error_text err)
      else if errors_Is err ErrUpstreamUnavailable
      then StatusError Unavailable (''send confirmation: '' @ error_text err)
      else StatusError Internal (''send confirmation: '' @ error_text err))"

text \<open>The server's \<^verbatim>\<open>dedupe\<close> is the cache of the node; \<^verbatim>\<open>sender\<close> is its port.\<close>

definition Server_SendConfirmation ::
    "(string \<Rightarrow> ConfirmData \<Rightarrow> 'x node \<Rightarrow> goerr option \<times> 'x node) \<Rightarrow>
     SendConfirmationRequest \<Rightarrow> 'x node \<Rightarrow> goerr option \<times> 'x node" where
  "Server_SendConfirmation sender req w =
     (case TryClaim (sr_SagaId req) w of
        (False, w1) \<Rightarrow> (None, w1)
      | (True, w1) \<Rightarrow>
          (case sender (sr_To req) \<lparr>cd_Repo = sr_Repo req, cd_ConfirmURL = sr_ConfirmUrl req\<rparr> w1 of
             (Some err, w2) \<Rightarrow> (Some (sendErrorToStatus err), Release_claim (sr_SagaId req) w2)
           | (None, w2) \<Rightarrow> (None, w2)))"

text \<open>The interceptor; every request of the service is a \<^verbatim>\<open>proto.Message\<close>.\<close>

definition ValidationUnaryInterceptor ::
    "(SendConfirmationRequest \<Rightarrow> string option) \<Rightarrow>
     (SendConfirmationRequest \<Rightarrow> 'w \<Rightarrow> goerr option \<times> 'w) \<Rightarrow>
     SendConfirmationRequest \<Rightarrow> 'w \<Rightarrow> goerr option \<times> 'w" where
  "ValidationUnaryInterceptor validate handler req w =
     (case validate req of
        Some violation \<Rightarrow> (Some (StatusError InvalidArgument violation), w)
      | None \<Rightarrow> handler req w)"

text \<open>The service as \<^verbatim>\<open>run\<close> of \<^verbatim>\<open>cmd/notifier/main.go\<close> registers it.\<close>

definition notifier_grpc ::
    "(SendConfirmationRequest \<Rightarrow> string option) \<Rightarrow> 'x Sender \<Rightarrow>
     SendConfirmationRequest \<Rightarrow> 'x node \<Rightarrow> goerr option \<times> 'x node" where
  "notifier_grpc validate s =
     ValidationUnaryInterceptor validate (Server_SendConfirmation (Sender_SendConfirmation s))"

section \<open>What a call does\<close>

lemma io_only_node:
  assumes "io_only w (v :: 'x node)"
  shows "dedupe v = dedupe w"
proof -
  let ?v = "rewind w v"
  have "?v = w" using assms by (simp add: io_only_def)
  moreover have "dedupe ?v = dedupe v" by (simp add: rewind_def)
  ultimately show ?thesis by simp
qed

lemma claim_granted:
  "TryClaim i w = (True, w1) \<Longrightarrow> dedupe_ok w \<Longrightarrow> map_of (dd_entries (dedupe w1)) i \<noteq> None"
proof -
  have set_i: "map_of (dd_entries (dedupe (insertLocked i v))) i \<noteq> None" for v :: "'a node"
    by (simp add: insertLocked_def Let_def split_def AList.update_conv' set_entries_def)
  show "TryClaim i w = (True, w1) \<Longrightarrow> dedupe_ok w \<Longrightarrow> map_of (dd_entries (dedupe w1)) i \<noteq> None"
    using set_i by (auto simp: TryClaim_def split_def Let_def split: option.splits if_splits)
qed

text \<open>What Resend answered to the one request of a send, and the error it becomes.\<close>

definition mail_of :: "'x Sender \<Rightarrow> string \<Rightarrow> string \<Rightarrow> string \<Rightarrow> mail_request" where
  "mail_of s to_addr repo html =
     \<lparr>ml_url = sd_apiURL s, ml_authorization = ''Bearer '' @ sd_apiKey s, ml_from = sd_from s,
      ml_to = [to_addr], ml_subject = ''Confirm your subscription to '' @ repo @ '' releases'', ml_html = html\<rparr>"

fun grpc_code_of :: "goerr + nat \<Rightarrow> grpc_code option" where
  "grpc_code_of (Inl err) = Some (if errors_Is err CtxDeadlineExceeded then DeadlineExceeded else Unavailable)"
| "grpc_code_of (Inr code) = (if code \<ge> 500 then Some Unavailable else if code \<ge> 300 then Some Internal else None)"

fun code_of :: "goerr option \<Rightarrow> grpc_code option" where
  "code_of (Some (StatusError c m)) = Some c"
| "code_of _ = None"

end
