(* ===== verification/Session.thy ===== *)
theory Session
  imports World Topology "HOL-Library.Word"
begin

text \<open>
  How the three AMQP clients (the publisher and the consumer of
  \<^verbatim>\<open>internal/notifier/adapter/rabbitmq\<close>, the replies consumer of
  \<^verbatim>\<open>internal/subscription/adapter/rabbitmq\<close>) open their connections, back off and reconnect. The
  AMQP library is a parameter: a record of the calls made on it, with connections and channels
  as handles.
\<close>

section \<open>Reconnect backoff\<close>

text \<open>A \<^verbatim>\<open>time.Duration\<close> is an \<^verbatim>\<open>int64\<close>, so doubling wraps; both packages have the same function.\<close>

type_synonym duration = "64 word"

definition initialReconnectBackoff :: duration where "initialReconnectBackoff = 500000000"
definition maxReconnectBackoff :: duration where "maxReconnectBackoff = 30000000000"

definition nextBackoff :: "duration \<Rightarrow> duration" where
  "nextBackoff cur =
     (let n = cur * 2 in if sint n > sint maxReconnectBackoff then maxReconnectBackoff else n)"

section \<open>Dialling\<close>

record 'x amqp_lib =
  lib_Dial :: "'x \<Rightarrow> (goerr + nat) \<times> 'x"
  lib_Channel :: "nat \<Rightarrow> 'x \<Rightarrow> (goerr + nat) \<times> 'x"
  lib_Declare :: "nat \<Rightarrow> amqp_op \<Rightarrow> 'x \<Rightarrow> goerr option \<times> 'x"
  lib_Qos :: "nat \<Rightarrow> nat \<Rightarrow> 'x \<Rightarrow> goerr option \<times> 'x"
  lib_Confirm :: "nat \<Rightarrow> 'x \<Rightarrow> goerr option \<times> 'x"
  lib_CloseChannel :: "nat \<Rightarrow> 'x \<Rightarrow> 'x"
  lib_CloseConn :: "nat \<Rightarrow> 'x \<Rightarrow> 'x"
  lib_Consume :: "nat \<Rightarrow> string \<Rightarrow> string \<Rightarrow> 'x \<Rightarrow> goerr option \<times> 'x"
  lib_Cancel :: "nat \<Rightarrow> string \<Rightarrow> 'x \<Rightarrow> 'x"

definition consumerPrefetch :: nat where "consumerPrefetch = 8"
definition repliesPrefetch :: nat where "repliesPrefetch = 8"

definition close_both :: "'x amqp_lib \<Rightarrow> nat \<times> nat \<Rightarrow> 'x \<Rightarrow> 'x" where
  "close_both lib s x = lib_CloseConn lib (fst s) (lib_CloseChannel lib (snd s) x)"

text \<open>
  The common part of the three \<^verbatim>\<open>dial\<close>s; \<open>last_step\<close> is what they do with the channel once the
  topology is declared, and \<open>what\<close> the prefix of its error.
\<close>

definition dial_with ::
    "(nat \<Rightarrow> 'x \<Rightarrow> goerr option \<times> 'x) \<Rightarrow> string \<Rightarrow> 'x amqp_lib \<Rightarrow> 'x \<Rightarrow> (goerr + nat \<times> nat) \<times> 'x" where
  "dial_with last_step what lib x =
     (case lib_Dial lib x of
        (Inl err, x1) \<Rightarrow> (Inl (Errorf ''dial rabbitmq'' err), x1)
      | (Inr conn, x1) \<Rightarrow>
          (case lib_Channel lib conn x1 of
             (Inl err, x2) \<Rightarrow> (Inl (Errorf ''open channel'' err), lib_CloseConn lib conn x2)
           | (Inr ch, x2) \<Rightarrow>
               (case Declare (lib_Declare lib ch) x2 of
                  (Some err, x3) \<Rightarrow> (Inl err, close_both lib (conn, ch) x3)
                | (None, x3) \<Rightarrow>
                    (case last_step ch x3 of
                       (Some err, x4) \<Rightarrow> (Inl (Errorf what err), close_both lib (conn, ch) x4)
                     | (None, x4) \<Rightarrow> (Inr (conn, ch), x4)))))"

definition Publisher_dial :: "'x amqp_lib \<Rightarrow> 'x \<Rightarrow> (goerr + nat \<times> nat) \<times> 'x" where
  "Publisher_dial lib = dial_with (lib_Confirm lib) ''enable publisher confirms'' lib"

definition Consumer_dial :: "'x amqp_lib \<Rightarrow> 'x \<Rightarrow> (goerr + nat \<times> nat) \<times> 'x" where
  "Consumer_dial lib = dial_with (\<lambda>ch. lib_Qos lib ch consumerPrefetch) ''set qos'' lib"

definition Replies_dial :: "'x amqp_lib \<Rightarrow> 'x \<Rightarrow> (goerr + nat \<times> nat) \<times> 'x" where
  "Replies_dial lib = dial_with (\<lambda>ch. lib_Qos lib ch repliesPrefetch) ''set qos'' lib"

text \<open>\<^verbatim>\<open>closeSession\<close>: the channel, then the connection, if there are any.\<close>

definition closeSession :: "'x amqp_lib \<Rightarrow> (nat \<times> nat) option \<Rightarrow> 'x \<Rightarrow> 'x" where
  "closeSession lib s x = (case s of None \<Rightarrow> x | Some p \<Rightarrow> close_both lib p x)"

section \<open>The reconnecting loop of the consumers\<close>

text \<open>
  \<^verbatim>\<open>Run\<close> of the two consumers, over what they dial with, their \<^verbatim>\<open>runSession\<close> and closing. The
  first argument bounds the number of iterations, of this loop and of the loops of a session; a
  session that is still waiting when they are used up has no result, and neither has \<^verbatim>\<open>Run\<close>. A
  look at \<^verbatim>\<open>ctx.Err()\<close>, and a \<^verbatim>\<open>select\<close> between \<^verbatim>\<open>ctx.Done()\<close> and a timer, reads the context. The
  result has the waits the loop started, in order. The function only ever returns nil.
\<close>

record ('s, 'w) client =
  cl_dial :: "'w \<Rightarrow> (goerr + 's) \<times> 'w"
  cl_session :: "nat \<Rightarrow> 's \<Rightarrow> 'w \<Rightarrow> (goerr option \<times> 'w) option"
  cl_close :: "'s \<Rightarrow> 'w \<Rightarrow> 'w"

fun run_top :: "nat \<Rightarrow> ('s, ('x, 'm) proc_scheme) client \<Rightarrow> 's option \<Rightarrow> duration \<Rightarrow> ('x, 'm) proc_scheme \<Rightarrow>
      (duration list \<times> ('x, 'm) proc_scheme) option"
  and run_dialing :: "nat \<Rightarrow> ('s, ('x, 'm) proc_scheme) client \<Rightarrow> duration \<Rightarrow> ('x, 'm) proc_scheme \<Rightarrow>
      (duration list \<times> ('x, 'm) proc_scheme) option"
  and run_connected :: "nat \<Rightarrow> ('s, ('x, 'm) proc_scheme) client \<Rightarrow> 's \<Rightarrow> duration \<Rightarrow> ('x, 'm) proc_scheme \<Rightarrow>
      (duration list \<times> ('x, 'm) proc_scheme) option" where
  "run_top 0 c s backoff w = None"
| "run_top (Suc n) c s backoff w =
     (case ctx_Err w of
        (True, w1) \<Rightarrow> Some ([], (case s of None \<Rightarrow> w1 | Some x \<Rightarrow> cl_close c x w1))
      | (False, w1) \<Rightarrow>
          (case s of None \<Rightarrow> run_dialing n c backoff w1 | Some x \<Rightarrow> run_connected n c x backoff w1))"
| "run_dialing 0 c backoff w = None"
| "run_dialing (Suc n) c backoff w =
     (case ctx_Err w of
        (True, w1) \<Rightarrow> Some ([], w1)
      | (False, w1) \<Rightarrow>
          (case cl_dial c w1 of
             (Inr x, w2) \<Rightarrow> run_connected n c x initialReconnectBackoff w2
           | (Inl err, w2) \<Rightarrow>
               (case ctx_Err w2 of
                  (True, w3) \<Rightarrow> Some ([backoff], w3)
                | (False, w3) \<Rightarrow>
                    map_option (\<lambda>(ds, v). (backoff # ds, v)) (run_dialing n c (nextBackoff backoff) w3))))"
| "run_connected 0 c x backoff w = None"
| "run_connected (Suc n) c x backoff w =
     (case cl_session c n x w of
        None \<Rightarrow> None
      | Some (err, w1) \<Rightarrow>
          (case ctx_Err w1 of
             (True, w2) \<Rightarrow> Some ([], cl_close c x w2)
           | (False, w2) \<Rightarrow> run_top n c None backoff (cl_close c x w2)))"

section \<open>Facts about the backoff\<close>

lemma nextBackoff_sint:
  assumes "0 \<le> sint cur" "sint cur \<le> 30000000000"
  shows "sint (nextBackoff cur) = min (sint cur * 2) 30000000000"
proof -
  have "sint (cur * 2) = sint cur * 2"
    using assms by (simp add: sint_word_ariths signed_take_bit_int_eq_self)
  then show ?thesis by (simp add: nextBackoff_def maxReconnectBackoff_def)
qed

lemma backoff_iterate:
  "sint ((nextBackoff ^^ n) initialReconnectBackoff) = min (500000000 * 2 ^ n) 30000000000"
proof (induction n)
  case 0
  show ?case by (simp add: initialReconnectBackoff_def)
next
  case (Suc n)
  have "(0::int) \<le> 500000000 * 2 ^ n" by simp
  then show ?case using nextBackoff_sint[of "(nextBackoff ^^ n) initialReconnectBackoff"] Suc by simp
qed

text \<open>The values the backoff takes.\<close>

abbreviation backoffs :: "duration set" where
  "backoffs \<equiv> range (\<lambda>n. (nextBackoff ^^ n) initialReconnectBackoff)"

lemma first_in_range: "initialReconnectBackoff \<in> backoffs"
  by (rule range_eqI[of _ _ 0]) simp

text \<open>
  A wait of the backoff: half a second doubled some number of times, but at most thirty seconds.
  The doubling of the 64-bit duration never wraps.
\<close>

definition backoff_wait :: "duration \<Rightarrow> bool" where
  "backoff_wait d \<longleftrightarrow> (\<exists>n. sint d = min (500 * Millisecond * 2 ^ n) (30 * Second))"

lemma backoff_waits: "b \<in> backoffs \<Longrightarrow> backoff_wait b"
  using backoff_iterate by (auto simp: backoff_wait_def duration_defs)

section \<open>No connection leaks from a failed dial\<close>

text \<open>
  \<open>traced lib\<close> behaves as \<open>lib\<close> and notes which handles it has opened and closed; \<open>leftover\<close> is
  what remains open.
\<close>

datatype handle = Conn nat | Chan nat
datatype handle_event = Opened handle | Closed handle

definition note_open :: "(nat \<Rightarrow> handle) \<Rightarrow> (goerr + nat) \<times> 'x \<Rightarrow> handle_event list \<Rightarrow>
    (goerr + nat) \<times> 'x \<times> handle_event list" where
  "note_open h r es = (case r of (Inl e, x) \<Rightarrow> (Inl e, x, es) | (Inr n, x) \<Rightarrow> (Inr n, x, es @ [Opened (h n)]))"

definition traced :: "'x amqp_lib \<Rightarrow> ('x \<times> handle_event list) amqp_lib" where
  "traced lib =
     \<lparr>lib_Dial = (\<lambda>(x, es). note_open Conn (lib_Dial lib x) es),
      lib_Channel = (\<lambda>c (x, es). note_open Chan (lib_Channel lib c x) es),
      lib_Declare = (\<lambda>ch op (x, es). let (r, x') = lib_Declare lib ch op x in (r, x', es)),
      lib_Qos = (\<lambda>ch k (x, es). let (r, x') = lib_Qos lib ch k x in (r, x', es)),
      lib_Confirm = (\<lambda>ch (x, es). let (r, x') = lib_Confirm lib ch x in (r, x', es)),
      lib_CloseChannel = (\<lambda>ch (x, es). (lib_CloseChannel lib ch x, es @ [Closed (Chan ch)])),
      lib_CloseConn = (\<lambda>c (x, es). (lib_CloseConn lib c x, es @ [Closed (Conn c)])),
      lib_Consume = (\<lambda>ch q t (x, es). let (r, x') = lib_Consume lib ch q t x in (r, x', es)),
      lib_Cancel = (\<lambda>ch t (x, es). (lib_Cancel lib ch t x, es))\<rparr>"

fun leftover :: "handle_event list \<Rightarrow> handle list" where
  "leftover [] = []"
| "leftover (Opened h # es) = (if Closed h \<in> set es then leftover es else h # leftover es)"
| "leftover (Closed h # es) = leftover es"

lemma run_ops_traced:
  "\<exists>r x'. run_ops (lib_Declare (traced lib) ch) ops (x, es) = (r, x', es)"
proof (induction ops arbitrary: x)
  case (Cons op ops)
  obtain what o1 where op: "op = (what, o1)" by fastforce
  obtain r x1 where "lib_Declare lib ch o1 x = (r, x1)" by fastforce
  then show ?case using Cons.IH[of x1] by (cases r) (simp_all add: op traced_def)
qed simp

lemma dial_leftover:
  assumes last: "\<And>ch x es. \<exists>r x'. last_step ch (x, es) = (r, x', es)"
    and run: "dial_with last_step what (traced lib) (x, []) = (r, x', es)"
  shows "leftover es = (case r of Inl _ \<Rightarrow> [] | Inr (c, h) \<Rightarrow> [Conn c, Chan h])"
proof -
  obtain d x1 where d: "lib_Dial lib x = (d, x1)" by fastforce
  show ?thesis
  proof (cases d)
    case (Inl e)
    then show ?thesis using run d by (auto simp: dial_with_def traced_def note_open_def)
  next
    case (Inr c)
    obtain h x2 where h: "lib_Channel lib c x1 = (h, x2)" by fastforce
    show ?thesis
    proof (cases h)
      case (Inl e)
      then show ?thesis using run d Inr h by (auto simp: dial_with_def traced_def note_open_def)
    next
      case (Inr k)
      obtain dr x3 where "run_ops (lib_Declare (traced lib) k) declare_ops (x2, [Opened (Conn c), Opened (Chan k)]) =
          (dr, x3, [Opened (Conn c), Opened (Chan k)])"
        using run_ops_traced[of lib k declare_ops x2 "[Opened (Conn c), Opened (Chan k)]"] by blast
      then have dr: "Declare (lib_Declare (traced lib) k) (x2, [Opened (Conn c), Opened (Chan k)]) =
          (dr, x3, [Opened (Conn c), Opened (Chan k)])"
        by (simp add: Declare_def)
      obtain lr x4 where lr: "last_step k (x3, [Opened (Conn c), Opened (Chan k)]) =
          (lr, x4, [Opened (Conn c), Opened (Chan k)])"
        using last by blast
      have t: "lib_Dial (traced lib) (x, []) = (Inr c, x1, [Opened (Conn c)])"
        "lib_Channel (traced lib) c (x1, [Opened (Conn c)]) = (Inr k, x2, [Opened (Conn c), Opened (Chan k)])"
        using d h \<open>d = Inr c\<close> Inr by (simp_all add: traced_def note_open_def)
      show ?thesis
        using run t dr lr
        by (cases dr; cases lr) (auto simp: dial_with_def close_both_def traced_def)
    qed
  qed
qed

text \<open>
  C32 (safety). None of the three dials leaks: whatever call of the AMQP library fails, a dial
  that returns an error has closed everything it opened, and one that succeeds has exactly the
  connection and the channel it returns open.
\<close>

theorem failed_dials_leak_nothing:
  assumes "dial \<in> {Publisher_dial (traced lib), Consumer_dial (traced lib), Replies_dial (traced lib)}"
    and "dial (x, []) = (r, x', es)"
  shows "leftover es = (case r of Inl _ \<Rightarrow> [] | Inr (c, h) \<Rightarrow> [Conn c, Chan h])"
proof -
  have confirm: "\<exists>r x'. lib_Confirm (traced lib) ch (x, es) = (r, x', es)" for ch x es
    by (auto simp: traced_def split: prod.splits)
  have qos: "\<exists>r x'. lib_Qos (traced lib) ch k (x, es) = (r, x', es)" for ch k x es
    by (auto simp: traced_def split: prod.splits)
  consider "dial = Publisher_dial (traced lib)" | "dial = Consumer_dial (traced lib)"
    | "dial = Replies_dial (traced lib)"
    using assms(1) by blast
  then show ?thesis
    using assms(2) dial_leftover[where last_step = "lib_Confirm (traced lib)", OF confirm]
      dial_leftover[where last_step = "\<lambda>ch. lib_Qos (traced lib) ch consumerPrefetch", OF qos]
      dial_leftover[where last_step = "\<lambda>ch. lib_Qos (traced lib) ch repliesPrefetch", OF qos]
    by cases (simp_all add: Publisher_dial_def Consumer_dial_def Replies_dial_def)
qed

text \<open>A library on a counter: handles are numbered, and call number \<open>bad\<close> fails.\<close>

definition counting_lib :: "nat \<Rightarrow> nat amqp_lib" where
  "counting_lib bad =
     (let try = (\<lambda>n. if n = bad then Some (Opaque ''refused'') else None);
          get = (\<lambda>n. (if n = bad then Inl (Opaque ''refused'') else Inr n, Suc n))
      in \<lparr>lib_Dial = get, lib_Channel = (\<lambda>c. get), lib_Declare = (\<lambda>ch op n. (try n, Suc n)),
          lib_Qos = (\<lambda>ch k n. (try n, Suc n)), lib_Confirm = (\<lambda>ch n. (try n, Suc n)),
          lib_CloseChannel = (\<lambda>ch n. n), lib_CloseConn = (\<lambda>c n. n),
          lib_Consume = (\<lambda>ch q t n. (try n, Suc n)), lib_Cancel = (\<lambda>ch t n. n)\<rparr>)"

theorem failed_dials_leak_nothing_witness:
  "let (r, x', es) = Consumer_dial (traced (counting_lib 4)) (0, [])
   in (\<exists>e. r = Inl e) \<and> es = [Opened (Conn 0), Opened (Chan 1), Closed (Chan 1), Closed (Conn 0)] \<and>
      leftover es = []"
proof -
  let ?d = "Consumer_dial (traced (counting_lib 4)) (0, [])"
  obtain r x' es where run: "?d = (r, x', es)" by (cases ?d) auto
  have "(case fst ?d of Inl _ \<Rightarrow> True | Inr _ \<Rightarrow> False)"
    "snd (snd ?d) = [Opened (Conn 0), Opened (Chan 1), Closed (Chan 1), Closed (Conn 0)]"
    by code_simp+
  then show ?thesis
    using run failed_dials_leak_nothing[where dial = "Consumer_dial (traced (counting_lib 4))", OF _ run]
    by (auto split: sum.splits)
qed

section \<open>The reconnecting loop ends exactly when it is cancelled\<close>

text \<open>
  What the loop relies on: dialling, a session and closing leave the process context alone (it
  is cancelled by somebody else) and may only look at it.
\<close>

definition ctx_kept :: "('x, 'm) proc_scheme \<Rightarrow> ('x, 'm) proc_scheme \<Rightarrow> bool" where
  "ctx_kept w v \<longleftrightarrow> ctx_done v = ctx_done w \<and> ctx_reads w \<le> ctx_reads v"

lemma ctx_kept_refl [simp]: "ctx_kept w w"
  by (simp add: ctx_kept_def)

lemma ctx_kept_trans [trans]: "ctx_kept w v \<Longrightarrow> ctx_kept v x \<Longrightarrow> ctx_kept w x"
  by (auto simp: ctx_kept_def)

lemma ctx_kept_simps [simp]:
  "ctx_kept w (snd (call_outside f w))" "ctx_kept w (inc m w)" "ctx_kept w (snd (time_Now w))"
  "ctx_kept w (snd (uuid_New w))" "ctx_kept w (snd (ctx_Err w))" "ctx_kept w (w\<lparr>outside := y\<rparr>)"
  by (simp_all add: ctx_kept_def call_outside_def inc_def time_Now_def uuid_New_def ctx_Err_def)

text \<open>A run that returned after it had seen the context done, every wait one of the backoff's.\<close>

definition cancelled_run :: "('x, 'm) proc_scheme \<Rightarrow> duration list \<times> ('x, 'm) proc_scheme \<Rightarrow> bool" where
  "cancelled_run w r \<longleftrightarrow> (\<exists>m. ctx_reads w \<le> m \<and> m < ctx_reads (snd r) \<and> ctx_done w m) \<and>
     set (fst r) \<subseteq> backoffs"

lemma cancelled_later: "ctx_kept w v \<Longrightarrow> cancelled_run v r \<Longrightarrow> cancelled_run w r"
  unfolding cancelled_run_def ctx_kept_def by (metis order_trans)

lemma cancelled_now:
  "ctx_kept w u \<Longrightarrow> ctx_Err u = (True, u') \<Longrightarrow> ctx_kept u' v \<Longrightarrow>
   set ds \<subseteq> backoffs \<Longrightarrow> cancelled_run w (ds, v)"
  by (fastforce simp: cancelled_run_def ctx_kept_def ctx_Err_def)

lemma next_in_range:
  "b \<in> backoffs \<Longrightarrow>
   nextBackoff b \<in> backoffs"
  using range_eqI[of _ "\<lambda>n. (nextBackoff ^^ n) initialReconnectBackoff" "Suc _"] by auto

definition cancelled_runs :: "('s, ('x, 'm) proc_scheme) client \<Rightarrow> nat \<Rightarrow> bool" where
  "cancelled_runs c n \<longleftrightarrow> (\<forall>b \<in> backoffs. \<forall>w r.
     (\<forall>s. run_top n c s b w = Some r \<longrightarrow> cancelled_run w r) \<and>
     (run_dialing n c b w = Some r \<longrightarrow> cancelled_run w r) \<and>
     (\<forall>x. run_connected n c x b w = Some r \<longrightarrow> cancelled_run w r))"

lemma cancelled_runsD:
  assumes "cancelled_runs c n" "b \<in> backoffs"
  shows "run_top n c s b w = Some r \<Longrightarrow> cancelled_run w r"
    and "run_dialing n c b w = Some r \<Longrightarrow> cancelled_run w r"
    and "run_connected n c x b w = Some r \<Longrightarrow> cancelled_run w r"
  using assms unfolding cancelled_runs_def by blast+

locale reconnecting =
  fixes c :: "('s, ('x, 'm) proc_scheme) client" and slack :: nat
  assumes dial_ctx: "cl_dial c w = (r, v) \<Longrightarrow> ctx_kept w v"
    and session_ctx: "cl_session c n s w = Some (e, v) \<Longrightarrow> ctx_kept w v"
    and session_returns: "\<forall>m\<ge>N. ctx_done w m \<Longrightarrow> N - ctx_reads w + slack < n \<Longrightarrow> cl_session c n s w \<noteq> None"
    and close_ctx: "ctx_kept w (cl_close c s w)"
begin

text \<open>
  Every iteration looks at the context once, so it meets the cancellation, and a session returns
  when the context is done.
\<close>

lemma ends:
  assumes "\<forall>m\<ge>N. ctx_done w m" "N - ctx_reads w + slack + 1 < n"
  shows "run_top n c s b w \<noteq> None" "run_dialing n c b w \<noteq> None" "run_connected n c x b w \<noteq> None"
proof -
  have "\<forall>m\<ge>N. ctx_done w m \<Longrightarrow> N - ctx_reads w + slack + 1 < n \<Longrightarrow>
      (\<forall>s b. run_top n c s b w \<noteq> None) \<and> (\<forall>b. run_dialing n c b w \<noteq> None) \<and>
      (\<forall>x b. run_connected n c x b w \<noteq> None)" for w
  proof (induction n arbitrary: w)
    case (Suc n)
    have onward: "(\<forall>s b. run_top n c s b v \<noteq> None) \<and> (\<forall>b. run_dialing n c b v \<noteq> None) \<and>
        (\<forall>x b. run_connected n c x b v \<noteq> None)"
      if "ctx_kept (snd (ctx_Err u)) v" "ctx_kept w u" "\<not> fst (ctx_Err u)" for u v
    proof -
      have u: "ctx_done u = ctx_done w" "ctx_reads w \<le> ctx_reads u" using that(2) by (simp_all add: ctx_kept_def)
      have "\<not> ctx_done w (ctx_reads u)" using that(3) u(1) by (simp add: ctx_Err_def)
      then have "ctx_reads u < N" using Suc.prems(1) not_le by blast
      moreover have "ctx_done v = ctx_done w" "Suc (ctx_reads u) \<le> ctx_reads v"
        using that(1) u by (simp_all add: ctx_kept_def ctx_Err_def)
      ultimately show ?thesis using Suc.IH[of v] Suc.prems u by simp
    qed
    have top: "run_top (Suc n) c s b w \<noteq> None" for s b
      using onward[of w "snd (ctx_Err w)"] by (auto split: prod.splits bool.splits option.splits)
    have dialing: "run_dialing (Suc n) c b w \<noteq> None" for b
    proof (cases "ctx_Err w")
      case (Pair dn w1)
      obtain r w2 where d: "cl_dial c w1 = (r, w2)" by fastforce
      note k = dial_ctx[OF d]
      have k1: "ctx_kept w w1" using ctx_kept_simps(5)[of w] Pair by simp
      show ?thesis
        using Pair d onward[of w w2] onward[of w2 "snd (ctx_Err w2)"] k ctx_kept_trans[OF k1 k]
        by (auto split: bool.splits sum.splits prod.splits) metis
    qed
    have connected: "run_connected (Suc n) c x b w \<noteq> None" for x b
    proof -
      have "N - ctx_reads w + slack < n" using Suc.prems(2) by simp
      from session_returns[OF Suc.prems(1) this]
      obtain e w1 where s: "cl_session c n x w = Some (e, w1)" by fastforce
      note k = session_ctx[OF s]
      show ?thesis
        using s onward[of w1 "cl_close c x (snd (ctx_Err w1))"] k close_ctx
        by (auto split: prod.splits bool.splits)
    qed
    show ?case using top dialing connected by blast
  qed simp
  then show "run_top n c s b w \<noteq> None" "run_dialing n c b w \<noteq> None" "run_connected n c x b w \<noteq> None"
    using assms by blast+
qed

text \<open>What is known of the runs with less fuel, and the three steps from it.\<close>

lemma top_cancelled:
  assumes less: "cancelled_runs c n" and b: "b \<in> backoffs" and run: "run_top (Suc n) c s b w = Some r"
  shows "cancelled_run w r"
proof -
  obtain dn w1 where e: "ctx_Err w = (dn, w1)" by fastforce
  have k1: "ctx_kept w w1" using ctx_kept_simps(5)[of w] e by simp
  show ?thesis
  proof (cases dn)
    case True
    then have "ctx_kept w1 (snd r)" "fst r = []"
      using run e close_ctx by (auto split: option.splits)
    then show ?thesis using cancelled_now[of w w w1 "snd r" "[]"] e True by (cases r) simp
  next
    case False
    then show ?thesis
      using run e cancelled_runsD[OF less b] cancelled_later[OF k1, of r]
      by (cases s; cases r) simp_all
  qed
qed

lemma dialing_cancelled:
  assumes less: "cancelled_runs c n" and b: "b \<in> backoffs" and run: "run_dialing (Suc n) c b w = Some r"
  shows "cancelled_run w r"
proof -
  obtain dn w1 where e: "ctx_Err w = (dn, w1)" by fastforce
  have k1: "ctx_kept w w1" using ctx_kept_simps(5)[of w] e by simp
  obtain q w2 where d: "cl_dial c w1 = (q, w2)" by fastforce
  note k2 = ctx_kept_trans[OF k1 dial_ctx[OF d]]
  obtain dn2 w3 where e2: "ctx_Err w2 = (dn2, w3)" by fastforce
  have k3: "ctx_kept w w3" using ctx_kept_trans[OF k2 ctx_kept_simps(5)[of w2]] e2 by simp
  consider (stopped) dn | (dialled) x where "\<not> dn" "q = Inr x"
    | (stops) err where "\<not> dn" "q = Inl err" dn2 | (waits) err where "\<not> dn" "q = Inl err" "\<not> dn2"
    by (cases q) blast+
  then show ?thesis
  proof cases
    case stopped
    then show ?thesis using run e cancelled_now[of w w w1 w1 "[]"] by simp
  next
    case (dialled x)
    then show ?thesis
      using run e d cancelled_runsD(3)[OF less first_in_range] cancelled_later[OF k2, of r] by simp
  next
    case (stops err)
    then show ?thesis using run e d e2 cancelled_now[OF k2, of w3 w3 "[b]"] b by simp
  next
    case (waits err)
    then obtain ds v where rest: "run_dialing n c (nextBackoff b) w3 = Some (ds, v)" "r = (b # ds, v)"
      using run e d e2 by auto
    have "cancelled_run w (ds, v)"
      using cancelled_later[OF k3] cancelled_runsD(2)[OF less next_in_range[OF b]] rest(1) by blast
    then show ?thesis using rest(2) b by (simp add: cancelled_run_def)
  qed
qed

lemma connected_cancelled:
  assumes less: "cancelled_runs c n" and b: "b \<in> backoffs" and run: "run_connected (Suc n) c x b w = Some r"
  shows "cancelled_run w r"
proof -
  obtain er u where s: "cl_session c n x w = Some (er, u)" using run by (auto split: option.splits)
  obtain dn2 u2 where e2: "ctx_Err u = (dn2, u2)" by fastforce
  note k = session_ctx[OF s]
  have k2: "ctx_kept w u2" using ctx_kept_trans[OF k ctx_kept_simps(5)[of u]] e2 by simp
  show ?thesis
  proof (cases dn2)
    case True
    then show ?thesis using run s e2 cancelled_now[OF k, of u2 "cl_close c x u2" "[]"] close_ctx by simp
  next
    case False
    then show ?thesis
      using run s e2 cancelled_runsD(1)[OF less b] cancelled_later[OF ctx_kept_trans[OF k2 close_ctx], of x r]
      by simp
  qed
qed

lemma all_cancelled: "cancelled_runs c n"
proof (induction n)
  case 0
  show ?case by (simp add: cancelled_runs_def)
next
  case (Suc n)
  show ?case
    unfolding cancelled_runs_def
    by (intro ballI allI conjI impI)
      (rule top_cancelled[OF Suc] dialing_cancelled[OF Suc] connected_cancelled[OF Suc]; assumption)+
qed

lemmas returns_cancelled = cancelled_runsD[OF all_cancelled]

end

end
