(* ===== verification/Consumer.thy ===== *)
theory Consumer
  imports Mailer Publisher Session
begin

text \<open>
  \<^verbatim>\<open>internal/notifier/adapter/rabbitmq/consumer.go\<close>: what the notifier does with one delivery,
  the retried publishing of saga replies, a session over the two queues, and the reconnecting
  loop around it. The process is a \<open>node\<close>. The two goroutines of a session handle one delivery at
  a time each; the model takes the deliveries of a session in one sequence. Every \<^verbatim>\<open>select\<close> of a
  session is a look at what is ready, so a session that has nothing to do waits.
\<close>

section \<open>Deliveries\<close>

text \<open>A delivery with its two settling calls, whose errors the code ignores; \<^verbatim>\<open>multiple\<close> is always false.\<close>

record 'x delivery =
  dl_RoutingKey :: string
  dl_Body :: body
  dl_Ack :: "'x \<Rightarrow> 'x"
  dl_Nack :: "bool \<Rightarrow> 'x \<Rightarrow> 'x"        \<comment> \<open>the flag is \<^verbatim>\<open>requeue\<close>\<close>

definition ack :: "'x delivery \<Rightarrow> ('x, 'm) proc_scheme \<Rightarrow> ('x, 'm) proc_scheme" where
  "ack d w = w\<lparr>outside := dl_Ack d (outside w)\<rparr>"

definition nack :: "bool \<Rightarrow> 'x delivery \<Rightarrow> ('x, 'm) proc_scheme \<Rightarrow> ('x, 'm) proc_scheme" where
  "nack requeue d w = w\<lparr>outside := dl_Nack d requeue (outside w)\<rparr>"

definition resultAck :: string where "resultAck = ''ack''"
definition resultNack :: string where "resultNack = ''nack''"
definition resultUnknown :: string where "resultUnknown = ''unknown''"

section \<open>Publishing a reply\<close>

definition replyPublishAttempts :: nat where "replyPublishAttempts = 5"
definition replyPublishInitialBackoff :: int where "replyPublishInitialBackoff = 200 * Millisecond"

text \<open>
  The loop with \<open>k\<close> attempts left and the last error. The result has the waits it started; the
  check of \<^verbatim>\<open>ctx.Err()\<close> and the \<^verbatim>\<open>select\<close> with the timer each read the context.
\<close>

fun reply_loop ::
    "(('x, 'm) proc_scheme \<Rightarrow> goerr option \<times> ('x, 'm) proc_scheme) \<Rightarrow> nat \<Rightarrow> int \<Rightarrow> goerr option \<Rightarrow>
     ('x, 'm) proc_scheme \<Rightarrow> (goerr option \<times> int list) \<times> ('x, 'm) proc_scheme" where
  "reply_loop pub 0 backoff lastErr w = ((lastErr, []), w)"
| "reply_loop pub (Suc k) backoff lastErr w =
     (case pub w of
        (None, w1) \<Rightarrow> ((None, []), w1)
      | (Some err, w1) \<Rightarrow>
          (case ctx_Err w1 of
             (True, w2) \<Rightarrow> ((Some err, []), w2)
           | (False, w2) \<Rightarrow>
               (if k = 0 then ((Some err, []), w2)
                else
                  (case ctx_Err w2 of
                     (True, w3) \<Rightarrow> ((Some err, [backoff]), w3)
                   | (False, w3) \<Rightarrow>
                       (case reply_loop pub k (backoff * 2) (Some err) w3 of
                          ((r, ds), w4) \<Rightarrow> ((r, backoff # ds), w4))))))"

definition publishReplyWithRetry ::
    "(('x, 'm) proc_scheme \<Rightarrow> goerr option \<times> ('x, 'm) proc_scheme) \<Rightarrow>
     ('x, 'm) proc_scheme \<Rightarrow> (goerr option \<times> int list) \<times> ('x, 'm) proc_scheme" where
  "publishReplyWithRetry pub w =
     reply_loop pub replyPublishAttempts replyPublishInitialBackoff None w"

section \<open>One delivery\<close>

text \<open>The ports of the consumer: \<^verbatim>\<open>Sender\<close>, \<^verbatim>\<open>ReplyPublisher\<close>, and \<^verbatim>\<open>Marker\<close>, which can be nil.\<close>

record 'w Consumer =
  co_SendConfirmation :: "string \<Rightarrow> ConfirmData \<Rightarrow> 'w \<Rightarrow> goerr option \<times> 'w"
  co_SendReleaseNotification :: "string \<Rightarrow> ReleaseData \<Rightarrow> 'w \<Rightarrow> goerr option \<times> 'w"
  co_PublishConfirmationSent :: "string \<Rightarrow> 'w \<Rightarrow> goerr option \<times> 'w"
  co_PublishConfirmationFailed :: "string \<Rightarrow> string \<Rightarrow> 'w \<Rightarrow> goerr option \<times> 'w"
  co_Mark :: "(string \<Rightarrow> 'w \<Rightarrow> 'w) option"
  co_consumerName :: string

definition dispatch ::
    "('x, 'm) proc_scheme Consumer \<Rightarrow> 'x delivery \<Rightarrow> ('x, 'm) proc_scheme \<Rightarrow> string \<times> ('x, 'm) proc_scheme" where
  "dispatch c d w =
     (if dl_RoutingKey d = RoutingKeyCmdSendConfirmation then
        (case unmarshal_command (dl_Body d) of
           Inl err \<Rightarrow> (resultNack, nack False d w)
         | Inr msg \<Rightarrow>
             (case co_SendConfirmation c (sc_To msg)
                     \<lparr>cd_Repo = sc_Repo msg, cd_ConfirmURL = sc_ConfirmURL msg\<rparr> w of
                (None, w1) \<Rightarrow>
                  (let w2 = (case co_Mark c of None \<Rightarrow> w1 | Some mark \<Rightarrow> mark (sc_SagaID msg) w1);
                       (replyErr, w3) = publishReplyWithRetry (co_PublishConfirmationSent c (sc_SagaID msg)) w2
                   in (resultAck, ack d w3))
              | (Some sendErr, w1) \<Rightarrow>
                  (let (replyErr, w2) = publishReplyWithRetry
                         (co_PublishConfirmationFailed c (sc_SagaID msg) (error_text sendErr)) w1
                   in (resultAck, ack d w2))))
      else if dl_RoutingKey d = RoutingKeyRelease then
        (case unmarshal_release (dl_Body d) of
           Inl err \<Rightarrow> (resultNack, nack False d w)
         | Inr msg \<Rightarrow>
             (case co_SendReleaseNotification c (rm_To msg)
                     \<lparr>rd_Repo = rm_Repo msg, rd_TagName = rm_TagName msg, rd_ReleaseName = rm_ReleaseName msg,
                      rd_Body = rm_Body msg, rd_ReleaseURL = rm_ReleaseURL msg,
                      rd_UnsubscribeURL = rm_UnsubscribeURL msg\<rparr> w of
                (Some err, w1) \<Rightarrow> (resultNack, nack False d w1)
              | (None, w1) \<Rightarrow> (resultAck, ack d w1)))
      else (resultUnknown, nack False d w))"

definition Consumer_handle ::
    "('x, 'm) proc_scheme Consumer \<Rightarrow> 'x delivery \<Rightarrow> ('x, 'm) proc_scheme \<Rightarrow> ('x, 'm) proc_scheme" where
  "Consumer_handle c d w =
     (let (start, w1) = time_Now w;
          (result, w2) = dispatch c d w1;
          w3 = snd (time_Now w2)
      in inc (RabbitMQMessagesConsumedTotal (dl_RoutingKey d) result)
           (inc (RabbitMQMessageProcessingDuration (dl_RoutingKey d)) w3))"

section \<open>A session and the reconnecting loop\<close>

definition sessionQueues :: "'w Consumer \<Rightarrow> (string \<times> string) list" where
  "sessionQueues c =
     [(QueueDeliveries, co_consumerName c @ ''.deliveries''),
      (QueueSagaCommands, co_consumerName c @ ''.commands'')]"

fun startConsumers ::
    "'x amqp_lib \<Rightarrow> nat \<Rightarrow> (string \<times> string) list \<Rightarrow> ('x, 'm) proc_scheme \<Rightarrow>
     goerr option \<times> ('x, 'm) proc_scheme" where
  "startConsumers lib ch [] w = (None, w)"
| "startConsumers lib ch ((queue, tag) # qs) w =
     (case call_outside (lib_Consume lib ch queue tag) w of
        (Some err, w1) \<Rightarrow> (Some (Errorf (''start consume '' @ quoted queue) err), w1)
      | (None, w1) \<Rightarrow> startConsumers lib ch qs w1)"

text \<open>
  What a look at the AMQP side of a \<^verbatim>\<open>select\<close> finds: nothing, a delivery, or that the session is
  over. The \<^verbatim>\<open>select\<close> must take \<^verbatim>\<open>ctx.Done()\<close> when that alone is ready; when a delivery or the end
  is ready as well, Go picks one at random. \<open>over\<close> is the number of times in a row that the pick
  goes against the context, any number.
\<close>

datatype ('x, 'e) ready = Quiet | Arrives "'x delivery" | Ends 'e

definition context_chosen :: "bool \<Rightarrow> nat \<Rightarrow> ('x, 'e) ready \<Rightarrow> bool" where
  "context_chosen dn over a =
     (dn \<and> (case a of Quiet \<Rightarrow> True | Arrives d \<Rightarrow> over = 0 | Ends e \<Rightarrow> over = 0))"

text \<open>What ends a session other than the context: the connection, or a deliveries channel.\<close>

datatype session_loss = LostConnection "goerr option" | LostQueue string

text \<open>
  The session until \<^verbatim>\<open>awaitSessionEnd\<close> has its answer, \<open>None\<close> for the context: the queues' goroutines
  take deliveries meanwhile. The first argument bounds the looks; without a result it still waits.
\<close>

fun await_end ::
    "nat \<Rightarrow> nat \<Rightarrow> ('x, 'm) proc_scheme Consumer \<Rightarrow> ('x \<Rightarrow> ('x, session_loss) ready \<times> 'x) \<Rightarrow>
     ('x, 'm) proc_scheme \<Rightarrow> (session_loss option \<times> ('x, 'm) proc_scheme) option" where
  "await_end 0 over c src w = None"
| "await_end (Suc n) over c src w =
     (case call_outside src w of
        (a, w1) \<Rightarrow>
          (case ctx_Err w1 of
             (dn, w2) \<Rightarrow>
               (if context_chosen dn over a then Some (None, w2)
                else (case a of
                    Quiet \<Rightarrow> await_end n over c src w2
                  | Arrives d \<Rightarrow> await_end n (if dn then over - 1 else over) c src (Consumer_handle c d w2)
                  | Ends e \<Rightarrow> Some (Some e, w2)))))"

definition awaitSessionEnd ::
    "'x amqp_lib \<Rightarrow> nat \<Rightarrow> (string \<times> string) list \<Rightarrow> session_loss option \<Rightarrow> ('x, 'm) proc_scheme \<Rightarrow>
     goerr option \<times> ('x, 'm) proc_scheme" where
  "awaitSessionEnd lib ch queues e w =
     (case e of
        None \<Rightarrow> (None, w\<lparr>outside := fold (\<lambda>q. lib_Cancel lib ch (snd q)) queues (outside w)\<rparr>)
      | Some (LostConnection None) \<Rightarrow> (Some (Sentinel ErrSessionEnded), w)
      | Some (LostConnection (Some amqErr)) \<Rightarrow> (Some (Errorf2 (Sentinel ErrSessionEnded) amqErr), w)
      | Some (LostQueue queue) \<Rightarrow>
          (Some (Errorf2 (Sentinel ErrSessionEnded) (Opaque (''deliveries channel closed for '' @ quoted queue))), w))"

text \<open>
  \<^verbatim>\<open>wg.Wait()\<close>: the goroutines end when they look at a \<^verbatim>\<open>sessionCtx\<close> that is done (\<open>cancelled\<close>); until
  then they take deliveries, and each delivery taken is finished.
\<close>

fun drain_queues ::
    "nat \<Rightarrow> nat \<Rightarrow> bool \<Rightarrow> ('x, 'm) proc_scheme Consumer \<Rightarrow> ('x \<Rightarrow> ('x, session_loss) ready \<times> 'x) \<Rightarrow>
     ('x, 'm) proc_scheme \<Rightarrow> ('x, 'm) proc_scheme option" where
  "drain_queues 0 over cancelled c src w = None"
| "drain_queues (Suc n) over cancelled c src w =
     (case call_outside src w of
        (a, w1) \<Rightarrow>
          (if context_chosen cancelled over a then Some w1
           else (case a of
               Arrives d \<Rightarrow> drain_queues n (over - 1) cancelled c src (Consumer_handle c d w1)
             | _ \<Rightarrow> drain_queues n (over - 1) cancelled c src w1)))"

text \<open>\<^verbatim>\<open>cancelSession()\<close> is the \<open>True\<close> that the draining gets.\<close>

definition Consumer_runSession ::
    "nat \<Rightarrow> ('x, 'm) proc_scheme Consumer \<Rightarrow> 'x amqp_lib \<Rightarrow> nat \<Rightarrow> ('x \<Rightarrow> ('x, session_loss) ready \<times> 'x) \<Rightarrow>
     nat \<Rightarrow> nat \<times> nat \<Rightarrow> ('x, 'm) proc_scheme \<Rightarrow> (goerr option \<times> ('x, 'm) proc_scheme) option" where
  "Consumer_runSession over c lib drains src n s w =
     (case startConsumers lib (snd s) (sessionQueues c) w of
        (Some err, w1) \<Rightarrow> Some (Some err, w1)
      | (None, w1) \<Rightarrow>
          (case await_end n over c src w1 of
             None \<Rightarrow> None
           | Some (e, w2) \<Rightarrow>
               (case awaitSessionEnd lib (snd s) (sessionQueues c) e w2 of
                  (sessErr, w3) \<Rightarrow>
                    (case drain_queues n drains True c src w3 of
                       None \<Rightarrow> None
                     | Some w4 \<Rightarrow>
                         (case ctx_Err w4 of
                            (cancelled, w5) \<Rightarrow> Some (if cancelled then None else sessErr, w5))))))"

definition consumer_client ::
    "nat \<Rightarrow> ('x, 'm) proc_scheme Consumer \<Rightarrow> 'x amqp_lib \<Rightarrow> nat \<Rightarrow> ('x \<Rightarrow> ('x, session_loss) ready \<times> 'x) \<Rightarrow>
     (nat \<times> nat, ('x, 'm) proc_scheme) client" where
  "consumer_client over c lib drains src =
     \<lparr>cl_dial = call_outside (Consumer_dial lib), cl_session = Consumer_runSession over c lib drains src,
      cl_close = (\<lambda>s w. w\<lparr>outside := close_both lib s (outside w)\<rparr>)\<rparr>"

text \<open>\<^verbatim>\<open>NewConsumer\<close> has dialled the first session \<open>s\<close>.\<close>

definition Consumer_Run ::
    "nat \<Rightarrow> nat \<Rightarrow> ('x, 'm) proc_scheme Consumer \<Rightarrow> 'x amqp_lib \<Rightarrow> nat \<Rightarrow> ('x \<Rightarrow> ('x, session_loss) ready \<times> 'x) \<Rightarrow>
     nat \<times> nat \<Rightarrow> ('x, 'm) proc_scheme \<Rightarrow> (duration list \<times> ('x, 'm) proc_scheme) option" where
  "Consumer_Run fuel over c lib drains src s w =
     run_top fuel (consumer_client over c lib drains src) (Some s) initialReconnectBackoff w"

section \<open>Wiring\<close>

text \<open>\<^verbatim>\<open>dialConsumerWithRetry(brokerURL, sender, replies, dedupe)\<close> in \<^verbatim>\<open>cmd/notifier/main.go\<close>.\<close>

definition wired_consumer :: "'x Sender \<Rightarrow> 'x Publisher \<Rightarrow> 'x node Consumer" where
  "wired_consumer s p =
     \<lparr>co_SendConfirmation = Sender_SendConfirmation s,
      co_SendReleaseNotification = Sender_SendReleaseNotification s,
      co_PublishConfirmationSent = PublishConfirmationSent p,
      co_PublishConfirmationFailed = PublishConfirmationFailed p,
      co_Mark = Some Mark, co_consumerName = ''notifier''\<rparr>"

end
