(* ===== verification/Replies.thy ===== *)
theory Replies
  imports Consumer SagaStore
begin

text \<open>
  \<^verbatim>\<open>internal/subscription/adapter/rabbitmq/replies_consumer.go\<close>: the consumer of the saga events
  in \<^verbatim>\<open>cmd/server\<close>, which turns the notifier's replies into calls on the orchestrator.
\<close>

text \<open>The port \<^verbatim>\<open>ReplyHandler\<close>.\<close>

record 'w RepliesConsumer =
  rc_HandleSent :: "string \<Rightarrow> 'w \<Rightarrow> goerr option \<times> 'w"
  rc_HandleFailed :: "string \<Rightarrow> string \<Rightarrow> 'w \<Rightarrow> goerr option \<times> 'w"
  rc_tag :: string

definition Replies_handle ::
    "('x, 'm) proc_scheme RepliesConsumer \<Rightarrow> 'x delivery \<Rightarrow> ('x, 'm) proc_scheme \<Rightarrow> ('x, 'm) proc_scheme" where
  "Replies_handle c d w =
     (if dl_RoutingKey d = RoutingKeyEventConfirmationSent then
        (case unmarshal_sent (dl_Body d) of
           Inl err \<Rightarrow> nack False d w
         | Inr ev \<Rightarrow>
             (case rc_HandleSent c (cs_SagaID ev) w of
                (Some err, w1) \<Rightarrow> nack True d w1
              | (None, w1) \<Rightarrow> ack d w1))
      else if dl_RoutingKey d = RoutingKeyEventConfirmationFailed then
        (case unmarshal_failed (dl_Body d) of
           Inl err \<Rightarrow> nack False d w
         | Inr ev \<Rightarrow>
             (case rc_HandleFailed c (cf_SagaID ev) (cf_Reason ev) w of
                (Some err, w1) \<Rightarrow> nack True d w1
              | (None, w1) \<Rightarrow> ack d w1))
      else nack False d w)"

text \<open>
  The loop of \<^verbatim>\<open>runSession\<close>: each look of its \<^verbatim>\<open>select\<close> finds \<^verbatim>\<open>ctx.Done()\<close> ready or not and, on the
  AMQP side, nothing, a delivery, or the deliveries channel closed. The first argument bounds the
  looks; without a result the loop still waits.
\<close>

fun replies_select ::
    "nat \<Rightarrow> nat \<Rightarrow> ('x, 'm) proc_scheme RepliesConsumer \<Rightarrow> 'x amqp_lib \<Rightarrow> ('x \<Rightarrow> ('x, unit) ready \<times> 'x) \<Rightarrow>
     nat \<Rightarrow> ('x, 'm) proc_scheme \<Rightarrow> (goerr option \<times> ('x, 'm) proc_scheme) option" where
  "replies_select 0 over c lib src ch w = None"
| "replies_select (Suc n) over c lib src ch w =
     (case call_outside src w of
        (a, w1) \<Rightarrow>
          (case ctx_Err w1 of
             (dn, w2) \<Rightarrow>
               (if context_chosen dn over a
                then Some (None, w2\<lparr>outside := lib_Cancel lib ch (rc_tag c) (outside w2)\<rparr>)
                else (case a of
                    Quiet \<Rightarrow> replies_select n over c lib src ch w2
                  | Arrives d \<Rightarrow>
                      replies_select n (if dn then over - 1 else over) c lib src ch (Replies_handle c d w2)
                  | Ends _ \<Rightarrow> Some (Some (Sentinel ErrRepliesChannelClosed), w2)))))"

definition Replies_runSession ::
    "nat \<Rightarrow> ('x, 'm) proc_scheme RepliesConsumer \<Rightarrow> 'x amqp_lib \<Rightarrow> ('x \<Rightarrow> ('x, unit) ready \<times> 'x) \<Rightarrow>
     nat \<Rightarrow> nat \<times> nat \<Rightarrow> ('x, 'm) proc_scheme \<Rightarrow> (goerr option \<times> ('x, 'm) proc_scheme) option" where
  "Replies_runSession over c lib src n s w =
     (case call_outside (lib_Consume lib (snd s) QueueSagaEvents (rc_tag c)) w of
        (Some err, w1) \<Rightarrow> Some (Some (Errorf ''start consume saga events'' err), w1)
      | (None, w1) \<Rightarrow> replies_select n over c lib src (snd s) w1)"

definition replies_client ::
    "nat \<Rightarrow> ('x, 'm) proc_scheme RepliesConsumer \<Rightarrow> 'x amqp_lib \<Rightarrow> ('x \<Rightarrow> ('x, unit) ready \<times> 'x) \<Rightarrow>
     (nat \<times> nat, ('x, 'm) proc_scheme) client" where
  "replies_client over c lib src =
     \<lparr>cl_dial = call_outside (Replies_dial lib), cl_session = Replies_runSession over c lib src,
      cl_close = (\<lambda>s w. w\<lparr>outside := close_both lib s (outside w)\<rparr>)\<rparr>"

definition Replies_Run ::
    "nat \<Rightarrow> nat \<Rightarrow> ('x, 'm) proc_scheme RepliesConsumer \<Rightarrow> 'x amqp_lib \<Rightarrow> ('x \<Rightarrow> ('x, unit) ready \<times> 'x) \<Rightarrow>
     nat \<times> nat \<Rightarrow> ('x, 'm) proc_scheme \<Rightarrow> (duration list \<times> ('x, 'm) proc_scheme) option" where
  "Replies_Run fuel over c lib src s w =
     run_top fuel (replies_client over c lib src) (Some s) initialReconnectBackoff w"

text \<open>\<^verbatim>\<open>NewRepliesConsumer(cfg.BrokerURL, svc.orchestrator)\<close> in \<^verbatim>\<open>cmd/server/main.go\<close>.\<close>

definition wired_replies :: "'x Publisher \<Rightarrow> 'x Retrier \<Rightarrow> string \<Rightarrow> 'x world RepliesConsumer" where
  "wired_replies p r baseURL =
     \<lparr>rc_HandleSent = HandleSent (wired p r baseURL), rc_HandleFailed = HandleFailed (wired p r baseURL),
      rc_tag = ''app.saga''\<rparr>"

end
