(* ===== verification/Frames.thy ===== *)
theory Frames
  imports HttpTheorems Scanner Replies
begin

text \<open>
  What a handler does follows from what its ports do: a relation between states that composes
  and that every port of a handler keeps is kept by the handler, on every path. One locale per
  handler states the ports it needs. \<open>ScannerTheorems\<close>, \<open>RepliesTheorems\<close> and \<open>Refinement\<close> instantiate \<open>R\<close>.
\<close>

section \<open>Relations that compose\<close>

locale kept =
  fixes R :: "'w \<Rightarrow> 'w \<Rightarrow> bool"
  assumes kept_refl: "R w w"
    and kept_trans: "R w w' \<Longrightarrow> R w' w'' \<Longrightarrow> R w w''"
begin

lemma kept_after: "f w = (r, w') \<Longrightarrow> (\<And>v. R v (snd (f v))) \<Longrightarrow> R w w'"
  by (metis snd_conv)

lemma kept_fold: "(\<And>x v. x \<in> set xs \<Longrightarrow> R v (f x v)) \<Longrightarrow> R w (fold f xs w)"
  by (induction xs arbitrary: w) (auto intro: kept_refl kept_trans)

lemma kept_ticker: "(\<And>v. R v (work v)) \<Longrightarrow> R w (snd (ticker_loop work es w))"
  by (induction work es w rule: ticker_loop.induct) (auto intro: kept_refl kept_trans)

end

text \<open>
  Over a process: \<open>kept_own\<close> also keeps the process's own readings and counters, \<open>kept_calls\<close> any change
  of the outside as well, and \<open>kept_io\<close> whatever leaves the database alone.
\<close>

locale kept_own = kept R for R :: "('x, 'm) proc_scheme \<Rightarrow> ('x, 'm) proc_scheme \<Rightarrow> bool" +
  assumes kept_now: "R w (snd (time_Now w))"
    and kept_err: "R w (snd (ctx_Err w))"
    and kept_uuid: "R w (snd (uuid_New w))"
    and kept_inc: "R w (inc m w)"

locale kept_calls = kept_own R for R :: "('x, 'm) proc_scheme \<Rightarrow> ('x, 'm) proc_scheme \<Rightarrow> bool" +
  assumes kept_outside: "R w (w\<lparr>outside := y\<rparr>)"
begin

lemma kept_call: "R w (snd (call_outside f w))"
  using kept_outside[of w] by (simp add: call_outside_def split_def)

lemma kept_settled: "R w (ack d w)" "R w (nack b d w)"
  by (simp_all add: ack_def nack_def kept_outside)

end

lemma io_only_outside: "io_only w (w\<lparr>outside := y\<rparr>)"
  by (simp add: io_only_def rewind_def)

locale kept_io = kept R for R :: "('x, 'm) proc_scheme \<Rightarrow> ('x, 'm) proc_scheme \<Rightarrow> bool" +
  assumes kept_io: "io_only w w' \<Longrightarrow> R w w'"

sublocale kept_io \<subseteq> kept_calls
  by unfold_locales (simp_all add: kept_io io_only_outside)

section \<open>The orchestrator and the sweeper\<close>

locale kept_compensation = kept R for R :: "'w \<Rightarrow> 'w \<Rightarrow> bool" +
  fixes oc :: "'w Orchestrator" and i :: string
  assumes kept_Get: "R w (snd (ss_Get (or_sagas oc) i w))"
    and kept_Compensated: "R w (snd (ss_MarkCompensated (or_sagas oc) i reason w))"
    and kept_Delete: "R w (snd (us_Delete (or_subs oc) j w))"
begin

lemma kept_HandleFailed: "R w (snd (HandleFailed oc i reason w))"
proof -
  obtain r w' where run: "HandleFailed oc i reason w = (r, w')" by fastforce
  then have "R w w'"
    by (cases rule: HandleFailed_path)
      (metis kept_Get kept_Delete kept_Compensated kept_trans snd_conv)+
  then show ?thesis using run by simp
qed

end

locale kept_publish = kept_compensation R oc i for R :: "'w \<Rightarrow> 'w \<Rightarrow> bool" and oc i +
  assumes kept_commands: "R w (snd (or_commands oc i to_addr repo url w))"
begin

lemma kept_Publish: "R w (snd (Publish oc i sub url w))"
proof -
  obtain x w1 where cmd: "or_commands oc i (sub_Email sub) (sub_Repo sub) url w = (x, w1)" by fastforce
  have "R w w1" using kept_commands[of w] cmd by (metis snd_conv)
  then show ?thesis
    using kept_trans kept_HandleFailed cmd by (auto simp: Publish_def Let_def split_def split: option.splits)
qed

end

text \<open>
  \<open>mailed w\<close>: what must hold where the saga is marked completed. A successful retry establishes it.
\<close>

locale kept_saga = kept_compensation R oc i for R :: "'w \<Rightarrow> 'w \<Rightarrow> bool" and oc i +
  fixes mailed :: "'w \<Rightarrow> bool"
  assumes kept_Completed: "mailed w \<Longrightarrow> R w (snd (ss_MarkCompleted (or_sagas oc) i w))"
    and kept_ByID: "R w (snd (us_GetByID (or_subs oc) j w))"
    and kept_retrier: "R w (snd (or_retrier oc i to_addr repo url w))"
    and retried: "or_retrier oc i to_addr repo url w = (None, w') \<Longrightarrow> mailed w'"
begin

lemma kept_HandleSent: "mailed w \<Longrightarrow> R w (snd (HandleSent oc i w))"
  using kept_Completed[of w] by (auto simp: HandleSent_def split: prod.splits option.splits)

lemma kept_AttemptSyncRetry: "R w (snd (AttemptSyncRetry oc i w))"
proof -
  obtain r w' where run: "AttemptSyncRetry oc i w = (r, w')" by fastforce
  then have "R w w'"
    by (cases rule: AttemptSyncRetry_path)
      (metis kept_Get kept_ByID kept_retrier kept_Completed retried kept_trans snd_conv)+
  then show ?thesis using run by simp
qed

end

locale kept_sweeper = kept R for R :: "'w \<Rightarrow> 'w \<Rightarrow> bool" +
  fixes sw :: "'w TimeoutSweeper"
  assumes kept_now: "R w (snd (sw_now sw w))"
    and kept_ctx: "R w (snd (sw_ctxErr sw w))"
    and kept_stuck: "R w (snd (sw_GetPendingOlderThan sw th w))"
    and kept_retry: "R w (snd (sw_AttemptSyncRetry sw k w))"
    and kept_failed: "R w (snd (sw_HandleFailed sw k reason w))"
begin

lemma kept_sweep_each: "R w (sweep_each sw stuck w)"
proof (induction stuck arbitrary: w)
  case (Cons s stuck)
  obtain d w1 where d: "sw_ctxErr sw w = (d, w1)" by fastforce
  obtain e w2 where e: "sw_AttemptSyncRetry sw (saga_ID s) w1 = (e, w2)" by fastforce
  have w1: "R w w1" using kept_ctx[of w] d by simp
  have w2: "R w w2" using kept_trans[OF w1] kept_retry[of w1] e by (metis snd_conv)
  show ?case
  proof (cases e)
    case None
    then show ?thesis using d e w1 kept_trans[OF w2 Cons.IH] by (cases d) simp_all
  next
    case (Some err)
    then show ?thesis
      using d e w1 kept_trans[OF kept_trans[OF w2 kept_failed] Cons.IH] by (cases d) simp_all
  qed
qed (simp add: kept_refl)

lemma kept_sweep: "R w (sweep sw w)"
proof -
  obtain t w1 where t: "sw_now sw w = (t, w1)" by fastforce
  obtain x w2 where x: "sw_GetPendingOlderThan sw (t - sw_timeout sw) w1 = (x, w2)" by fastforce
  have w1: "R w w1" using kept_now[of w] t by simp
  have w2: "R w w2" using kept_trans[OF w1] kept_stuck[of w1] x by (metis snd_conv)
  then show ?thesis
    using t x kept_trans[OF w2 kept_sweep_each] by (cases x) (simp_all add: sweep_def)
qed

lemma kept_Sweeper_Run: "R w (snd (Sweeper_Run sw es w))"
  unfolding Sweeper_Run_def
  using kept_refl kept_trans[OF kept_sweep kept_ticker[OF kept_sweep]] by simp

end

section \<open>The use cases\<close>

context kept_own
begin

lemma kept_entities: "R w (snd (NewSubscription e rid n w))" "R w (snd (NewSaga i w))"
proof -
  note t = kept_trans
  show "R w (snd (NewSubscription e rid n w))"
    unfolding NewSubscription_def Let_def split_def
    by (simp add: t[OF t[OF t[OF kept_uuid kept_uuid] kept_uuid] kept_now])
  show "R w (snd (NewSaga i w))"
    unfolding NewSaga_def Let_def split_def by (simp add: t[OF kept_uuid kept_now])
qed

end

text \<open>
  A new subscription is stored with its own saga: the pair is unconfirmed, pending, and for the
  address that was asked for.
\<close>

locale kept_subscribe = kept_own R for R :: "('x, 'm) proc_scheme \<Rightarrow> ('x, 'm) proc_scheme \<Rightarrow> bool" +
  fixes uc :: "('x, 'm) proc_scheme SubscribeUseCase" and email :: string
  assumes kept_CheckRepo: "R w (snd (uc_CheckRepo uc a b w))"
    and kept_GetOrCreate: "R w (snd (uc_GetOrCreate uc n w))"
    and kept_Exists: "R w (snd (uc_ExistsByEmailAndRepoID uc e rid w))"
    and kept_Create: "sub_Email sub = email \<Longrightarrow> \<not> sub_Confirmed sub \<Longrightarrow>
      saga_SubscriptionID s = sub_ID sub \<Longrightarrow> saga_State s = SagaStatePending \<Longrightarrow>
      R w (snd (uc_CreateWithSaga uc sub s w))"
    and kept_Publish: "R w (snd (uc_Publish uc k sub url w))"
begin

lemma kept_store:
  assumes sub: "NewSubscription email rid n w = (sub, w1)" and s: "NewSaga (sub_ID sub) w1 = (s, w2)"
    and create: "uc_CreateWithSaga uc sub s w2 = (r, w3)"
  shows "R w w3"
proof -
  have "R w w2" using kept_trans kept_entities sub s by (metis snd_conv)
  moreover have "R w2 (snd (uc_CreateWithSaga uc sub s w2))"
    by (rule kept_Create)
      (use sub s in \<open>auto simp: NewSubscription_def NewSaga_def uuid_New_def time_Now_def Let_def\<close>)
  ultimately show ?thesis using create kept_trans by (metis snd_conv)
qed

lemma kept_Subscribe: "R w (snd (Subscribe uc email repoName w))"
proof -
  obtain res w' where run: "Subscribe uc email repoName w = (res, w')" by fastforce
  note t = kept_trans
  have ck: "R w v" if "uc_CheckRepo uc a b w = (r, v)" for a b r v using kept_CheckRepo[of w a b] that by simp
  have gr: "R u v" if "uc_GetOrCreate uc n u = (r, v)" for n u r v using kept_GetOrCreate[of u n] that by simp
  have ex: "R u v" if "uc_ExistsByEmailAndRepoID uc e i u = (r, v)" for e i u r v
    using kept_Exists[of u e i] that by simp
  have pub: "R u v" if "uc_Publish uc k sub url u = (r, v)" for k sub url u r v
    using kept_Publish[of u k sub url] that by simp
  have store: "R v w'" if "Subscribe_store uc email q repoName v = (res, w')" for q v
    using that
  proof (cases rule: Subscribe_store_path)
    case (failed sub w1 s w2 err)
    then show ?thesis using kept_store by blast
  next
    case (stored sub w1 s w2 w3 e w4)
    have "R v w4" by (rule t[OF kept_store[OF stored(1-3)] pub[OF stored(4)]])
    then show ?thesis using stored(6) t[OF _ kept_inc] by auto
  qed
  show ?thesis
    using run
    by (cases rule: Subscribe_path) (auto simp: run kept_refl intro: ck t[OF ck gr] t[OF t[OF ck gr] ex]
        t[OF t[OF t[OF ck gr] ex] store])
qed

end

context kept_own
begin

text \<open>The use cases with one look-up and at most one write, and the listing.\<close>

lemma kept_Confirm_usecase:
  assumes "\<And>v. R v (snd (cf_GetByConfirmToken uc token v))" "\<And>i v. R v (snd (cf_Confirm uc i v))"
  shows "R w (snd (Confirm_usecase uc token w))"
proof -
  obtain x w1 where x: "cf_GetByConfirmToken uc token w = (x, w1)" by fastforce
  have w1: "R w w1" using assms(1)[of w] x by simp
  show ?thesis
    using x w1 kept_trans[OF w1 assms(2)] kept_trans[OF kept_trans[OF w1 assms(2)] kept_inc]
    by (cases x) (auto simp: Confirm_usecase_def split: option.splits prod.splits; metis snd_conv)+
qed

lemma kept_Unsubscribe_usecase:
  assumes "\<And>v. R v (snd (un_GetByUnsubscribeToken uc token v))" "\<And>i v. R v (snd (un_Delete uc i v))"
  shows "R w (snd (Unsubscribe_usecase uc token w))"
proof -
  obtain x w1 where x: "un_GetByUnsubscribeToken uc token w = (x, w1)" by fastforce
  have w1: "R w w1" using assms(1)[of w] x by simp
  show ?thesis
    using x w1 kept_trans[OF w1 assms(2)] kept_trans[OF kept_trans[OF w1 assms(2)] kept_inc]
    by (cases x) (auto simp: Unsubscribe_usecase_def split: option.splits prod.splits; metis snd_conv)+
qed

lemma kept_GetSubscriptions_usecase:
  assumes "\<And>e v. R v (snd (gs_GetByEmail uc e v))"
  shows "R w (snd (GetSubscriptions_usecase uc email w))"
  using assms[of w email] kept_refl by (auto simp: GetSubscriptions_usecase_def split: prod.splits sum.splits)

section \<open>The HTTP API\<close>

lemma kept_chain:
  assumes "\<And>i v. R v (snd (h (rq\<lparr>in_ctxRequestID := i\<rparr>) v))"
  shows "R w (snd (RequestID (Logger (Prometheus h)) rq w))"
proof -
  note t = kept_trans
  have p: "R v (snd (Prometheus h (rq\<lparr>in_ctxRequestID := i\<rparr>) v))" for i v
    unfolding Prometheus_def Let_def split_def
    by (simp add: t[OF t[OF t[OF t[OF kept_now assms] kept_now] kept_inc] kept_inc])
  have l: "R v (snd (Logger (Prometheus h) (rq\<lparr>in_ctxRequestID := i\<rparr>) v))" for i v
    unfolding Logger_def Let_def split_def by (simp add: t[OF t[OF kept_now p] kept_now])
  show ?thesis
    unfolding RequestID_def WithRequestID_def Let_def split_def by (simp add: l t[OF kept_uuid l])
qed

lemma kept_Handler_Subscribe:
  assumes "\<And>vs repo v. unmarshal_strings [''email'', ''repo''] (in_Body rq) = Inr vs \<Longrightarrow>
      R v (snd (h_subscriber h (nth_or_empty vs 0) repo v))"
  shows "R w (snd (Handler_Subscribe h rq w))"
proof (cases "unmarshal_strings [''email'', ''repo''] (in_Body rq)")
  case (Inr vs)
  have "R w v" if "h_subscriber h (nth_or_empty vs 0) repo w = (x, v)" for repo x v
    using assms[OF Inr, of w repo] that by simp
  then show ?thesis
    by (auto simp: Handler_Subscribe_def Inr Let_def kept_refl split: prod.splits option.splits)
qed (simp add: Handler_Subscribe_def kept_refl)

lemma kept_Handler_Confirm:
  assumes "\<And>token v. R v (snd (h_confirmer h token v))"
  shows "R w (snd (Handler_Confirm uuid_ok h rq w))"
proof -
  have "R w v" if "h_confirmer h token w = (x, v)" for token x v using assms[of w token] that by simp
  then show ?thesis by (auto simp: Handler_Confirm_def Let_def kept_refl split: prod.splits option.splits)
qed

lemma kept_Handler_Unsubscribe:
  assumes "\<And>token v. R v (snd (h_unsubscriber h token v))"
  shows "R w (snd (Handler_Unsubscribe uuid_ok h rq w))"
proof -
  have "R w v" if "h_unsubscriber h token w = (x, v)" for token x v using assms[of w token] that by simp
  then show ?thesis by (auto simp: Handler_Unsubscribe_def Let_def kept_refl split: prod.splits option.splits)
qed

lemma kept_Handler_GetSubscriptions:
  assumes "\<And>email v. R v (snd (h_subscriptionLister h email v))"
  shows "R w (snd (Handler_GetSubscriptions h rq w))"
proof -
  have "R w v" if "h_subscriptionLister h email w = (x, v)" for email x v using assms[of w email] that by simp
  then show ?thesis by (auto simp: Handler_GetSubscriptions_def Let_def kept_refl split: prod.splits sum.splits)
qed

text \<open>A request reaches at most the use case of its own route.\<close>

lemma kept_route:
  assumes "\<And>vs repo v. in_Method rq = ''POST'' \<Longrightarrow> in_FullPath rq = ''/api/subscribe'' \<Longrightarrow>
      unmarshal_strings [''email'', ''repo''] (in_Body rq) = Inr vs \<Longrightarrow>
      R v (snd (h_subscriber h (nth_or_empty vs 0) repo v))"
    and "\<And>token v. in_Method rq = ''GET'' \<Longrightarrow> in_FullPath rq = ''/api/confirm/:token'' \<Longrightarrow> R v (snd (h_confirmer h token v))"
    and "\<And>token v. in_Method rq = ''GET'' \<Longrightarrow> in_FullPath rq = ''/api/unsubscribe/:token'' \<Longrightarrow>
      R v (snd (h_unsubscriber h token v))"
    and "\<And>email v. R v (snd (h_subscriptionLister h email v))" "\<And>v. R v (snd (prom rq v))"
  shows "R w (snd (dispatch_route (routes uuid_ok prom page h) rq w))"
  using assms unfolding dispatch_route_def routes_def
  by (auto simp: kept_refl split: option.splits intro!: kept_Handler_Subscribe kept_Handler_Confirm
      kept_Handler_Unsubscribe kept_Handler_GetSubscriptions)

lemma kept_router:
  assumes "\<And>i v. R v (snd (dispatch_route (routes uuid_ok prom page h) (rq\<lparr>in_ctxRequestID := i\<rparr>) v))"
  shows "R w (snd (newRouter uuid_ok prom page h rq w))"
  unfolding newRouter_def by (rule kept_chain) (rule assms)

end

section \<open>Deliveries of replies\<close>

context kept_own
begin

lemma kept_Replies_handle:
  assumes "\<And>i. dl_RoutingKey d = RoutingKeyEventConfirmationSent \<Longrightarrow>
      unmarshal_sent (dl_Body d) = Inr \<lparr>cs_SagaID = i\<rparr> \<Longrightarrow> R w (snd (rc_HandleSent c i w))"
    and "\<And>i reason. dl_RoutingKey d = RoutingKeyEventConfirmationFailed \<Longrightarrow>
      unmarshal_failed (dl_Body d) = Inr \<lparr>cf_SagaID = i, cf_Reason = reason\<rparr> \<Longrightarrow>
      R w (snd (rc_HandleFailed c i reason w))"
    and settle: "\<And>v. R v (ack d v)" "\<And>b v. R v (nack b d v)"
  shows "R w (Replies_handle c d w)"
proof -
  have s: "R w (ack d v)" "R w (nack b d v)" if "R w v" for v b
    using kept_trans[OF that] settle by blast+
  have sent: "R w v" if "dl_RoutingKey d = RoutingKeyEventConfirmationSent"
    "unmarshal_sent (dl_Body d) = Inr ev" "rc_HandleSent c (cs_SagaID ev) w = (x, v)" for ev x v
    using assms(1)[of "cs_SagaID ev"] that by simp
  have failed: "R w v" if "dl_RoutingKey d = RoutingKeyEventConfirmationFailed"
    "unmarshal_failed (dl_Body d) = Inr ev" "rc_HandleFailed c (cf_SagaID ev) (cf_Reason ev) w = (x, v)" for ev x v
    using assms(2)[of "cf_SagaID ev" "cf_Reason ev"] that by simp
  show ?thesis
    by (auto simp: Replies_handle_def settle split: sum.splits prod.splits option.splits
        intro!: s intro: sent failed)
qed

end

section \<open>The scanner\<close>

locale kept_scanner = kept_own R for R :: "('x, 'm) proc_scheme \<Rightarrow> ('x, 'm) proc_scheme \<Rightarrow> bool" +
  fixes sn :: "('x, 'm) proc_scheme Scanner"
  assumes kept_repos: "R w (snd (sn_GetAllWithConfirmedSubscriptions sn w))"
    and kept_tag: "R w (snd (sn_UpdateLastSeenTag sn i tag w))"
    and kept_audience: "R w (snd (sn_GetConfirmedByRepoID sn i w))"
    and kept_latest: "R w (snd (sn_GetLatestRelease sn a b w))"
    and kept_send: "R w (snd (sn_SendReleaseNotification sn a b t n bd u x w))"
begin

lemma kept_notify_subs: "R w (notify_subs sn repo rel subs w)"
  by (induction subs arbitrary: w) (auto intro: kept_refl kept_trans kept_send)

lemma kept_processRepo: "R w (processRepo sn repo rel w)"
proof -
  obtain x w2 where x: "sn_GetConfirmedByRepoID sn (repo_ID repo) (inc ReleasesDetectedTotal w) = (x, w2)" by fastforce
  have w2: "R w w2"
    using kept_trans[OF kept_inc] kept_audience[of "inc ReleasesDetectedTotal w"] x by (metis snd_conv)
  show ?thesis
    using x w2 kept_trans[OF kept_trans[OF w2 kept_notify_subs] kept_tag]
    by (cases x) (auto simp: processRepo_def Let_def kept_tag kept_refl split: option.splits)
qed

lemma kept_scan_repos: "R w (snd (scan_repos sn repos w))"
proof (induction repos arbitrary: w)
  case (Cons repo repos)
  obtain d w1 where d: "ctx_Err w = (d, w1)" by fastforce
  have w1: "R w w1" using kept_err[of w] d by simp
  have step: "R w v" if "sn_GetLatestRelease sn a b w1 = (x, v)" for a b x v
    using kept_trans[OF w1 kept_latest[of w1 a b]] that by simp
  have rest: "R w v" if "scan_repos sn repos u = (x, v)" "R w u" for u x v
    using kept_trans[OF that(2) Cons.IH] that(1) by (metis snd_conv)
  show ?case
    by (auto simp: d w1 split: bool.splits list.splits prod.splits sum.splits
        intro!: kept_trans[OF w1 Cons.IH] intro: step kept_trans[OF kept_trans[OF step kept_processRepo] Cons.IH]
          kept_trans[OF step Cons.IH])
qed (simp add: kept_refl)

lemma kept_scan: "R w (scan sn w)"
proof -
  obtain t w1 where t: "time_Now w = (t, w1)" by fastforce
  obtain x w2 where x: "sn_GetAllWithConfirmedSubscriptions sn w1 = (x, w2)" by fastforce
  have w2: "R w w2" using kept_trans kept_now[of w] kept_repos[of w1] t x by (metis snd_conv)
  have w3: "R w v" if "scan_repos sn repos w2 = (b, v)" for repos b v
    using kept_trans[OF w2 kept_scan_repos] that by (metis snd_conv)
  have last: "R w (inc m v)" "R w (inc m (snd (time_Now (inc m' v))))" if "R w v" for m m' v
    using kept_trans[OF that] kept_trans[OF kept_trans] kept_inc kept_now by blast+
  show ?thesis
    by (auto simp: scan_def t x split: sum.splits prod.splits bool.splits intro!: last intro: w2 w3)
qed

lemma kept_Scanner_Start: "R w (snd (Scanner_Start sn es w))"
  unfolding Scanner_Start_def
  using kept_refl kept_trans[OF kept_scan kept_ticker[OF kept_scan]] by simp

end

section \<open>The notifier's consumer\<close>

context kept_calls
begin

lemma kept_Sender:
  "R w (snd (Sender_SendConfirmation s a cd w))"
  "R w (snd (Sender_SendReleaseNotification s a rd w))"
proof -
  have call: "R w v" if "call_outside f w = (r, v)" for f r v using kept_call[of w f] that by simp
  have send: "R w v" if "send s a b h w = (r, v)" for b h r v
    using that by (auto simp: send_def kept_refl split: option.splits prod.splits sum.splits if_splits intro: call)
  have counted: "R w (inc m v)" if "send s a b h w = (r, v)" for m b h r v
    by (rule kept_trans[OF send[OF that] kept_inc])
  show "R w (snd (Sender_SendConfirmation s a cd w))" "R w (snd (Sender_SendReleaseNotification s a rd w))"
    by (auto simp: Sender_SendConfirmation_def Sender_SendReleaseNotification_def kept_refl
        split: sum.splits prod.splits option.splits intro: counted)
qed

lemma kept_reply_loop:
  assumes "\<And>v. R v (snd (pub v))"
  shows "R w (snd (reply_loop pub k backoff e w))"
proof (induction k arbitrary: backoff e w)
  case (Suc k)
  obtain r w1 where p: "pub w = (r, w1)" by fastforce
  obtain c w2 where c: "ctx_Err w1 = (c, w2)" by fastforce
  obtain c' w3 where c': "ctx_Err w2 = (c', w3)" by fastforce
  have w1: "R w w1" using assms[of w] p by simp
  have w2: "R w w2" using kept_trans[OF w1] kept_err[of w1] c by simp
  have w3: "R w w3" using kept_trans[OF w2] kept_err[of w2] c' by simp
  have rest: "R w (snd (reply_loop pub k b e' w3))" for b e' by (rule kept_trans[OF w3 Suc])
  show ?case
    using rest by (simp add: p c c' w1 w2 w3 split_def split: option.splits bool.splits)
qed (simp add: kept_refl)

lemma kept_publish_call: "R w (snd (publish p key payload w))"
proof -
  note t = kept_trans
  have out: "R w (inc m v)" "R w (snd (time_Now v))" if "R w v" for v m
    using t[OF that kept_inc] t[OF that kept_now] by blast+
  have call: "R w v" if "call_outside f u = (r, v)" "R w u" for f u r v
    using t[OF that(2) kept_call[of u f]] that(1) by simp
  have start: "R w u" if "time_Now w = (s, u)" for s u using kept_now[of w] that by simp
  show ?thesis
    by (auto simp: publish_def Let_def kept_inc split: option.splits prod.splits sum.splits if_splits
        intro!: out intro: call[OF _ start] call[OF _ call[OF _ start]])
qed

end

text \<open>The saga a delivery is about, if it is a command.\<close>

definition delivery_sagas :: "'x delivery \<Rightarrow> string set" where
  "delivery_sagas d =
     (if dl_RoutingKey d = RoutingKeyCmdSendConfirmation
      then (case unmarshal_command (dl_Body d) of Inl err \<Rightarrow> {} | Inr msg \<Rightarrow> {sc_SagaID msg}) else {})"

locale kept_consumer = kept_calls R for R :: "('x, 'm) proc_scheme \<Rightarrow> ('x, 'm) proc_scheme \<Rightarrow> bool" +
  fixes c :: "('x, 'm) proc_scheme Consumer" and marked :: "string set"
  assumes kept_confirmation: "R w (snd (co_SendConfirmation c a cd w))"
    and kept_release: "R w (snd (co_SendReleaseNotification c a rd w))"
    and kept_sent: "R w (snd (co_PublishConfirmationSent c i w))"
    and kept_failure: "R w (snd (co_PublishConfirmationFailed c i reason w))"
    and kept_mark: "co_Mark c = Some mark \<Longrightarrow> i \<in> marked \<Longrightarrow> R w (mark i w)"
begin

lemma kept_dispatch:
  assumes "delivery_sagas d \<subseteq> marked"
  shows "R w (snd (dispatch c d w))"
proof -
  note t = kept_trans
  have settled: "R w (ack d v)" "R w (nack b d v)" if "R w v" for b v
    using t[OF that] kept_settled[of v] by simp_all
  have replied: "R w (snd (publishReplyWithRetry pub v))" if "R w v" "\<And>v. R v (snd (pub v))" for pub v
    unfolding publishReplyWithRetry_def by (rule t[OF that(1) kept_reply_loop[of pub v, OF that(2)]])
  have sent: "R w (snd (publishReplyWithRetry (co_PublishConfirmationSent c i) v))" if "R w v" for i v
    by (rule replied[OF that kept_sent])
  have failed: "R w (snd (publishReplyWithRetry (co_PublishConfirmationFailed c i reason) v))" if "R w v" for i reason v
    by (rule replied[OF that kept_failure])
  show ?thesis
    unfolding dispatch_def Let_def split_def
    using assms
    by (auto simp: kept_settled delivery_sagas_def split: sum.splits option.splits if_splits intro!: settled sent failed
        intro: kept_confirmation kept_release t[OF kept_confirmation kept_mark])
qed

lemma kept_handle:
  assumes "delivery_sagas d \<subseteq> marked"
  shows "R w (Consumer_handle c d w)"
proof -
  have "R w (snd (dispatch c d (snd (time_Now w))))" by (rule kept_trans[OF kept_now kept_dispatch[OF assms]])
  then show ?thesis
    unfolding Consumer_handle_def Let_def split_def by (meson kept_trans kept_now kept_inc)
qed

lemma kept_startConsumers: "R w (snd (startConsumers lib ch qs w))"
proof (induction qs arbitrary: w)
  case (Cons q qs)
  obtain queue tag where q: "q = (queue, tag)" by fastforce
  obtain r w1 where c: "call_outside (lib_Consume lib ch queue tag) w = (r, w1)" by fastforce
  have "R w w1" using kept_call[of w "lib_Consume lib ch queue tag"] c by simp
  then show ?case using c q kept_trans[OF _ Cons] by (cases r) simp_all
qed (simp add: kept_refl)

lemma kept_look: "call_outside f w = (a, v) \<Longrightarrow> R w v" "ctx_Err w = (dn, v) \<Longrightarrow> R w v"
  using kept_call[of w f] kept_err[of w] by simp_all

lemma kept_await_end:
  assumes "marked = UNIV"
  shows "await_end n over c src w = Some (e, v) \<Longrightarrow> R w v"
proof (induction n arbitrary: over w)
  case (Suc n)
  obtain a w1 where a: "call_outside src w = (a, w1)" by fastforce
  obtain dn w2 where dn: "ctx_Err w1 = (dn, w2)" by fastforce
  have w2: "R w w2" by (rule kept_trans[OF kept_look(1)[OF a] kept_look(2)[OF dn]])
  have h: "R w (Consumer_handle c d w2)" for d by (rule kept_trans[OF w2 kept_handle]) (simp add: assms)
  from Suc.prems w2 show ?case
    by (auto simp: a dn split: if_splits ready.splits dest!: Suc.IH intro: kept_trans[OF h] kept_trans[OF w2])
qed simp

lemma kept_drain:
  assumes "marked = UNIV"
  shows "drain_queues n over b c src w = Some v \<Longrightarrow> R w v"
proof (induction n arbitrary: over w)
  case (Suc n)
  obtain a w1 where a: "call_outside src w = (a, w1)" by fastforce
  note w1 = kept_look(1)[OF a]
  have h: "R w (Consumer_handle c d w1)" for d by (rule kept_trans[OF w1 kept_handle]) (simp add: assms)
  from Suc.prems w1 show ?case
    by (auto simp: a split: if_splits ready.splits dest!: Suc.IH intro: kept_trans[OF h] kept_trans[OF w1])
qed simp

lemma kept_awaitSessionEnd: "R w (snd (awaitSessionEnd lib ch qs e w))"
  by (auto simp: awaitSessionEnd_def kept_outside kept_refl split: session_loss.splits option.splits)

lemma kept_session:
  assumes "marked = UNIV" and run: "Consumer_runSession over c lib drains src n s w = Some (err, v)"
  shows "R w v"
proof -
  obtain r w1 where st: "startConsumers lib (snd s) (sessionQueues c) w = (r, w1)" by fastforce
  have k1: "R w w1" using kept_startConsumers[of w lib "snd s" "sessionQueues c"] st by simp
  show ?thesis
  proof (cases r)
    case (Some e)
    then show ?thesis using run st k1 by (simp add: Consumer_runSession_def)
  next
    case None
    then obtain e w2 where e: "await_end n over c src w1 = Some (e, w2)"
      using run st by (auto simp: Consumer_runSession_def split: option.splits)
    obtain se w3 where se: "awaitSessionEnd lib (snd s) (sessionQueues c) e w2 = (se, w3)" by fastforce
    obtain w4 where dr: "drain_queues n drains True c src w3 = Some w4"
      using run st None e se by (auto simp: Consumer_runSession_def split: option.splits)
    have "R w2 w3" using kept_awaitSessionEnd[of w2 lib "snd s" "sessionQueues c" e] se by simp
    then have "R w w4"
      using kept_trans k1 kept_await_end[OF assms(1) e] kept_drain[OF assms(1) dr] by blast
    then show ?thesis
      using run st None e se dr kept_trans[OF _ kept_err] by (auto simp: Consumer_runSession_def split_def)
  qed
qed

end

section \<open>The sessions of the replies consumer\<close>

context kept_calls
begin

lemma kept_select:
  assumes "\<And>d v. R v (Replies_handle c d v)"
  shows "replies_select n over c lib src ch w = Some (e, v) \<Longrightarrow> R w v"
proof (induction n arbitrary: over w)
  case (Suc n)
  obtain a w1 where a: "call_outside src w = (a, w1)" by fastforce
  obtain dn w2 where dn: "ctx_Err w1 = (dn, w2)" by fastforce
  have "R w w1" "R w1 w2" using kept_call[of w src] kept_err[of w1] a dn by simp_all
  then have w2: "R w w2" by (rule kept_trans)
  have h: "R w (Replies_handle c d w2)" "R w (w2\<lparr>outside := y\<rparr>)" for d y
    by (rule kept_trans[OF w2 assms] kept_trans[OF w2 kept_outside])+
  from Suc.prems w2 show ?case
    by (auto simp: a dn h split: if_splits ready.splits dest!: Suc.IH
        intro: kept_trans[OF h(1)] kept_trans[OF w2])
qed simp

lemma kept_Replies_session:
  assumes "\<And>d v. R v (Replies_handle c d v)" and run: "Replies_runSession over c lib src n s w = Some (e, v)"
  shows "R w v"
proof -
  obtain q w1 where st: "call_outside (lib_Consume lib (snd s) QueueSagaEvents (rc_tag c)) w = (q, w1)" by fastforce
  have k1: "R w w1" using kept_call[of w "lib_Consume lib (snd s) QueueSagaEvents (rc_tag c)"] st by simp
  then show ?thesis
    using run st kept_trans[OF k1 kept_select[OF assms(1)]]
    by (auto simp: Replies_runSession_def split: option.splits)
qed

end

end
