(* ===== verification/ScannerTheorems.thy ===== *)
theory ScannerTheorems
  imports Frames
begin

text \<open>
  What a scan does to the tables and to the broker: who is notified of what, which tags are
  recorded, and what no scan ever touches.
\<close>

definition repo_at :: "'x world \<Rightarrow> string \<Rightarrow> Repository option" where
  "repo_at w i = find (\<lambda>q. repo_ID q = i) (t_repositories (db w))"

section \<open>What a scan leaves alone\<close>

text \<open>\<open>scan_keeps\<close>: only tags of repositories may change, if no other session interferes.\<close>

definition scan_keeps :: "'x world \<Rightarrow> 'x world \<Rightarrow> bool" where
  "scan_keeps w v \<longleftrightarrow> world_ok v \<and>
     (quiet w \<longrightarrow> quiet v \<and> t_subscriptions (db v) = t_subscriptions (db w) \<and>
        t_sagas (db v) = t_sagas (db w) \<and>
        map (\<lambda>q. (repo_ID q, repo_FullName q)) (t_repositories (db v)) =
        map (\<lambda>q. (repo_ID q, repo_FullName q)) (t_repositories (db w)))"

lemma scan_keeps_trans: "scan_keeps w v \<Longrightarrow> scan_keeps v x \<Longrightarrow> scan_keeps w x"
  by (simp add: scan_keeps_def)

lemma scan_keeps_others: "world_ok w \<Longrightarrow> others w v \<Longrightarrow> scan_keeps w v"
  using quiet_others[of w v] world_ok_others[of w v] by (auto simp: scan_keeps_def)

lemma scan_keeps_io: "world_ok w \<Longrightarrow> io_only w v \<Longrightarrow> scan_keeps w v"
  using scan_keeps_others io_only_others by blast

lemma scan_keeps_ok: "scan_keeps w v \<Longrightarrow> world_ok v"
  by (simp add: scan_keeps_def)

lemma update_tag_run:
  assumes "UpdateLastSeenTag i tag w = (r, v)"
  shows "touched w v"
    and "db v = db (db_turn w) \<and> r \<noteq> None \<and> \<not> healthy w \<or>
      db v = snd (sql_update_tag i tag (db (db_turn w)))"
    and "healthy w \<Longrightarrow> r = None"
proof -
  obtain e where e: "exec_sql (sql_update_tag i tag) w = (e, v)"
    and r: "r = (case e of Inl err \<Rightarrow> Some (Errorf ''update last seen tag'' err) | Inr _ \<Rightarrow> None)"
    using assms by (auto simp: UpdateLastSeenTag_def split: prod.splits sum.splits)
  show "touched w v" by (rule exec_sql_touched[OF e])
  have "db_oracle w (db_calls w) \<noteq> DbOk \<Longrightarrow> \<not> healthy w" by (auto simp: healthy_def)
  then show "db v = db (db_turn w) \<and> r \<noteq> None \<and> \<not> healthy w \<or>
      db v = snd (sql_update_tag i tag (db (db_turn w)))" "healthy w \<Longrightarrow> r = None"
    using e r by (auto simp: exec_sql_def Let_def sql_update_tag_def split: db_outcome.splits)
qed

lemma scan_keeps_tag:
  assumes "world_ok w" "UpdateLastSeenTag i tag w = (r, v)"
  shows "scan_keeps w v"
proof -
  obtain e where e: "exec_sql (sql_update_tag i tag) w = (e, v)"
    using assms(2) by (auto simp: UpdateLastSeenTag_def split: prod.splits sum.splits)
  have "world_ok v" by (rule exec_sql_ok[OF keeps_update_tag assms(1) e])
  moreover have "quiet w \<Longrightarrow> quiet v"
    using touched_frame[OF update_tag_run(1)[OF assms(2)]] by (simp add: quiet_def)
  moreover have "quiet w \<Longrightarrow> db v = db w \<or> db v = snd (sql_update_tag i tag (db w))"
    using update_tag_run(2)[OF assms(2)] by auto
  ultimately show ?thesis
    by (auto simp: scan_keeps_def sql_update_tag_def map_upd_where)
qed

lemma scan_keeps_read:
  assumes "world_ok w"
  shows "scan_keeps w (snd (many_rows what sel w))"
proof -
  obtain x v where m: "many_rows what sel w = (x, v)" by fastforce
  then have "others w v" by (cases x) (auto dest: many_rows_found many_rows_failed)
  then show ?thesis using scan_keeps_others[OF assms] m by simp
qed

interpretation tags_io: kept_io "\<lambda>w v. world_ok w \<longrightarrow> scan_keeps w v"
proof
  fix w w' w'' :: "'x world"
  show "world_ok w \<longrightarrow> scan_keeps w w" using scan_keeps_others[OF _ others_refl] by blast
  show "world_ok w \<longrightarrow> scan_keeps w w''"
    if "world_ok w \<longrightarrow> scan_keeps w w'" "world_ok w' \<longrightarrow> scan_keeps w' w''"
    using that scan_keeps_trans scan_keeps_ok by blast
  show "world_ok w \<longrightarrow> scan_keeps w w'" if "io_only w w'" using scan_keeps_io that by blast
qed

interpretation tags: kept_scanner "\<lambda>w v. world_ok w \<longrightarrow> scan_keeps w v" "wired_scanner p u k tc redis gh"
  for p :: "'x Publisher" and u k tc and redis :: "'x redis_client option" and gh
proof
  fix w :: "'x world" and i tag a b t n bd h x
  show "world_ok w \<longrightarrow> scan_keeps w (snd (sn_GetAllWithConfirmedSubscriptions (wired_scanner p u k tc redis gh) w))"
    by (simp add: GetAllWithConfirmedSubscriptions_def scan_keeps_read)
  show "world_ok w \<longrightarrow> scan_keeps w (snd (sn_UpdateLastSeenTag (wired_scanner p u k tc redis gh) i tag w))"
    using scan_keeps_tag by (metis prod.collapse wired_scanner_simps(2))
  show "world_ok w \<longrightarrow> scan_keeps w (snd (sn_GetConfirmedByRepoID (wired_scanner p u k tc redis gh) i w))"
    by (simp add: GetConfirmedByRepoID_def scan_keeps_read)
  show "world_ok w \<longrightarrow> scan_keeps w (snd (sn_GetLatestRelease (wired_scanner p u k tc redis gh) a b w))"
    using tags_io.kept_io wired_fetcher_frame by (metis prod.collapse wired_scanner_simps(4))
  show "world_ok w \<longrightarrow> scan_keeps w (snd (sn_SendReleaseNotification (wired_scanner p u k tc redis gh) a b t n bd h x w))"
    unfolding wired_scanner_simps SendReleaseNotification_def
    using tags_io.kept_io publish_frame by (metis prod.collapse)
qed

text \<open>
  In any company and whatever calls fail, every run of the scanner keeps the
  tables' invariant. With no other session interfering it touches no subscription, no saga and no
  repository's id or name: all a scan writes is \<^verbatim>\<open>last_seen_tag\<close>.
\<close>

lemma Scanner_writes_only_tags:
  fixes w :: "'x world"
  assumes "world_ok w" "Scanner_Start (wired_scanner p u k tc redis gh) es w = (r, w')"
  shows "world_ok w' \<and> (quiet w \<longrightarrow> t_subscriptions (db w') = t_subscriptions (db w) \<and>
    t_sagas (db w') = t_sagas (db w) \<and>
    map (\<lambda>q. (repo_ID q, repo_FullName q)) (t_repositories (db w')) =
    map (\<lambda>q. (repo_ID q, repo_FullName q)) (t_repositories (db w)))"
proof -
  have "world_ok w \<longrightarrow> scan_keeps w (snd (Scanner_Start (wired_scanner p u k tc redis gh) es w))"
    by (rule tags.kept_Scanner_Start)
  then have "scan_keeps w w'" using assms by simp
  then show ?thesis by (simp add: scan_keeps_def)
qed

text \<open>A concrete scan: GitHub has release v1 of the one repository, which has a confirmed subscriber.\<close>

definition one_release_github :: "'x github_client" where
  "one_release_github =
     \<lparr>gc_httpClient = \<lparr>gh_BadURL = (\<lambda>u. None),
        gh_Do = (\<lambda>rq x. (Inr \<lparr>rs_StatusCode = 200, rs_RateLimitRemaining = ''59'',
            rs_Body = Some (marshal_Release unary_codec demo_release)\<rparr>, x))\<rparr>,
      gc_token = []\<rparr>"

definition demo_confirmed :: "string option \<Rightarrow> nat world" where
  "demo_confirmed tag = demo_world 0
     \<lparr>t_repositories = [demo_repo\<lparr>repo_LastSeenTag := tag\<rparr>], t_subscriptions = [demo_row True],
      t_sagas = []\<rparr>"

definition demo_scanner :: "nat world Scanner" where
  "demo_scanner =
     wired_scanner (demo_publisher True) ''http://h'' Hour unary_codec None one_release_github"

lemma demo_confirmed_ok [simp]:
  "world_ok (demo_confirmed tag)" "quiet (demo_confirmed tag)" "healthy (demo_confirmed tag)"
proof -
  have "db_ok \<lparr>t_repositories = [demo_repo\<lparr>repo_LastSeenTag := tag\<rparr>], t_subscriptions = [demo_row True],
      t_sagas = []\<rparr>"
    by (simp add: db_ok_def demo_data)
  then show "world_ok (demo_confirmed tag)" "quiet (demo_confirmed tag)" "healthy (demo_confirmed tag)"
    by (simp_all add: demo_confirmed_def)
qed

section \<open>Announcing a release\<close>

lemma repo_at_tagged:
  assumes "db v = snd (sql_update_tag i tag (db w))" "repo_at w i = Some repo"
  shows "repo_at v = (repo_at w)(i \<mapsto> repo\<lparr>repo_LastSeenTag := Some tag\<rparr>)"
    and "t_subscriptions (db v) = t_subscriptions (db w)" "t_sagas (db v) = t_sagas (db w)"
proof -
  have i: "repo_ID repo = i" using assms(2) find_SomeD by (fastforce simp: repo_at_def)
  have at: "repo_at v k = map_option (\<lambda>q. if repo_ID q = i then q\<lparr>repo_LastSeenTag := Some tag\<rparr> else q) (repo_at w k)" for k
    by (simp add: repo_at_def assms(1) sql_update_tag_def find_upd_where)
  have keys: "repo_ID q = k" if "repo_at w k = Some q" for k q
    using that find_SomeD by (fastforce simp: repo_at_def)
  show "repo_at v = (repo_at w)(i \<mapsto> repo\<lparr>repo_LastSeenTag := Some tag\<rparr>)"
  proof (intro ext)
    fix k show "repo_at v k = ((repo_at w)(i \<mapsto> repo\<lparr>repo_LastSeenTag := Some tag\<rparr>)) k"
      using keys at[of k] assms(2) i by (cases "repo_at w k") auto
  qed
  show "t_subscriptions (db v) = t_subscriptions (db w)" "t_sagas (db v) = t_sagas (db w)"
    by (simp_all add: assms(1) sql_update_tag_def)
qed

lemma tag_written:
  assumes "quiet w" "repo_at w i = Some repo" "UpdateLastSeenTag i tag w = (r, v)"
  shows "t_subscriptions (db v) = t_subscriptions (db w)" "t_sagas (db v) = t_sagas (db w)"
    "outside v = outside w"
    "repo_at v = (repo_at w)(i \<mapsto> repo\<lparr>repo_LastSeenTag := Some tag\<rparr>) \<or> repo_at v = repo_at w \<and> \<not> healthy w"
proof -
  have d: "db v = db w \<and> \<not> healthy w \<or> db v = snd (sql_update_tag i tag (db w))"
    using update_tag_run(2)[OF assms(3)] assms(1) by auto
  have same: "db v = db w \<Longrightarrow> repo_at v = repo_at w" by (simp add: repo_at_def fun_eq_iff)
  show "t_subscriptions (db v) = t_subscriptions (db w)" "t_sagas (db v) = t_sagas (db w)"
    "repo_at v = (repo_at w)(i \<mapsto> repo\<lparr>repo_LastSeenTag := Some tag\<rparr>) \<or> repo_at v = repo_at w \<and> \<not> healthy w"
    using d same repo_at_tagged[of v i tag w, OF _ assms(2)] by metis+
  show "outside v = outside w" using touched_frame[OF update_tag_run(1)[OF assms(3)]] by simp
qed

text \<open>The subscriptions that a new release of a repository is announced to.\<close>

definition audience :: "'x world \<Rightarrow> string \<Rightarrow> Subscription set" where
  "audience w i = {s. sub_at w (sub_ID s) = Some s \<and> sub_RepoID s = i \<and> sub_Confirmed s}"

lemma audience_read:
  assumes "world_ok w" "quiet w" "GetConfirmedByRepoID i w = (x, v)"
  obtains (found) subs where "x = Inr subs" "distinct (map sub_ID subs)" "set subs = audience w i" "db v = db w"
      "touched w v"
    | (failed) err where "x = Inl err" "\<not> healthy w" "db v = db w" "touched w v"
proof -
  let ?P = "\<lambda>r. sr_repo_id r = i \<and> sr_confirmed r = True"
  have run: "many_rows ''get confirmed by repo id'' (select_subs ?P) w = (x, v)"
    using assms(3) by (simp add: GetConfirmedByRepoID_def)
  have t: "touched w v"
    using run exec_sql_touched by (fastforce simp: many_rows_def split: prod.splits sum.splits db_outcome.splits)
  show ?thesis
  proof (cases x)
    case (Inl err)
    then show ?thesis using failed many_rows_failed[OF run[unfolded Inl]] quiet_others[OF assms(2)] t by blast
  next
    case x: (Inr subs)
    note f = many_rows_found[OF run[unfolded x]]
    then have d: "db v = db w" using quiet_others assms(2) by blast
    have s: "subs = select_subs ?P (db w)" using f d by simp
    have ok: "db_ok (db w)" using assms(1) by (simp add: world_ok_def)
    then have "distinct (map sr_id (t_subscriptions (db w)))" by (simp add: db_ok_def)
    then have "distinct (map sub_ID subs)"
      unfolding s select_subs_ids[OF ok] by (rule distinct_map_filter_key)
    moreover have "?P (row_of_sub s) \<longleftrightarrow> sub_RepoID s = i \<and> sub_Confirmed s" for s
      by (simp add: row_of_sub_def)
    then have "set subs = audience w i"
      using select_subs_iff[OF assms(1), of ?P "\<lambda>s. sub_RepoID s = i \<and> sub_Confirmed s"] s
      by (auto simp: audience_def)
    ultimately show ?thesis using found[OF x] d t by blast
  qed
qed

text \<open>
  What a run of \<^verbatim>\<open>processRepo\<close> may do: publish to \<open>subs\<close>, who are \<open>told\<close> unless the query for them
  failed, and write the tag unless a statement failed.
\<close>

definition announced ::
    "'x Publisher \<Rightarrow> string \<Rightarrow> Repository \<Rightarrow> Release \<Rightarrow> Subscription set \<Rightarrow> 'x world \<Rightarrow> 'x world \<Rightarrow> bool" where
  "announced p u repo rel told w w' \<longleftrightarrow>
     t_subscriptions (db w') = t_subscriptions (db w) \<and> t_sagas (db w') = t_sagas (db w) \<and>
     (\<exists>subs. distinct (map sub_ID subs) \<and>
        outside w' = fold (\<lambda>s. publish_effect p RoutingKeyRelease
          (marshal_release (release_mail u repo rel s))) subs (outside w) \<and>
        (set subs = told \<and>
           repo_at w' = (repo_at w)(repo_ID repo \<mapsto> repo\<lparr>repo_LastSeenTag := Some (rel_TagName rel)\<rparr>) \<or>
         \<not> healthy w \<and> set subs \<in> {{}, told} \<and> repo_at w' = repo_at w))"

lemma processRepo_fresh:
  fixes w :: "'x world"
  assumes "world_ok w" "quiet w" and at: "repo_at w (repo_ID repo) = Some repo"
    and run: "w' = processRepo (wired_scanner p u k tc redis gh) repo rel w"
    and fresh: "repo_LastSeenTag repo = Some t" "t \<noteq> rel_TagName rel"
  shows "announced p u repo rel (audience w (repo_ID repo)) w w'"
proof -
  let ?sc = "wired_scanner p u k tc redis gh" and ?tag = "rel_TagName rel"
  let ?w1 = "inc ReleasesDetectedTotal w"
  have w1: "world_ok ?w1" "quiet ?w1" "healthy ?w1 = healthy w" "db ?w1 = db w" "outside ?w1 = outside w"
    "audience ?w1 = audience w"
    using assms(1,2) by (auto simp: inc_def world_ok_def quiet_def healthy_def audience_def sub_at_def fun_eq_iff)
  obtain x w2 where get: "GetConfirmedByRepoID (repo_ID repo) ?w1 = (x, w2)" by fastforce
  from w1(1,2) get show ?thesis
  proof (cases rule: audience_read)
    case (failed err)
    then have "w' = w2" using run get fresh by (simp add: processRepo_def Let_def)
    then show ?thesis
      using failed touched_frame[OF failed(4)] w1(3-5)
      by (auto simp: announced_def repo_at_def fun_eq_iff intro!: exI[of _ "[]"])
  next
    case (found subs)
    let ?w3 = "notify_subs ?sc repo rel subs w2"
    have o3: "outside ?w3 = fold (\<lambda>s. publish_effect p RoutingKeyRelease
        (marshal_release (release_mail u repo rel s))) subs (outside w)" and i3: "io_only w2 ?w3"
      using notify_subs_wired[of w2] touched_frame[OF found(5)] w1(5) by auto
    have q3: "quiet ?w3" "healthy ?w3 = healthy w" "db ?w3 = db w"
      using w1(2-4) found(4) io_only_world[OF i3] touched_frame[OF found(5)] by (auto simp: quiet_def healthy_def)
    obtain r v where t: "UpdateLastSeenTag (repo_ID repo) ?tag ?w3 = (r, v)" by fastforce
    have at3: "repo_at ?w3 = repo_at w" by (simp add: repo_at_def q3(3) fun_eq_iff)
    have w': "w' = v" using run t get found(1) fresh by (simp add: processRepo_def Let_def)
    show ?thesis
      using tag_written[OF q3(1) at[folded at3] t] found(2,3) o3 q3(2) w1(6) unfolding w' at3 q3(3) announced_def
      by (intro conjI exI[of _ subs]) auto
  qed
qed

text \<open>
  C21 (functional). What \<^verbatim>\<open>processRepo\<close> does with the latest release of a repository, with no other
  session interfering and whatever database calls fail. Nothing but the repository's
  \<^verbatim>\<open>last_seen_tag\<close> changes in any table. If the repository had no tag yet, or already this one,
  nobody is told; otherwise exactly one message is published for each confirmed subscription of
  the repository, with its own address and its own unsubscribe link, whether or not the others'
  publishes succeed; and the tag becomes this release's. Only if a statement failed may the tag
  stay as it was, with nobody told or with everybody told: then the next scan tells them again.
\<close>

theorem processRepo_announces:
  fixes w :: "'x world"
  assumes "world_ok w" "quiet w" and at: "repo_at w (repo_ID repo) = Some repo"
    and run: "w' = processRepo (wired_scanner p u k tc redis gh) repo rel w"
  defines "told \<equiv> if repo_LastSeenTag repo \<in> {None, Some (rel_TagName rel)} then {} else audience w (repo_ID repo)"
  shows "t_subscriptions (db w') = t_subscriptions (db w) \<and> t_sagas (db w') = t_sagas (db w) \<and>
    (\<exists>subs. distinct (map sub_ID subs) \<and>
       outside w' = fold (\<lambda>s. publish_effect p RoutingKeyRelease
         (marshal_release (release_mail u repo rel s))) subs (outside w) \<and>
       (set subs = told \<and>
          repo_at w' = (repo_at w)(repo_ID repo \<mapsto> repo\<lparr>repo_LastSeenTag := Some (rel_TagName rel)\<rparr>) \<or>
        \<not> healthy w \<and> set subs \<in> {{}, told} \<and> repo_at w' = repo_at w))"
proof -
  let ?sc = "wired_scanner p u k tc redis gh" and ?tag = "rel_TagName rel"
  have same: "(repo_at w)(repo_ID repo \<mapsto> repo\<lparr>repo_LastSeenTag := Some ?tag\<rparr>) = repo_at w"
    if "repo_LastSeenTag repo = Some ?tag"
  proof -
    have "repo\<lparr>repo_LastSeenTag := Some ?tag\<rparr> = repo" using that by (cases repo) simp
    then show ?thesis using at by auto
  qed
  consider (first) "repo_LastSeenTag repo = None" | (seen) "repo_LastSeenTag repo = Some ?tag"
    | (fresh) t where "repo_LastSeenTag repo = Some t" "t \<noteq> ?tag"
    by (cases "repo_LastSeenTag repo") auto
  then have "announced p u repo rel told w w'"
  proof cases
    case first
    obtain r v where t: "UpdateLastSeenTag (repo_ID repo) ?tag w = (r, v)" by fastforce
    have w': "w' = v" using run t first by (simp add: processRepo_def)
    show ?thesis
      using tag_written[OF assms(2) at t] first unfolding w' announced_def told_def
      by (intro conjI exI[of _ "[]"]) auto
  next
    case seen
    then have "w' = w" using run by (simp add: processRepo_def)
    then show ?thesis using same[OF seen] seen by (auto simp: announced_def told_def intro!: exI[of _ "[]"])
  next
    case (fresh t)
    then show ?thesis using processRepo_fresh[OF assms(1-4) fresh] by (simp add: told_def)
  qed
  then show ?thesis unfolding announced_def .
qed

theorem processRepo_announces_witness:
  "outside (processRepo demo_scanner (demo_repo\<lparr>repo_LastSeenTag := Some ''v0''\<rparr>) demo_release
     (demo_confirmed (Some ''v0''))) = 1 \<and>
   repo_at (processRepo demo_scanner (demo_repo\<lparr>repo_LastSeenTag := Some ''v0''\<rparr>) demo_release
     (demo_confirmed (Some ''v0''))) ''r1'' = Some (demo_repo\<lparr>repo_LastSeenTag := Some ''v1''\<rparr>)"
proof -
  let ?r = "demo_repo\<lparr>repo_LastSeenTag := Some ''v0''\<rparr>" and ?w = "demo_confirmed (Some ''v0'')"
  have at: "repo_at ?w (repo_ID ?r) = Some ?r"
    by (simp add: repo_at_def demo_confirmed_def demo_world_def demo_repo_def)
  have out: "outside (processRepo demo_scanner ?r demo_release ?w) = 1" by code_simp
  have "repo_at (processRepo demo_scanner ?r demo_release ?w) = (repo_at ?w)
      (repo_ID ?r \<mapsto> ?r\<lparr>repo_LastSeenTag := Some (rel_TagName demo_release)\<rparr>)"
    using processRepo_announces[OF demo_confirmed_ok(1,2) at refl, of "demo_publisher True" "''http://h''" Hour
        unary_codec None one_release_github demo_release] demo_confirmed_ok(3)
    unfolding demo_scanner_def by blast
  then show ?thesis using out by (simp add: demo_release_def demo_repo_def)
qed

end
