(* ===== verification/DedupeTheorems.thy ===== *)
theory DedupeTheorems
  imports Dedupe
begin

text \<open>
  Runs of the cache's operations: its bound, and how long it remembers a claim.
\<close>

section \<open>Runs\<close>

datatype dd_op = OpMark string | OpTryClaim string | OpRelease string | OpSeen string

fun dd_step :: "dd_op \<Rightarrow> 'x node \<Rightarrow> bool option \<times> 'x node" where
  "dd_step (OpMark i) w = (None, Mark i w)"
| "dd_step (OpTryClaim i) w = (let (b, v) = TryClaim i w in (Some b, v))"
| "dd_step (OpRelease i) w = (None, Release_claim i w)"
| "dd_step (OpSeen i) w = (let (b, v) = Seen i w in (Some b, v))"

fun dd_run :: "dd_op list \<Rightarrow> 'x node \<Rightarrow> bool option list \<times> 'x node" where
  "dd_run [] w = ([], w)"
| "dd_run (op # ops) w =
     (let (r, v) = dd_step op w; (rs, v') = dd_run ops v in (r # rs, v'))"

text \<open>The ids a run may add to the cache.\<close>

fun recorded :: "dd_op list \<Rightarrow> string list" where
  "recorded [] = []"
| "recorded (OpMark i # ops) = i # recorded ops"
| "recorded (OpTryClaim i # ops) = i # recorded ops"
| "recorded (op # ops) = recorded ops"

lemma dd_step_only: "dd_only w (snd (dd_step op w))"
  by (cases op) (simp_all add: dd_only_ops split_def Let_def)

lemma dd_run_only: "dd_only w (snd (dd_run ops w))"
proof (induction ops arbitrary: w)
  case (Cons op ops)
  show ?case
    using dd_only_trans[OF dd_step_only Cons.IH[of "snd (dd_step op w)"]] by (simp add: split_def Let_def)
qed simp

section \<open>The bound\<close>

lemma dedupe_ok_drop:
  assumes "dedupe_ok w" "dd_only w v" "dd_entries (dedupe v) = filter P (dd_entries (dedupe w))"
  shows "dedupe_ok v"
proof -
  have "int (length (filter P (dd_entries (dedupe w)))) \<le> max 1 (dd_max (dedupe w))"
  proof -
    have "int (length (dd_entries (dedupe w))) \<le> max 1 (dd_max (dedupe w))"
      using assms(1) by (simp add: dedupe_ok_def)
    then show ?thesis using length_filter_le[of P "dd_entries (dedupe w)"] by linarith
  qed
  then show ?thesis
    using assms(1) order_ok_dd_only[OF assms(2)] dd_onlyD(8)[OF assms(2)] assms(3)
    by (simp add: dedupe_ok_def distinct_filter_keys)
qed

lemma dedupe_ok_time: "dedupe_ok w \<Longrightarrow> dedupe_ok (snd (time_Now w))"
  by (simp add: dedupe_ok_def)

lemma dedupe_ok_insert:
  assumes "dedupe_ok w"
  shows "dedupe_ok (insertLocked i w)"
proof -
  note d = dd_only_insert[of w i]
  obtain es now where e: "dd_entries (dedupe (insertLocked i w)) = AList.update i now es"
    "distinct (map fst es)" "int (length es) < max 1 (dd_max (dedupe w))"
    using insert_phases[OF assms] by metis
  show ?thesis
    using assms order_ok_dd_only[OF d] dd_onlyD(8)[OF d] e length_update[of i now es]
    by (auto simp: dedupe_ok_def AList.distinct_update)
qed

lemma dedupe_ok_step:
  assumes "dedupe_ok w"
  shows "dedupe_ok (snd (dd_step op w))"
proof (cases op)
  case (OpMark i)
  then show ?thesis using dedupe_ok_insert[OF assms] by (simp add: Mark_def)
next
  case (OpTryClaim i)
  then show ?thesis
    using dedupe_ok_insert[OF assms] dedupe_ok_time[OF assms] dedupe_ok_insert[OF dedupe_ok_time[OF assms]]
    by (simp add: TryClaim_def split_def Let_def split: option.splits)
next
  case (OpRelease i)
  show ?thesis
    by (rule dedupe_ok_drop[OF assms dd_step_only]) (simp add: OpRelease Release_claim_def AList.delete_eq)
next
  case (OpSeen i)
  show ?thesis
  proof (cases "dd_entries (dedupe (snd (dd_step op w))) = dd_entries (dedupe w)")
    case True
    then show ?thesis
      using dedupe_ok_drop[OF assms dd_step_only, where P = "\<lambda>_. True"] by simp
  next
    case False
    then have "dd_entries (dedupe (snd (dd_step op w))) = AList.delete i (dd_entries (dedupe w))"
      by (auto simp: OpSeen Seen_def split_def Let_def split: option.splits)
    then show ?thesis using dedupe_ok_drop[OF assms dd_step_only] by (simp add: AList.delete_eq)
  qed
qed

lemma dedupe_ok_run: "dedupe_ok w \<Longrightarrow> dedupe_ok (snd (dd_run ops w))"
proof (induction ops arbitrary: w)
  case (Cons op ops)
  then show ?case using Cons.IH[OF dedupe_ok_step[OF Cons.prems]] by (simp add: split_def Let_def)
qed simp

lemma dedupe_ok_new: "\<forall>n es. set (order n es) = set es \<Longrightarrow> dedupe_ok (w\<lparr>dedupe := NewDedupe order m ttl\<rparr>)"
  by (simp add: dedupe_ok_def order_ok_def NewDedupe_def)

text \<open>
  C28 (bounds). Whatever operations run on a new cache, in whatever order \<^verbatim>\<open>range\<close> visits the
  map, it never holds more than \<^verbatim>\<open>maxSize\<close> ids (one, if \<^verbatim>\<open>maxSize\<close> is not positive), each
  once.
\<close>

theorem Dedupe_stays_bounded:
  assumes "\<And>n es. set (order n es) = set es"
    and "dd_run ops (w\<lparr>dedupe := NewDedupe order maxSize ttl\<rparr>) = (rs, w')"
  shows "int (length (dd_entries (dedupe w'))) \<le> max 1 maxSize \<and>
    distinct (map fst (dd_entries (dedupe w')))"
proof -
  let ?w = "w\<lparr>dedupe := NewDedupe order maxSize ttl\<rparr>"
  have "dedupe_ok ?w" using assms(1) by (simp add: dedupe_ok_new)
  then have "dedupe_ok w'" using dedupe_ok_run[of ?w ops] assms(2) by simp
  moreover have "dd_max (dedupe w') = maxSize"
    using dd_onlyD(8)[OF dd_run_only[of ?w ops]] assms(2) by (simp add: NewDedupe_def)
  ultimately show ?thesis by (simp add: dedupe_ok_def)
qed

definition demo_node :: "int \<Rightarrow> nat node" where
  "demo_node m = \<lparr>clock = (\<lambda>n. int n * Second), clock_reads = 0, uuids = (\<lambda>n. replicate n CHR ''i''),
     uuid_reads = 0, ctx_done = (\<lambda>_. False), ctx_reads = 0, metrics = (\<lambda>_. 0), outside = 0,
     dedupe = NewDedupe (\<lambda>n es. if even n then es else rev es) m Hour\<rparr>"

theorem Dedupe_stays_bounded_witness:
  "let (rs, w') = dd_run [OpMark ''a'', OpMark ''b'', OpTryClaim ''c'', OpTryClaim ''c'', OpTryClaim ''a'']
     (demo_node 2)
   in rs = [None, None, Some True, Some False, Some True] \<and> length (dd_entries (dedupe w')) \<le> 2"
proof -
  let ?ops = "[OpMark ''a'', OpMark ''b'', OpTryClaim ''c'', OpTryClaim ''c'', OpTryClaim ''a'']"
  obtain rs w' where run: "dd_run ?ops (demo_node 2) = (rs, w')" by fastforce
  have "fst (dd_run ?ops (demo_node 2)) = [None, None, Some True, Some False, Some True]" by code_simp
  moreover have "demo_node 2 = (demo_node 2)\<lparr>dedupe := NewDedupe (\<lambda>n es. if even n then es else rev es) 2 Hour\<rparr>"
    by (simp add: demo_node_def)
  then have run2: "dd_run ?ops ((demo_node 2)\<lparr>dedupe := NewDedupe (\<lambda>n es. if even n then es else rev es) 2 Hour\<rparr>) = (rs, w')"
    using run by simp
  have "int (length (dd_entries (dedupe w'))) \<le> max 1 2"
    by (rule conjunct1[OF Dedupe_stays_bounded[OF _ run2]]) simp
  ultimately show ?thesis using run by simp
qed

section \<open>How long a claim is remembered\<close>

lemma set_AList_update: "set (AList.update k v es) \<subseteq> insert (k, v) (set es)"
  by (induction es) auto

text \<open>
  \<open>remembers i t0 R w\<close>: the id \<open>i\<close> has an entry not older than \<open>t0\<close>, every entry at least as
  young is of \<open>i\<close> or of an id in \<open>R\<close>, and every entry was written in the past.
\<close>

definition remembers :: "string \<Rightarrow> int \<Rightarrow> string set \<Rightarrow> 'x node \<Rightarrow> bool" where
  "remembers i t0 R w \<longleftrightarrow> dedupe_ok w \<and>
     (\<exists>t. map_of (dd_entries (dedupe w)) i = Some t \<and> t0 \<le> t \<and>
        (\<forall>(k, s) \<in> set (dd_entries (dedupe w)). t \<le> s \<longrightarrow> k = i \<or> k \<in> R)) \<and>
     (\<forall>(k, s) \<in> set (dd_entries (dedupe w)). s < clock w (clock_reads w))"

lemma remembers_reads:
  assumes "remembers i t0 R w" "strict_mono (clock w)" "dd_only w v"
    and "dd_entries (dedupe v) = dd_entries (dedupe w)"
  shows "remembers i t0 R v"
proof -
  have "clock w (clock_reads w) \<le> clock v (clock_reads v)"
    using assms(2) dd_onlyD(1,11)[OF assms(3)] strict_mono_less_eq[OF assms(2)] by simp
  moreover have "dedupe_ok v"
    using dedupe_ok_drop[OF _ assms(3), of "\<lambda>_. True"] assms(1,4) by (simp add: remembers_def)
  ultimately show ?thesis using assms(1,4) by (fastforce simp: remembers_def)
qed

text \<open>A young entry is not lost while few others are as young.\<close>

lemma young_stays:
  assumes "may_lose w i t" "clock w (clock_reads w) - dd_ttl (dedupe w) \<le> t"
    and young: "\<And>j s. (j, s) \<in> set (dd_entries (dedupe w)) \<Longrightarrow> t \<le> s \<Longrightarrow> j = i \<or> j \<in> R"
  shows "finite R \<Longrightarrow> dd_max (dedupe w) \<le> int (card R) + 1"
proof -
  assume fin: "finite R"
  obtain fs where fs: "set fs \<subseteq> set (dd_entries (dedupe w))" "distinct (map fst fs)"
      "dd_max (dedupe w) \<le> int (length fs)" "\<forall>(l, u) \<in> set fs. t \<le> u"
    using assms(1,2) unfolding may_lose_def by force
  have "fst ` set fs \<subseteq> insert i R" using young fs(1,4) by fastforce
  then have "card (fst ` set fs) \<le> Suc (card R)"
    using card_mono[of "insert i R" "fst ` set fs"] fin by (simp add: card_insert_if split: if_splits)
  moreover have "card (fst ` set fs) = length fs" using distinct_card[OF fs(2)] by simp
  ultimately show ?thesis using fs(3) by simp
qed

lemma remembers_insert:
  assumes "remembers i t0 R w" "strict_mono (clock w)" "k = i \<or> k \<in> R" "finite R"
    and few: "int (card R) + 1 < dd_max (dedupe w)"
    and live: "clock w (clock_reads (insertLocked k w)) \<le> t0 + dd_ttl (dedupe w)"
  shows "remembers i t0 R (insertLocked k w)"
proof -
  let ?v = "insertLocked k w" and ?es = "dd_entries (dedupe w)"
  let ?now = "clock w (clock_reads ?v - 1)"
  have ok: "dedupe_ok w" using assms(1) by (simp add: remembers_def)
  then have dist: "distinct (map fst ?es)" by (simp add: dedupe_ok_def)
  obtain t where t: "map_of ?es i = Some t" "t0 \<le> t"
    and young: "\<And>j s. (j, s) \<in> set ?es \<Longrightarrow> t \<le> s \<Longrightarrow> j = i \<or> j \<in> R"
    and past: "\<And>j s. (j, s) \<in> set ?es \<Longrightarrow> s < clock w (clock_reads w)"
    using assms(1) by (fastforce simp: remembers_def)
  obtain es where e: "dd_entries (dedupe ?v) = AList.update k ?now es" "set es \<subseteq> set ?es" "distinct (map fst es)"
    "clock_reads w < clock_reads ?v"
    and lost: "\<And>j s. (j, s) \<in> set ?es - set es \<Longrightarrow> may_lose w j s"
    using insert_phases[OF ok, of k] by metis
  have clk: "clock w (clock_reads w) \<le> ?now" "?now < clock w (clock_reads ?v)"
    using strict_mono_less_eq[OF assms(2)] strict_mono_less[OF assms(2)] e(4) by simp_all
  have kept: "(i, t) \<in> set es"
  proof (rule ccontr)
    assume "(i, t) \<notin> set es"
    then have "may_lose w i t" using lost t(1) map_of_SomeD by fast
    then show False using young_stays[OF _ _ young assms(4)] few live clk t(2) by fastforce
  qed
  have new: "j = k \<and> s = ?now \<or> (j, s) \<in> set ?es" if "(j, s) \<in> set (dd_entries (dedupe ?v))" for j s
    using that set_AList_update[of k ?now es] e(1,2) by auto
  have "\<exists>t'. map_of (dd_entries (dedupe ?v)) i = Some t' \<and> t0 \<le> t' \<and>
      (\<forall>(j, s) \<in> set (dd_entries (dedupe ?v)). t' \<le> s \<longrightarrow> j = i \<or> j \<in> R)"
  proof (cases "k = i")
    case True
    have "map_of (dd_entries (dedupe ?v)) i = Some ?now"
      unfolding e(1) using True by (simp add: AList.update_conv')
    moreover have "t0 \<le> ?now" using past[of i t] t clk map_of_SomeD by fastforce
    ultimately show ?thesis using new past clk(1) True by fastforce
  next
    case False
    then have "map_of (dd_entries (dedupe ?v)) i = Some t" using kept e(1,3) by (simp add: AList.update_conv')
    then show ?thesis using t(2) new young assms(3) by fastforce
  qed
  moreover have "\<forall>(j, s) \<in> set (dd_entries (dedupe ?v)). s < clock ?v (clock_reads ?v)"
    using new past clk dd_onlyD(1)[OF dd_only_insert[of w k]] by fastforce
  ultimately show ?thesis using dedupe_ok_insert[OF ok] by (simp add: remembers_def)
qed

lemma remembers_new:
  assumes "dedupe_ok w" "strict_mono (clock w)" "t0 \<le> clock w (clock_reads w)"
    and past: "\<forall>(k, s) \<in> set (dd_entries (dedupe w)). s < clock w (clock_reads w)"
  shows "remembers i t0 R (insertLocked i w)"
proof -
  let ?v = "insertLocked i w"
  let ?now = "clock w (clock_reads ?v - 1)"
  obtain es where e: "dd_entries (dedupe ?v) = AList.update i ?now es" "set es \<subseteq> set (dd_entries (dedupe w))"
    "clock_reads w < clock_reads ?v"
    using insert_phases[OF assms(1), of i] by metis
  have clk: "clock w (clock_reads w) \<le> ?now" "?now < clock w (clock_reads ?v)"
    using strict_mono_less_eq[OF assms(2)] strict_mono_less[OF assms(2)] e(3) by simp_all
  have new: "j = i \<and> s = ?now \<or> s < clock w (clock_reads w)" if "(j, s) \<in> set (dd_entries (dedupe ?v))" for j s
    using that set_AList_update[of i ?now es] e(1,2) past by fastforce
  have "map_of (dd_entries (dedupe ?v)) i = Some ?now" unfolding e(1) by (simp add: AList.update_conv')
  moreover have "\<forall>(j, s) \<in> set (dd_entries (dedupe ?v)). ?now \<le> s \<longrightarrow> j = i \<or> j \<in> R"
    using new clk by fastforce
  moreover have "\<forall>(j, s) \<in> set (dd_entries (dedupe ?v)). s < clock ?v (clock_reads ?v)"
    using new clk dd_onlyD(1)[OF dd_only_insert[of w i]] by fastforce
  ultimately show ?thesis
    using dedupe_ok_insert[OF assms(1)] assms(3) clk unfolding remembers_def by (meson order_trans)
qed

lemma remembers_drop:
  assumes "remembers i t0 R w" "k \<noteq> i" "strict_mono (clock w)" "dd_only w v"
    and "dd_entries (dedupe v) = AList.delete k (dd_entries (dedupe w))"
  shows "remembers i t0 R v"
proof -
  have "dedupe_ok v"
    using dedupe_ok_drop[OF _ assms(4)] assms(1,5) by (simp add: remembers_def AList.delete_eq)
  moreover have "clock w (clock_reads w) \<le> clock v (clock_reads v)"
    using dd_onlyD(1,11)[OF assms(4)] strict_mono_less_eq[OF assms(3)] by simp
  moreover have "set (dd_entries (dedupe v)) \<subseteq> set (dd_entries (dedupe w))"
    by (auto simp: assms(5) AList.delete_eq)
  moreover have "map_of (dd_entries (dedupe v)) i = map_of (dd_entries (dedupe w)) i"
    using assms(2) by (simp add: assms(5) AList.delete_conv')
  ultimately show ?thesis using assms(1) unfolding remembers_def by fastforce
qed

lemma remembers_live:
  assumes "remembers i t0 R w" "clock w (clock_reads w) \<le> t0 + dd_ttl (dedupe w)"
  shows "\<not> fst (TryClaim i w)" "fst (Seen i w)"
    "snd (TryClaim i w) = snd (time_Now w)" "snd (Seen i w) = snd (time_Now w)"
proof -
  obtain t where "map_of (dd_entries (dedupe w)) i = Some t" "t0 \<le> t"
    using assms(1) by (auto simp: remembers_def)
  then show "\<not> fst (TryClaim i w)" "fst (Seen i w)" "snd (TryClaim i w) = snd (time_Now w)"
    "snd (Seen i w) = snd (time_Now w)"
    using assms(2) by (simp_all add: TryClaim_def Seen_def time_Now_def)
qed

lemma remembers_step:
  assumes r: "remembers i t0 R w" and mono: "strict_mono (clock w)" and op: "op \<noteq> OpRelease i"
    and R: "set (recorded [op]) \<subseteq> insert i R" "finite R" "int (card R) + 1 < dd_max (dedupe w)"
    and live: "clock w (clock_reads (snd (dd_step op w))) \<le> t0 + dd_ttl (dedupe w)"
  shows "remembers i t0 R (snd (dd_step op w))"
proof -
  let ?w1 = "snd (time_Now w)"
  have r1: "remembers i t0 R ?w1" by (rule remembers_reads[OF r mono dd_only_steps(1)]) simp
  have w1: "clock ?w1 = clock w" "dedupe ?w1 = dedupe w" by (simp_all add: time_Now_def)
  have now: "clock w (clock_reads w) \<le> t0 + dd_ttl (dedupe w)"
    using live dd_onlyD(11)[OF dd_step_only[of w op]] strict_mono_less_eq[OF mono] by (meson order_trans)
  show ?thesis
  proof (cases op)
    case (OpMark k)
    then show ?thesis using remembers_insert[OF r mono _ R(2,3)] R(1) live by (simp add: Mark_def)
  next
    case (OpTryClaim k)
    then show ?thesis
      using remembers_insert[OF r mono _ R(2,3), of k] remembers_insert[OF r1 _ _ R(2), of k] r1 R(1,3) live mono w1
      by (auto simp: TryClaim_def split_def Let_def split: option.splits if_splits)
  next
    case (OpRelease k)
    then show ?thesis
      using remembers_drop[OF r _ mono dd_only_ops(3)] op by (simp add: Release_claim_def)
  next
    case (OpSeen k)
    show ?thesis
    proof (cases "k = i")
      case True
      then show ?thesis using remembers_live(4)[OF r now] r1 OpSeen by (simp add: split_def Let_def)
    next
      case False
      then have "remembers i t0 R (set_entries (AList.delete k (dd_entries (dedupe w))) ?w1)"
        using remembers_drop[OF r1 False _ dd_only_steps(2)] mono w1 by simp
      then show ?thesis using r r1 OpSeen by (simp add: Seen_def split_def Let_def split: option.splits)
    qed
  qed
qed

lemma recorded_Cons: "recorded (op # ops) = recorded [op] @ recorded ops"
  by (cases op) simp_all

lemma remembers_run:
  assumes "remembers i t0 R w" "strict_mono (clock w)" "OpRelease i \<notin> set ops"
    and "set (recorded ops) \<subseteq> insert i R" "finite R" "int (card R) + 1 < dd_max (dedupe w)"
    and "clock w (clock_reads (snd (dd_run ops w))) \<le> t0 + dd_ttl (dedupe w)"
  shows "remembers i t0 R (snd (dd_run ops w))"
  using assms
proof (induction ops arbitrary: w)
  case (Cons op ops)
  let ?v = "snd (dd_step op w)"
  have run: "snd (dd_run (op # ops) w) = snd (dd_run ops ?v)" by (simp add: split_def Let_def)
  note d = dd_onlyD[OF dd_step_only[of w op]] and d2 = dd_onlyD[OF dd_run_only[of ?v ops]]
  have "clock w (clock_reads ?v) \<le> clock w (clock_reads (snd (dd_run ops ?v)))"
    using d2(11) strict_mono_less_eq[OF Cons.prems(2)] by simp
  then have "remembers i t0 R ?v"
    using Cons.prems run by (intro remembers_step) (auto simp: recorded_Cons[of op ops])
  then show ?case
    unfolding run using Cons.IH[of ?v] Cons.prems d run by (simp add: recorded_Cons[of op ops])
qed simp

text \<open>
  A claim is remembered. After \<^verbatim>\<open>TryClaim\<close> has granted a saga id, or \<^verbatim>\<open>Mark\<close> has
  recorded it, let any operations follow that do not release that id and record fewer than
  \<^verbatim>\<open>max - 1\<close> other ids. Then, up to the end of the time-to-live, a further \<^verbatim>\<open>TryClaim\<close> of
  the id is refused and \<^verbatim>\<open>Seen\<close> says yes, however full the cache was before and in whatever order
  its map is ranged over. (The clock is taken to advance strictly between readings.)
\<close>

lemma Claims_are_remembered:
  fixes w :: "'x node"
  assumes "dedupe_ok w" "strict_mono (clock w)"
    and "\<forall>(k, t) \<in> set (dd_entries (dedupe w)). t < clock w (clock_reads w)"
    and "TryClaim i w = (True, w1) \<or> Mark i w = w1"
    and "dd_run ops w1 = (rs, w2)" "OpRelease i \<notin> set ops"
    and "int (card (set (recorded ops) - {i})) < dd_max (dedupe w) - 1"
    and "clock w (clock_reads w2) - clock w (clock_reads w) \<le> dd_ttl (dedupe w)"
  shows "\<not> fst (TryClaim i w2) \<and> fst (Seen i w2)"
proof -
  let ?t0 = "clock w (clock_reads w)" and ?R = "set (recorded ops) - {i}" and ?v = "snd (time_Now w)"
  have le: "?t0 < clock ?v (clock_reads ?v)" using strict_mono_less[OF assms(2)] by (simp add: time_Now_def)
  have "\<forall>(k, s) \<in> set (dd_entries (dedupe ?v)). s < clock ?v (clock_reads ?v)" using assms(3) le by fastforce
  then have "remembers i ?t0 ?R (insertLocked i ?v)"
    using remembers_new[OF dedupe_ok_time[OF assms(1)], of ?t0 i ?R] assms(2) le by (simp add: time_Now_def)
  moreover have "remembers i ?t0 ?R (insertLocked i w)"
    using remembers_new[OF assms(1,2) order_refl assms(3)] .
  ultimately have r1: "remembers i ?t0 ?R w1"
    using assms(4) by (auto simp: Mark_def TryClaim_def split_def Let_def split: option.splits if_splits)
  have d: "dd_only w w1" using assms(4) dd_only_ops by (metis snd_conv)
  have d2: "dd_only w1 w2" using dd_run_only[of w1 ops] assms(5) by simp
  note D = dd_onlyD[OF d] and D2 = dd_onlyD[OF d2]
  have "remembers i ?t0 ?R w2"
    using remembers_run[OF r1 _ assms(6)] assms(2,5,7,8) D by auto
  then show ?thesis using remembers_live[of i ?t0 ?R w2] assms(8) D D2 by simp
qed

end
