(* ===== verification/MailerTheorems.thy ===== *)
theory MailerTheorems
  imports Mailer DedupeTheorems
begin

text \<open>
  One call of the notifier's gRPC service, and any number of concurrent calls: the locked
  sections of the cache are the atomic steps, and between claiming and releasing a saga other
  calls run.
\<close>

section \<open>One call\<close>

lemma insert_no_outside: "dd_only w v \<Longrightarrow> outside v = outside w"
  by (rule dd_onlyD(7))

text \<open>
  C30 (functional). A valid call to \<^verbatim>\<open>SendConfirmation\<close>, on a well-formed cache. If the cache
  refuses the claim, the answer is OK and nothing is sent. If it grants it, the mail renders and
  the URL of Resend parses, exactly one request goes to Resend, for exactly this recipient, subject
  and body; a status below 300 is answered OK and the saga stays recorded; anything else releases
  the saga, so that a retry is not blocked, and is answered \<^verbatim>\<open>DeadlineExceeded\<close> when the deadline
  passed, \<^verbatim>\<open>Unavailable\<close> when the transport failed or Resend had a 5xx, and \<^verbatim>\<open>Internal\<close> for any other
  status. If the mail does not render or the URL does not parse, nothing is sent, the answer is an
  error status and the saga is released as well.
\<close>

theorem grpc_call_sends_or_releases:
  assumes "dedupe_ok w" "validate req = None" and run: "notifier_grpc validate s req w = (r, w')"
  shows "if \<not> fst (TryClaim (sr_SagaId req) w) then r = None \<and> outside w' = outside w
    else (r = None \<longleftrightarrow> map_of (dd_entries (dedupe w')) (sr_SagaId req) \<noteq> None) \<and>
      (case (RenderConfirmation (sd_renderer s) \<lparr>cd_Repo = sr_Repo req, cd_ConfirmURL = sr_ConfirmUrl req\<rparr>,
          mc_BadURL (sd_httpClient s) (sd_apiURL s)) of
         (Inr html, None) \<Rightarrow>
           \<exists>answer. mc_Do (sd_httpClient s) (mail_of s (sr_To req) (sr_Repo req) html) (outside w) =
             (answer, outside w') \<and>
             code_of r = grpc_code_of answer \<and> (r = None \<longleftrightarrow> grpc_code_of answer = None)
       | _ \<Rightarrow> code_of r \<noteq> None \<and> outside w' = outside w)"
proof -
  obtain granted w1 where c: "TryClaim (sr_SagaId req) w = (granted, w1)" by fastforce
  have o1: "outside w1 = outside w" using insert_no_outside[OF dd_only_ops(2)[of w "sr_SagaId req"]] c by simp
  have entry: "granted \<Longrightarrow> map_of (dd_entries (dedupe w1)) (sr_SagaId req) \<noteq> None"
    using claim_granted[of "sr_SagaId req" w w1] c assms(1) by simp
  note defs = notifier_grpc_def ValidationUnaryInterceptor_def Server_SendConfirmation_def
    Sender_SendConfirmation_def send_def mail_of_def call_outside_def inc_def sendErrorToStatus_def
    Release_claim_def set_entries_def AList.delete_conv'
  show ?thesis
  proof (cases "RenderConfirmation (sd_renderer s) \<lparr>cd_Repo = sr_Repo req, cd_ConfirmURL = sr_ConfirmUrl req\<rparr>")
    case (Inl err)
    then show ?thesis using run c o1 entry assms(2) by (cases granted) (auto simp: defs)
  next
    case (Inr html)
    obtain answer x where a: "mc_Do (sd_httpClient s) (mail_of s (sr_To req) (sr_Repo req) html) (outside w) = (answer, x)"
      by fastforce
    then show ?thesis
      using run c o1 Inr entry assms(2)
      by (cases granted; cases "mc_BadURL (sd_httpClient s) (sd_apiURL s)"; cases answer) (auto simp: defs)
  qed
qed

definition demo_mailer :: "nat \<Rightarrow> nat Sender" where
  "demo_mailer code =
     \<lparr>sd_httpClient = \<lparr>mc_BadURL = (\<lambda>u. None), mc_Do = (\<lambda>rq n. (Inr code, Suc n))\<rparr>,
      sd_apiURL = ''https://mail'', sd_apiKey = ''k'', sd_from = ''f@b.co'',
      sd_renderer = \<lparr>rn_confirmTmpl = (\<lambda>d. Inr (cd_ConfirmURL d)), rn_releaseTmpl = (\<lambda>d. Inr (rd_Body d))\<rparr>\<rparr>"

definition demo_confirmation :: "string \<Rightarrow> SendConfirmationRequest" where
  "demo_confirmation i =
     \<lparr>sr_SagaId = i, sr_To = ''a@b.co'', sr_Repo = ''golang/go'', sr_ConfirmUrl = ''http://h''\<rparr>"

lemma demo_node_ok [simp]: "1 \<le> m \<Longrightarrow> dedupe_ok (demo_node m)"
  by (simp add: dedupe_ok_def order_ok_def demo_node_def NewDedupe_def)

theorem grpc_call_sends_or_releases_witness:
  "code_of (fst (notifier_grpc (\<lambda>_. None) (demo_mailer 503) (demo_confirmation ''g1'') (demo_node 9))) = Some Unavailable \<and>
   outside (snd (notifier_grpc (\<lambda>_. None) (demo_mailer 503) (demo_confirmation ''g1'') (demo_node 9))) = 1"
proof -
  obtain r w' where run: "notifier_grpc (\<lambda>_. None) (demo_mailer 503) (demo_confirmation ''g1'') (demo_node 9) = (r, w')"
    by fastforce
  have "fst (TryClaim (sr_SagaId (demo_confirmation ''g1'')) (demo_node 9))" by code_simp
  then show ?thesis
    using grpc_call_sends_or_releases[OF _ _ run] run
    by (auto simp: demo_mailer_def demo_confirmation_def RenderConfirmation_def renderTemplate_def demo_node_def
        dedupe_ok_def order_ok_def NewDedupe_def)
qed

section \<open>Concurrent calls\<close>

text \<open>
  Call \<open>c\<close> has the request \<open>req c\<close>. A call claims its saga, sends, and answers; \<open>sent\<close> counts, for
  each saga, the sends that ended with success. A mail that Resend took although the call that sent
  it ended with an error, as after a timeout, is not counted: the claim is released then and a retry
  mails again.
\<close>

datatype call_pc = Idle | Sending | Answered

record 'x server_state =
  nd :: "'x node"
  pc :: "nat \<Rightarrow> call_pc"
  sent :: "string \<Rightarrow> nat"

definition send_call :: "'x Sender \<Rightarrow> SendConfirmationRequest \<Rightarrow> 'x node \<Rightarrow> goerr option \<times> 'x node" where
  "send_call s rq =
     Sender_SendConfirmation s (sr_To rq) \<lparr>cd_Repo = sr_Repo rq, cd_ConfirmURL = sr_ConfirmUrl rq\<rparr>"

inductive server_step ::
    "'x Sender \<Rightarrow> (nat \<Rightarrow> SendConfirmationRequest) \<Rightarrow> 'x server_state \<Rightarrow> 'x server_state \<Rightarrow> bool"
  for s :: "'x Sender" and req :: "nat \<Rightarrow> SendConfirmationRequest" where
  claims: "pc st c = Idle \<Longrightarrow> TryClaim (sr_SagaId (req c)) (nd st) = (True, w) \<Longrightarrow>
    server_step s req st (st\<lparr>nd := w, pc := (pc st)(c := Sending)\<rparr>)"
| refused: "pc st c = Idle \<Longrightarrow> TryClaim (sr_SagaId (req c)) (nd st) = (False, w) \<Longrightarrow>
    server_step s req st (st\<lparr>nd := w, pc := (pc st)(c := Answered)\<rparr>)"
| accepted: "pc st c = Sending \<Longrightarrow> send_call s (req c) (nd st) = (None, w) \<Longrightarrow>
    server_step s req st (st\<lparr>nd := w, pc := (pc st)(c := Answered),
      sent := (sent st)(sr_SagaId (req c) := Suc (sent st (sr_SagaId (req c))))\<rparr>)"
| failed: "pc st c = Sending \<Longrightarrow> send_call s (req c) (nd st) = (Some err, w) \<Longrightarrow>
    server_step s req st (st\<lparr>nd := Release_claim (sr_SagaId (req c)) w, pc := (pc st)(c := Answered)\<rparr>)"

inductive_cases server_stepE: "server_step s req st st'"

inductive server_reach ::
    "'x Sender \<Rightarrow> (nat \<Rightarrow> SendConfirmationRequest) \<Rightarrow> 'x node \<Rightarrow> 'x server_state \<Rightarrow> bool"
  for s :: "'x Sender" and req :: "nat \<Rightarrow> SendConfirmationRequest" and w0 :: "'x node" where
  init: "server_reach s req w0 \<lparr>nd = w0, pc = (\<lambda>_. Idle), sent = (\<lambda>_. 0)\<rparr>"
| step: "server_reach s req w0 st \<Longrightarrow> server_step s req st st' \<Longrightarrow> server_reach s req w0 st'"

text \<open>A send touches the outside and the counters only.\<close>

lemma send_call_frame:
  assumes "send_call s rq w = (r, v)"
  shows "dedupe v = dedupe w" "clock v = clock w" "clock_reads v = clock_reads w"
proof -
  have "dedupe v = dedupe w \<and> clock v = clock w \<and> clock_reads v = clock_reads w"
    using assms
    by (auto simp: send_call_def Sender_SendConfirmation_def send_def call_outside_def inc_def
        split: sum.splits option.splits prod.splits if_splits)
  then show "dedupe v = dedupe w" "clock v = clock w" "clock_reads v = clock_reads w" by auto
qed

text \<open>Every step keeps the clock and the bounds of the cache, and never turns the clock back.\<close>

lemma server_step_frame:
  assumes "server_step s req st st'"
  shows "clock (nd st') = clock (nd st)" "clock_reads (nd st) \<le> clock_reads (nd st')"
    "dd_ttl (dedupe (nd st')) = dd_ttl (dedupe (nd st))" "dd_max (dedupe (nd st')) = dd_max (dedupe (nd st))"
proof -
  have D: "dd_only (nd st) w" if "TryClaim i (nd st) = (b, w)" for i b w
    using dd_only_ops(2)[of "nd st" i] that by simp
  have R: "dd_only v (Release_claim i v)" for i and v :: "'a node" by (rule dd_only_ops(3))
  have "clock (nd st') = clock (nd st) \<and> clock_reads (nd st) \<le> clock_reads (nd st') \<and>
    dd_ttl (dedupe (nd st')) = dd_ttl (dedupe (nd st)) \<and> dd_max (dedupe (nd st')) = dd_max (dedupe (nd st))"
    using assms
  proof (cases rule: server_step.cases)
    case (claims c w)
    then show ?thesis using dd_onlyD[OF D[OF claims(3)]] by simp
  next
    case (refused c w)
    then show ?thesis using dd_onlyD[OF D[OF refused(3)]] by simp
  next
    case (accepted c w)
    then show ?thesis using send_call_frame[OF accepted(3)] by simp
  next
    case (failed c err w)
    then show ?thesis using send_call_frame[OF failed(3)] dd_onlyD[OF R[of w]] by simp
  qed
  then show "clock (nd st') = clock (nd st)" "clock_reads (nd st) \<le> clock_reads (nd st')"
    "dd_ttl (dedupe (nd st')) = dd_ttl (dedupe (nd st))" "dd_max (dedupe (nd st')) = dd_max (dedupe (nd st))"
    by auto
qed

definition past :: "'x node \<Rightarrow> bool" where
  "past w \<longleftrightarrow> (\<forall>(k, t) \<in> set (dd_entries (dedupe w)). t < clock w (clock_reads w))"

lemma past_drop:
  assumes "past w" "strict_mono (clock w)" "dd_only w v"
    and "set (dd_entries (dedupe v)) \<subseteq> set (dd_entries (dedupe w))"
  shows "past v"
proof -
  have "clock w (clock_reads w) \<le> clock v (clock_reads v)"
    using dd_onlyD(1,11)[OF assms(3)] strict_mono_less_eq[OF assms(2)] by simp
  then show ?thesis using assms(1,4) by (fastforce simp: past_def)
qed

lemma past_remembers: "remembers i t0 R w \<Longrightarrow> past w"
  by (simp add: remembers_def past_def)

text \<open>Granting a claim establishes its memory and keeps the others'; refusing one only reads the clock.\<close>

lemma granted_remembers:
  assumes "dedupe_ok w" "strict_mono (clock w)" "past w" "t0 \<le> clock w (clock_reads w)"
    and "TryClaim i w = (True, v)"
  shows "remembers i t0 S v"
proof -
  let ?u = "snd (time_Now w)"
  have u: "dedupe_ok ?u" "strict_mono (clock ?u)" "past ?u" "t0 \<le> clock ?u (clock_reads ?u)"
  proof -
    show "dedupe_ok ?u" by (rule dedupe_ok_time[OF assms(1)])
    show "strict_mono (clock ?u)" using assms(2) by (simp add: time_Now_def)
    show "past ?u" by (rule past_drop[OF assms(3,2) dd_only_steps(1)]) simp
    show "t0 \<le> clock ?u (clock_reads ?u)"
      using assms(4) strict_mono_less_eq[OF assms(2), of "clock_reads w" "Suc (clock_reads w)"]
      by (simp add: time_Now_def)
  qed
  have "v = insertLocked i w \<or> v = insertLocked i ?u"
    using assms(5) by (auto simp: TryClaim_def split_def Let_def split: option.splits if_splits)
  then show ?thesis
    using remembers_new[OF assms(1,2,4), of i S] remembers_new[OF u(1,2,4), of i S] assms(3) u(3)
    by (auto simp: past_def)
qed

lemma refused_reads: "TryClaim i w = (False, v) \<Longrightarrow> v = snd (time_Now w)"
  by (auto simp: TryClaim_def split_def Let_def split: option.splits if_splits)

lemma claim_keeps:
  assumes "remembers k t0 S w" "strict_mono (clock w)" "i \<in> S" "finite S" "int (card S) + 1 < dd_max (dedupe w)"
    and "TryClaim i w = (b, v)" "clock w (clock_reads v) \<le> t0 + dd_ttl (dedupe w)"
  shows "remembers k t0 S v"
  using remembers_step[OF assms(1,2), of "OpTryClaim i"] assms(3-7) by simp

text \<open>The invariant of a state in which the node is \<open>w\<close>, of whoever is sending and what was sent.\<close>

definition node_inv :: "int \<Rightarrow> 'x node \<Rightarrow> bool" where
  "node_inv t0 w \<longleftrightarrow> dedupe_ok w \<and> strict_mono (clock w) \<and> past w \<and> t0 \<le> clock w (clock_reads w)"

lemma node_inv_dd_only:
  assumes "node_inv t0 w" "dd_only w v" "dedupe_ok v" "past v"
  shows "node_inv t0 v"
proof -
  have "clock w (clock_reads w) \<le> clock w (clock_reads v)"
    using assms(1) dd_onlyD(11)[OF assms(2)] strict_mono_less_eq[of "clock w"] by (simp add: node_inv_def)
  then show ?thesis using assms dd_onlyD(1)[OF assms(2)] by (simp add: node_inv_def)
qed

lemma node_inv_claim:
  assumes "node_inv t0 w" "TryClaim i w = (b, v)"
  shows "node_inv t0 v"
proof -
  have d: "dd_only w v" using dd_only_ops(2)[of w i] assms(2) by simp
  have ok: "dedupe_ok v" using dedupe_ok_step[of w "OpTryClaim i"] assms by (simp add: node_inv_def)
  have "past v"
  proof (cases b)
    case True
    then show ?thesis
      using granted_remembers[of w t0 i v "{}"] past_remembers assms by (auto simp: node_inv_def)
  next
    case False
    then have "v = snd (time_Now w)" using refused_reads[of i w v] assms(2) by simp
    then show ?thesis using past_drop[OF _ _ d] assms(1) by (simp add: node_inv_def)
  qed
  then show ?thesis using node_inv_dd_only[OF assms(1) d ok] by blast
qed

lemma release_drop:
  "dedupe_ok w \<Longrightarrow> dedupe_ok (Release_claim i w)"
  "past w \<Longrightarrow> strict_mono (clock w) \<Longrightarrow> past (Release_claim i w)"
proof -
  have e: "dd_entries (dedupe (Release_claim i w)) = filter (\<lambda>(k, _). i \<noteq> k) (dd_entries (dedupe w))"
    by (simp add: Release_claim_def AList.delete_eq)
  show "dedupe_ok w \<Longrightarrow> dedupe_ok (Release_claim i w)"
    using dedupe_ok_drop[OF _ dd_only_ops(3) e] .
  show "past w \<Longrightarrow> strict_mono (clock w) \<Longrightarrow> past (Release_claim i w)"
    using past_drop[OF _ _ dd_only_ops(3)[of w i]] e by auto
qed

text \<open>What a send leaves of the node carries every fact about its cache and clock over.\<close>

lemma cache_cong:
  assumes "dedupe v = dedupe w" "clock v = clock w" "clock_reads v = clock_reads w"
  shows "dedupe_ok v = dedupe_ok w" "past v = past w" "remembers i t0 S v = remembers i t0 S w"
    "node_inv t0 v = node_inv t0 w"
  using assms by (simp_all add: dedupe_ok_def past_def remembers_def node_inv_def)

lemma node_inv_release:
  assumes "node_inv t0 w"
  shows "node_inv t0 (Release_claim i w)"
  using assms release_drop[of w i] by (intro node_inv_dd_only[OF assms dd_only_ops(3)]) (simp_all add: node_inv_def)

lemma remembers_release:
  assumes "remembers i t0 S w" "i \<noteq> k" "strict_mono (clock w)"
  shows "remembers i t0 S (Release_claim k w)"
  using remembers_drop[OF assms(1) _ assms(3) dd_only_ops(3)] assms(2) by (metis Release_claim_def entries_set)

text \<open>
  The invariant. \<open>busy st i\<close>: some call is sending for \<open>i\<close>, or a mail was accepted for it.
\<close>

definition busy :: "(nat \<Rightarrow> SendConfirmationRequest) \<Rightarrow> 'x server_state \<Rightarrow> string \<Rightarrow> bool" where
  "busy req st i \<longleftrightarrow> (\<exists>c. pc st c = Sending \<and> sr_SagaId (req c) = i) \<or> sent st i > 0"

definition server_inv ::
    "(nat \<Rightarrow> SendConfirmationRequest) \<Rightarrow> string set \<Rightarrow> int \<Rightarrow> 'x server_state \<Rightarrow> bool" where
  "server_inv req S t0 st \<longleftrightarrow>
     node_inv t0 (nd st) \<and> (\<forall>i. busy req st i \<longrightarrow> remembers i t0 S (nd st)) \<and>
     (\<forall>c c'. pc st c = Sending \<longrightarrow> pc st c' = Sending \<longrightarrow> sr_SagaId (req c) = sr_SagaId (req c') \<longrightarrow> c = c') \<and>
     (\<forall>i. sent st i \<le> 1) \<and> (\<forall>c. pc st c = Sending \<longrightarrow> sent st (sr_SagaId (req c)) = 0)"

lemma server_inv_sent:
  assumes inv: "server_inv req S t0 st" and c: "pc st c = Sending" and call: "send_call s (req c) (nd st) = (r, w)"
  defines "i \<equiv> sr_SagaId (req c)"
  shows "r = None \<Longrightarrow> server_inv req S t0
      (st\<lparr>nd := w, pc := (pc st)(c := Answered), sent := (sent st)(i := Suc (sent st i))\<rparr>)"
    and "r \<noteq> None \<Longrightarrow> server_inv req S t0 (st\<lparr>nd := Release_claim i w, pc := (pc st)(c := Answered)\<rparr>)"
proof -
  note f = cache_cong[OF send_call_frame[OF call]]
  have mem: "\<And>k. busy req st k \<Longrightarrow> remembers k t0 S w"
    and one: "\<And>c'. c' \<noteq> c \<Longrightarrow> sr_SagaId (req c') = i \<Longrightarrow> pc st c' \<noteq> Sending"
    and le1: "\<And>k. sent st k \<le> 1" and none: "\<And>c. pc st c = Sending \<Longrightarrow> sent st (sr_SagaId (req c)) = 0"
    and all: "\<And>c c'. pc st c = Sending \<Longrightarrow> pc st c' = Sending \<Longrightarrow> sr_SagaId (req c) = sr_SagaId (req c') \<Longrightarrow> c = c'"
    and w: "node_inv t0 w" "strict_mono (clock w)"
    using inv c f by (auto simp: server_inv_def node_inv_def i_def)
  let ?sent = "st\<lparr>nd := w, pc := (pc st)(c := Answered), sent := (sent st)(i := Suc (sent st i))\<rparr>"
  let ?failed = "st\<lparr>nd := Release_claim i w, pc := (pc st)(c := Answered)\<rparr>"
  have b: "busy req st k" if "busy req ?sent k" for k
    using that c by (auto simp: busy_def i_def split: if_splits)
  have other: "pc st d = Sending" "d \<noteq> c" if "pc ?sent d = Sending" for d
    using that by (simp_all split: if_splits)
  show "server_inv req S t0 ?sent"
    unfolding server_inv_def
  proof (intro conjI allI impI)
    show "node_inv t0 (nd ?sent)" using w(1) by simp
    show "remembers k t0 S (nd ?sent)" if "busy req ?sent k" for k using mem[OF b[OF that]] by simp
    show "d = d'" if "pc ?sent d = Sending" "pc ?sent d' = Sending" "sr_SagaId (req d) = sr_SagaId (req d')" for d d'
      using all other(1) that by blast
    show "sent ?sent k \<le> 1" for k using le1[of k] none[OF c] by (simp add: i_def)
    show "sent ?sent (sr_SagaId (req d)) = 0" if "pc ?sent d = Sending" for d
      using one[OF other(2)[OF that]] none[OF other(1)[OF that]] other(1)[OF that] by auto
  qed
  have "busy req st k \<and> k \<noteq> i" if "busy req ?failed k" for k
    using that one none[OF c] by (auto simp: busy_def i_def split: if_splits)
  then have "\<forall>k. busy req ?failed k \<longrightarrow> remembers k t0 S (Release_claim i w)"
    using remembers_release[OF _ _ w(2)] mem by blast
  then show "server_inv req S t0 ?failed"
    using node_inv_release[OF w(1)] le1 none all unfolding server_inv_def by auto
qed

lemma server_inv_step:
  assumes inv: "server_inv req S t0 st" and step: "server_step s req st st'"
    and S: "\<And>c. sr_SagaId (req c) \<in> S" "finite S" "int (card S) + 1 < dd_max (dedupe (nd st))"
    and live: "clock (nd st) (clock_reads (nd st')) \<le> t0 + dd_ttl (dedupe (nd st))"
  shows "server_inv req S t0 st'"
proof -
  let ?id = "\<lambda>c. sr_SagaId (req c)"
  have node: "node_inv t0 (nd st)" and mem: "\<And>i. busy req st i \<Longrightarrow> remembers i t0 S (nd st)"
    and one: "\<And>c c'. pc st c = Sending \<Longrightarrow> pc st c' = Sending \<Longrightarrow> ?id c = ?id c' \<Longrightarrow> c = c'"
    and le1: "\<And>i. sent st i \<le> 1" and none: "\<And>c. pc st c = Sending \<Longrightarrow> sent st (?id c) = 0"
    using inv by (auto simp: server_inv_def)
  have mono: "strict_mono (clock (nd st))" using node by (simp add: node_inv_def)
  have now: "clock (nd st) (clock_reads (nd st)) \<le> t0 + dd_ttl (dedupe (nd st))"
    using live server_step_frame(2)[OF step] strict_mono_less_eq[OF mono] by (meson order_trans)
  have keep: "remembers i t0 S w" if "busy req st i" "TryClaim (?id c) (nd st) = (b, w)" "nd st' = w" for i c b w
    using claim_keeps[OF mem[OF that(1)] mono S(1)[of c] S(2,3) that(2)] live that(3) by simp
  show ?thesis
    using step
  proof (cases rule: server_step.cases)
    case (claims c w)
    have free: "\<not> busy req st (?id c)"
    proof
      assume "busy req st (?id c)"
      from remembers_live(1)[OF mem[OF this] now] show False using claims(3) by simp
    qed
    have "remembers (?id c) t0 S w"
      using granted_remembers[OF _ mono _ _ claims(3)] node by (simp add: node_inv_def)
    then have "\<forall>i. busy req st' i \<longrightarrow> remembers i t0 S w"
      using keep[OF _ claims(3)] by (auto simp: claims(1) busy_def)
    then show ?thesis
      using node_inv_claim[OF node claims(3)] one le1 none free
      by (auto simp: claims(1) server_inv_def busy_def)
  next
    case (refused c w)
    show ?thesis
      using keep[OF _ refused(3)] node_inv_claim[OF node refused(3)] one le1 none
      by (auto simp: refused(1) server_inv_def busy_def)
  qed (use server_inv_sent[OF inv] in auto)
qed

lemma server_reach_frame:
  assumes "server_reach s req w0 st"
  shows "clock (nd st) = clock w0" "clock_reads w0 \<le> clock_reads (nd st)"
    "dd_ttl (dedupe (nd st)) = dd_ttl (dedupe w0)" "dd_max (dedupe (nd st)) = dd_max (dedupe w0)"
proof -
  have "clock (nd st) = clock w0 \<and> clock_reads w0 \<le> clock_reads (nd st) \<and>
    dd_ttl (dedupe (nd st)) = dd_ttl (dedupe w0) \<and> dd_max (dedupe (nd st)) = dd_max (dedupe w0)"
    using assms
  proof (induction rule: server_reach.induct)
    case (step st st')
    then show ?case using server_step_frame[OF step(2)] by simp
  qed simp
  then show "clock (nd st) = clock w0" "clock_reads w0 \<le> clock_reads (nd st)"
    "dd_ttl (dedupe (nd st)) = dd_ttl (dedupe w0)" "dd_max (dedupe (nd st)) = dd_max (dedupe w0)"
    by auto
qed

lemma server_inv_reach:
  assumes "server_reach s req w0 st" "node_inv (clock w0 (clock_reads w0)) w0"
    and "\<And>c. sr_SagaId (req c) \<in> S" "finite S" "int (card S) + 1 < dd_max (dedupe w0)"
    and "clock w0 (clock_reads (nd st)) \<le> clock w0 (clock_reads w0) + dd_ttl (dedupe w0)"
  shows "server_inv req S (clock w0 (clock_reads w0)) st"
  using assms(1,6)
proof (induction rule: server_reach.induct)
  case init
  then show ?case using assms(2) by (simp add: server_inv_def busy_def)
next
  case (step st st')
  note f = server_reach_frame[OF step(1)]
  have "clock w0 (clock_reads (nd st)) \<le> clock w0 (clock_reads (nd st'))"
    using server_step_frame(2)[OF step(2)] assms(2) strict_mono_less_eq[of "clock w0"] by (simp add: node_inv_def)
  then show ?case
    using server_inv_step[OF step(3) step(2) assms(3,4)] step(4) assms(5) f by simp
qed

text \<open>
  C31 (safety). Any number of concurrent calls on a well-formed cache, in every interleaving of
  claims, sends, answers and releases. As long as the time-to-live since the start has not passed, the clock advances
  strictly and the calls are about fewer than \<^verbatim>\<open>max - 1\<close> sagas, no two calls are ever sending for the
  same saga at the same time, and at most one send per saga ends with success, after which none is
  started, however often the calls for it are repeated.
\<close>

theorem concurrent_calls_send_once:
  assumes "server_reach s req w0 st"
    and "dedupe_ok w0" "strict_mono (clock w0)"
    and "\<forall>(k, t) \<in> set (dd_entries (dedupe w0)). t < clock w0 (clock_reads w0)"
    and "finite (range (\<lambda>c. sr_SagaId (req c)))"
    and "int (card (range (\<lambda>c. sr_SagaId (req c)))) < dd_max (dedupe w0) - 1"
    and "clock w0 (clock_reads (nd st)) - clock w0 (clock_reads w0) \<le> dd_ttl (dedupe w0)"
  shows "sent st i \<le> 1 \<and>
    (\<forall>c c'. pc st c = Sending \<and> pc st c' = Sending \<and> sr_SagaId (req c) = sr_SagaId (req c') \<longrightarrow> c = c') \<and>
    (sent st i = 1 \<longrightarrow> (\<forall>c. sr_SagaId (req c) = i \<longrightarrow> pc st c \<noteq> Sending))"
proof -
  have "server_inv req (range (\<lambda>c. sr_SagaId (req c))) (clock w0 (clock_reads w0)) st"
    using assms by (intro server_inv_reach[OF assms(1)]) (auto simp: node_inv_def past_def)
  then show ?thesis unfolding server_inv_def by (metis zero_neq_one)
qed

text \<open>Two calls for the same saga: the second is refused while the first is sending.\<close>

theorem concurrent_calls_send_once_witness:
  "\<exists>st. server_reach (demo_mailer 200) (\<lambda>_. demo_confirmation ''g1'') (demo_node 9) st \<and>
     pc st 0 = Answered \<and> pc st 1 = Answered \<and> sent st ''g1'' = 1 \<and> sent st ''g1'' \<le> 1"
proof -
  let ?s = "demo_mailer 200" and ?req = "\<lambda>_ :: nat. demo_confirmation ''g1''" and ?w0 = "demo_node 9"
  define w1 where "w1 = snd (TryClaim ''g1'' ?w0)"
  define w2 where "w2 = snd (TryClaim ''g1'' w1)"
  define w3 where "w3 = snd (send_call ?s (demo_confirmation ''g1'') w2)"
  have i: "sr_SagaId (demo_confirmation ''g1'') = ''g1''" by (simp add: demo_confirmation_def)
  have c1: "TryClaim ''g1'' ?w0 = (True, w1)" and c2: "TryClaim ''g1'' w1 = (False, w2)"
    and c3: "send_call ?s (demo_confirmation ''g1'') w2 = (None, w3)"
    unfolding w1_def w2_def w3_def by (auto intro!: prod_eqI) (code_simp+)
  let ?st0 = "\<lparr>nd = ?w0, pc = (\<lambda>_. Idle), sent = (\<lambda>_. 0)\<rparr>"
  let ?st1 = "?st0\<lparr>nd := w1, pc := (pc ?st0)(0 := Sending)\<rparr>"
  let ?st2 = "?st1\<lparr>nd := w2, pc := (pc ?st1)(1 := Answered)\<rparr>"
  let ?st3 = "?st2\<lparr>nd := w3, pc := (pc ?st2)(0 := Answered), sent := (sent ?st2)(''g1'' := Suc (sent ?st2 ''g1''))\<rparr>"
  have r1: "server_reach ?s ?req ?w0 ?st1"
    by (rule server_reach.step[OF server_reach.init], rule server_step.claims) (use c1 i in simp_all)
  have r2: "server_reach ?s ?req ?w0 ?st2"
    by (rule server_reach.step[OF r1], rule server_step.refused) (use c2 i in simp_all)
  have "server_step ?s ?req ?st2 ?st3"
    using server_step.accepted[of ?st2 0 ?s ?req w3] c3 i by simp
  note r3 = server_reach.step[OF r2 this]
  have "clock ?w0 (clock_reads w3) - clock ?w0 (clock_reads ?w0) \<le> Hour"
    unfolding w3_def w2_def w1_def by code_simp
  then have "sent ?st3 ''g1'' \<le> 1"
    using concurrent_calls_send_once[OF r3, of "''g1''"]
    by (auto simp: demo_node_def NewDedupe_def dedupe_ok_def order_ok_def strict_mono_def duration_defs)
  then show ?thesis by (intro exI[of _ ?st3] conjI r3) simp_all
qed

text \<open>
  A refused call is answered with OK at once, whatever becomes of the call that holds the claim:
  here both are answered, the second with OK, and no mail has been sent.
\<close>

lemma refused_call_may_end_unmailed:
  assumes "TryClaim (sr_SagaId rq) w0 = (True, w1)" "TryClaim (sr_SagaId rq) w1 = (False, w2)"
    and "send_call s rq w2 = (Some err, w3)"
  shows "fst (Server_SendConfirmation (Sender_SendConfirmation s) rq w1) = None \<and>
    (\<exists>st. server_reach s (\<lambda>_. rq) w0 st \<and> pc st 0 = Answered \<and> pc st 1 = Answered \<and> (\<forall>i. sent st i = 0))"
proof -
  let ?st0 = "\<lparr>nd = w0, pc = (\<lambda>_. Idle), sent = (\<lambda>_. 0)\<rparr>"
  let ?st1 = "?st0\<lparr>nd := w1, pc := (pc ?st0)(0 := Sending)\<rparr>"
  let ?st2 = "?st1\<lparr>nd := w2, pc := (pc ?st1)(1 := Answered)\<rparr>"
  let ?st3 = "?st2\<lparr>nd := Release_claim (sr_SagaId rq) w3, pc := (pc ?st2)(0 := Answered)\<rparr>"
  have "server_reach s (\<lambda>_. rq) w0 ?st1"
    by (rule server_reach.step[OF server_reach.init], rule server_step.claims) (use assms(1) in simp_all)
  then have "server_reach s (\<lambda>_. rq) w0 ?st2"
    by (rule server_reach.step, intro server_step.refused) (use assms(2) in simp_all)
  then have "server_reach s (\<lambda>_. rq) w0 ?st3"
    by (rule server_reach.step, intro server_step.failed) (use assms(3) in simp_all)
  then show ?thesis using assms(2) by (auto simp: Server_SendConfirmation_def intro!: exI[of _ ?st3])
qed

lemma refused_call_may_end_unmailed_run:
  "fst (Server_SendConfirmation (Sender_SendConfirmation (demo_mailer 500)) (demo_confirmation ''g1'')
       (snd (TryClaim ''g1'' (demo_node 9)))) = None \<and>
   (\<exists>st. server_reach (demo_mailer 500) (\<lambda>_. demo_confirmation ''g1'') (demo_node 9) st \<and>
      pc st 0 = Answered \<and> pc st 1 = Answered \<and> (\<forall>i. sent st i = 0))"
proof -
  let ?w1 = "snd (TryClaim ''g1'' (demo_node 9))" and ?rq = "demo_confirmation ''g1''"
  let ?w2 = "snd (TryClaim ''g1'' ?w1)"
  have i: "sr_SagaId ?rq = ''g1''" by (simp add: demo_confirmation_def)
  have c: "fst (TryClaim ''g1'' (demo_node 9)) \<and> \<not> fst (TryClaim ''g1'' ?w1)" by code_simp
  have "fst (send_call (demo_mailer 500) ?rq ?w2) \<noteq> None" by code_simp
  then obtain err where "send_call (demo_mailer 500) ?rq ?w2 = (Some err, snd (send_call (demo_mailer 500) ?rq ?w2))"
    by (metis option.exhaust prod.collapse)
  then show ?thesis
    by (intro refused_call_may_end_unmailed) (use c i in \<open>auto intro: prod_eqI\<close>)
qed

end
