(* ===== verification/ConsumerTheorems.thy ===== *)
theory ConsumerTheorems
  imports MailerTheorems SagaTheorems Frames
begin

text \<open>
  What the notifier's consumer guarantees: the bounded retries of a reply, the settlement of
  every delivery, the end of its loop, and where the shared cache does not prevent a second mail.
\<close>

section \<open>Retrying a reply\<close>

interpretation ctx_calls: kept_calls ctx_kept
  by unfold_locales (auto intro: ctx_kept_trans)

text \<open>The context was seen done between two states.\<close>

definition seen_done :: "('x, 'm) proc_scheme \<Rightarrow> ('x, 'm) proc_scheme \<Rightarrow> bool" where
  "seen_done w w' \<longleftrightarrow> (\<exists>m. ctx_reads w \<le> m \<and> m < ctx_reads w' \<and> ctx_done w m)"

lemma seen_done_here: "ctx_kept w v \<Longrightarrow> ctx_Err v = (True, w') \<Longrightarrow> seen_done w w'"
  by (auto simp: seen_done_def ctx_Err_def ctx_kept_def)

lemma seen_done_later: "ctx_kept w v \<Longrightarrow> seen_done v w' \<Longrightarrow> seen_done w w'"
  unfolding seen_done_def ctx_kept_def by (metis order_trans)

lemma reply_loop_cases:
  assumes "reply_loop pub (Suc k) b le w = ((r, ds), w')"
  obtains (sent) "pub w = (None, w')" "r = None" "ds = []"
  | (last) "k = 0" "r \<noteq> None" "ds = []"
  | (stopped) v where "v = snd (pub w) \<or> v = snd (ctx_Err (snd (pub w)))" "ctx_Err v = (True, w')"
      "r \<noteq> None" "ds = [] \<or> (k \<noteq> 0 \<and> ds = [b])"
  | (again) j err dd where "k = Suc j"
      "reply_loop pub (Suc j) (b * 2) (Some err) (snd (ctx_Err (snd (ctx_Err (snd (pub w)))))) = ((r, dd), w')"
      "ds = b # dd"
  using assms
  by (cases k) (auto simp: last split: prod.splits option.splits bool.splits if_splits)

lemma reply_loop_run:
  assumes kept: "\<And>v. ctx_kept v (snd (pub v))"
  shows "reply_loop pub (Suc k) b le w = ((r, ds), w') \<Longrightarrow>
    \<exists>n\<le>k. ds = map (\<lambda>j. b * 2 ^ j) [0..<n] \<and>
      (r = None \<longrightarrow> (\<exists>v. pub v = (None, w'))) \<and>
      (r \<noteq> None \<longrightarrow> n = k \<or> seen_done w w')"
proof (induction k arbitrary: b le w ds)
  case 0
  then show ?case by (cases rule: reply_loop_cases) auto
next
  note start = kept ctx_kept_trans[OF kept ctx_kept_simps(5)]
  case (Suc k)
  from Suc.prems show ?case
  proof (cases rule: reply_loop_cases)
    case (stopped v)
    have "seen_done w w'" using stopped(1) seen_done_here[OF _ stopped(2)] start by blast
    moreover have "ds = map (\<lambda>j. b * 2 ^ j) [0..<if ds = [] then 0 else 1]" using stopped(4) by auto
    ultimately show ?thesis using stopped(3) by (intro exI[of _ "if ds = [] then 0 else 1"]) auto
  next
    case (again j err dd)
    note later = seen_done_later[OF ctx_kept_trans[OF start(2) ctx_kept_simps(5)]]
    have "\<exists>n\<le>k. dd = map (\<lambda>j. b * 2 * 2 ^ j) [0..<n] \<and> (r = None \<longrightarrow> (\<exists>v. pub v = (None, w'))) \<and>
        (r \<noteq> None \<longrightarrow> n = k \<or> seen_done w w')"
      using Suc.IH[of "b * 2" "Some err" _ dd] again(1,2) later by blast
    then obtain n where n: "n \<le> k" "dd = map (\<lambda>j. b * 2 * 2 ^ j) [0..<n]"
        "r = None \<longrightarrow> (\<exists>v. pub v = (None, w'))" "r \<noteq> None \<longrightarrow> n = k \<or> seen_done w w'" by blast
    have "b # map (\<lambda>j. b * 2 * 2 ^ j) [0..<n] = map (\<lambda>j. b * 2 ^ j) [0..<Suc n]"
      by (simp only: upt_rec[of 0 "Suc n"] map_Suc_upt[symmetric]) (simp add: comp_def)
    then show ?thesis using n again(3) by (intro exI[of _ "Suc n"]) auto
  qed (auto intro!: exI[of _ 0])
qed

lemma publish_ctx: "ctx_kept w (snd (publish p k b w))"
  by (rule ctx_calls.kept_publish_call)

lemma reply_waits:
  assumes "n \<le> 4"
  shows "map (\<lambda>j. replyPublishInitialBackoff * 2 ^ j) [0..<n] =
      take n [200 * Millisecond, 400 * Millisecond, 800 * Millisecond, 1600 * Millisecond] \<and>
    sum_list (map (\<lambda>j. replyPublishInitialBackoff * 2 ^ j) [0..<n]) \<le> 3 * Second"
proof -
  have "n = 0 \<or> n = 1 \<or> n = 2 \<or> n = 3 \<or> n = 4" using assms by linarith
  then show ?thesis
    by (elim disjE) (simp_all add: replyPublishInitialBackoff_def duration_defs upt_rec)
qed

text \<open>
  C33 (termination). Publishing a saga reply ends after at most five attempts. Between attempts
  it waits 200, 400, 800 and 1600 milliseconds, in this order and never more than three seconds in
  all; it succeeds only if its last attempt did, and gives up only after the fifth failure or
  once it has seen the context done.
\<close>

theorem publishReply_is_bounded:
  assumes "pub = PublishConfirmationSent p i \<or> pub = PublishConfirmationFailed p i reason"
    and "publishReplyWithRetry pub w = ((r, ds), w')"
  shows "\<exists>n\<le>4. ds = take n [200 * Millisecond, 400 * Millisecond, 800 * Millisecond, 1600 * Millisecond] \<and>
    sum_list ds \<le> 3 * Second \<and>
    (r = None \<longrightarrow> (\<exists>v. pub v = (None, w'))) \<and>
    (r \<noteq> None \<longrightarrow> n = 4 \<or> (\<exists>m. ctx_reads w \<le> m \<and> m < ctx_reads w' \<and> ctx_done w m))"
proof -
  have five: "replyPublishAttempts = Suc 4" by (simp add: replyPublishAttempts_def)
  obtain k b where pub: "pub = publish p k b"
    using assms(1) unfolding PublishConfirmationSent_def PublishConfirmationFailed_def by blast
  have run: "reply_loop pub (Suc 4) replyPublishInitialBackoff None w = ((r, ds), w')"
    using assms(2) unfolding publishReplyWithRetry_def five .
  have ctx: "\<And>v. ctx_kept v (snd (pub v))" unfolding pub by (rule publish_ctx)
  obtain n where n: "n \<le> 4" "ds = map (\<lambda>j. replyPublishInitialBackoff * 2 ^ j) [0..<n]"
    "r = None \<longrightarrow> (\<exists>v. pub v = (None, w'))"
    "r \<noteq> None \<longrightarrow> n = 4 \<or> (\<exists>m. ctx_reads w \<le> m \<and> m < ctx_reads w' \<and> ctx_done w m)"
    using reply_loop_run[where pub = pub, OF ctx run] unfolding seen_done_def by blast
  have "ds = take n [200 * Millisecond, 400 * Millisecond, 800 * Millisecond, 1600 * Millisecond] \<and>
      sum_list ds \<le> 3 * Second"
    unfolding n(2) by (rule reply_waits[OF n(1)])
  then show ?thesis using n(1,3,4) by blast
qed

definition no_publisher :: "'x Publisher" where
  "no_publisher = \<lparr>pub_ch = (\<lambda>x. None)\<rparr>"

theorem publishReply_is_bounded_witness:
  "let ((r, ds), w') = publishReplyWithRetry (PublishConfirmationSent no_publisher ''g1'') (demo_node 9)
   in r \<noteq> None \<and> length ds = 4 \<and> sum_list ds \<le> 3 * Second"
proof -
  let ?run = "publishReplyWithRetry (PublishConfirmationSent no_publisher ''g1'') (demo_node 9)"
  obtain r ds w' where run: "?run = ((r, ds), w')" by (metis surj_pair)
  have "fst (fst ?run) \<noteq> None \<and> length (snd (fst ?run)) = 4"
    by (simp add: publishReplyWithRetry_def replyPublishAttempts_def PublishConfirmationSent_def publish_def
        no_publisher_def ctx_Err_def inc_def demo_node_def eval_nat_numeral)
  moreover have "sum_list ds \<le> 3 * Second"
    using publishReply_is_bounded[OF disjI1[OF refl] run] by blast
  ultimately show ?thesis using run by simp
qed

section \<open>What the calls leave alone\<close>

text \<open>
  \<open>log\<close> reads something the world outside records. A publisher and a mailer leave it alone when
  none of their calls adds to it.
\<close>

definition publisher_keeps :: "('x \<Rightarrow> 'a) \<Rightarrow> 'x Publisher \<Rightarrow> bool" where
  "publisher_keeps log p \<longleftrightarrow>
     (\<forall>x ch. pub_ch p x = Some ch \<longrightarrow>
        (\<forall>ex k m i b y. log (snd (ch_Publish ch ex k m i b y)) = log y) \<and>
        (\<forall>t y. log (snd (ch_Wait ch t y)) = log y))"

definition mailer_keeps :: "('x \<Rightarrow> 'a) \<Rightarrow> 'x Sender \<Rightarrow> bool" where
  "mailer_keeps log s \<longleftrightarrow> (\<forall>rq x. log (snd (mc_Do (sd_httpClient s) rq x)) = log x)"

lemma log_publish:
  assumes "publisher_keeps log p" "publish p k b w = (r, v)"
  shows "log (outside v) = log (outside w)"
proof (cases "pub_ch p (outside w)")
  case None
  then show ?thesis using assms(2) by (auto simp: publish_def inc_def)
next
  case (Some ch)
  obtain q x1 where q: "ch_Publish ch ExchangeNotifications k True False b (outside w) = (q, x1)" by fastforce
  have l: "log (snd (ch_Publish ch ExchangeNotifications k True False b (outside w))) = log (outside w)"
    "\<And>t y. log (snd (ch_Wait ch t y)) = log y"
    using assms(1) Some by (auto simp: publisher_keeps_def)
  show ?thesis
    using assms(2) Some q l
    by (auto simp: publish_def Let_def time_Now_def call_outside_def inc_def
        split: sum.splits prod.splits if_splits)
qed

lemma log_reply_loop:
  assumes "\<And>v r v'. pub v = (r, v') \<Longrightarrow> log (outside v') = log (outside v)"
  shows "log (outside (snd (reply_loop pub k b le w))) = log (outside w)"
proof (induction k arbitrary: b le w)
  case (Suc k)
  have e: "outside v' = outside v" if "ctx_Err v = (d, v')" for v v' :: "('a, 'b) proc_scheme" and d
    using that by (auto simp: ctx_Err_def)
  obtain q w1 where p: "pub w = (q, w1)" by fastforce
  show ?case
    using p assms[OF p] e Suc.IH[of "b * 2"]
    by (auto split: option.splits prod.splits bool.splits) (metis snd_conv)+
qed simp

lemma log_reply:
  assumes "publisher_keeps log p" "pub = PublishConfirmationSent p i \<or> pub = PublishConfirmationFailed p i reason"
    "publishReplyWithRetry pub w = (r, v)"
  shows "log (outside v) = log (outside w)"
  using log_reply_loop[where pub = pub and log = log and w = w] log_publish[OF assms(1)] assms(2,3)
  unfolding publishReplyWithRetry_def PublishConfirmationSent_def PublishConfirmationFailed_def
  by (metis snd_conv)

lemma log_send:
  assumes "mailer_keeps log s" "send s a t h w = (r, v)"
  shows "log (outside v) = log (outside w)"
  using assms
  by (auto simp: mailer_keeps_def send_def call_outside_def prod_eq_iff
      split: option.splits sum.splits prod.splits if_splits)

lemma log_Sender:
  fixes w v :: "('x, 'm) proc_scheme"
  assumes "mailer_keeps log s"
  shows "Sender_SendConfirmation s a cd w = (r, v) \<Longrightarrow> log (outside v) = log (outside w)"
    and "Sender_SendReleaseNotification s a rd w = (r, v) \<Longrightarrow> log (outside v) = log (outside w)"
  using log_send[OF assms]
  by (fastforce simp: Sender_SendConfirmation_def Sender_SendReleaseNotification_def inc_def
      split: sum.splits prod.splits option.splits)+

section \<open>Every delivery is settled once\<close>

datatype settlement = Acked | Nacked bool

text \<open>Settling adds to the broker's record of settlements.\<close>

definition settles :: "('x \<Rightarrow> settlement list) \<Rightarrow> 'x delivery \<Rightarrow> bool" where
  "settles log d \<longleftrightarrow> (\<forall>x. log (dl_Ack d x) = log x @ [Acked]) \<and>
     (\<forall>q x. log (dl_Nack d q x) = log x @ [Nacked q])"

text \<open>How a delivery may be settled: by what it is, and for a release by how the mail went.\<close>

definition settled_as :: "'x delivery \<Rightarrow> settlement \<Rightarrow> bool" where
  "settled_as d v \<longleftrightarrow>
     (if dl_RoutingKey d = RoutingKeyCmdSendConfirmation
      then v = (case unmarshal_command (dl_Body d) of Inl _ \<Rightarrow> Nacked False | Inr _ \<Rightarrow> Acked)
      else if dl_RoutingKey d = RoutingKeyRelease
      then v = Nacked False \<or> v = Acked \<and> (\<exists>m. unmarshal_release (dl_Body d) = Inr m)
      else v = Nacked False)"

lemma outside_Mark [simp]: "outside (Mark i w) = outside w"
  by (rule dd_onlyD(7)[OF dd_only_ops(1)])

lemma dispatch_settles:
  fixes w :: "'x node"
  assumes d: "settles log d" and m: "mailer_keeps log s" and p: "publisher_keeps log p"
    and run: "dispatch (wired_consumer s p) d w = (res, w')"
  shows "\<exists>v. log (outside w') = log (outside w) @ [v] \<and> settled_as d v \<and> (res = resultAck \<longleftrightarrow> v = Acked)"
proof -
  have settle: "log (outside (ack d v)) = log (outside v) @ [Acked]"
    "log (outside (nack q d v)) = log (outside v) @ [Nacked q]" for q and v :: "'x node"
    using d by (simp_all add: settles_def ack_def nack_def)
  note names = resultAck_def resultNack_def resultUnknown_def
  show ?thesis
  proof (cases "dl_RoutingKey d = RoutingKeyCmdSendConfirmation")
    case True
    then show ?thesis
      using run settle log_Sender(1)[OF m] log_reply[OF p disjI1[OF refl]] log_reply[OF p disjI2[OF refl]]
      by (fastforce simp: dispatch_def settled_as_def wired_consumer_def names Let_def
          split: sum.splits option.splits prod.splits)
  next
    case False
    then show ?thesis
      using run settle log_Sender(2)[OF m]
      by (fastforce simp: dispatch_def settled_as_def wired_consumer_def names
          split: sum.splits option.splits prod.splits if_splits)
  qed
qed

lemma handle_settles:
  fixes w :: "'x node"
  assumes "settles log d" "mailer_keeps log s" "publisher_keeps log p"
  shows "\<exists>v. log (outside (Consumer_handle (wired_consumer s p) d w)) = log (outside w) @ [v] \<and> settled_as d v"
proof -
  obtain res w2 where run: "dispatch (wired_consumer s p) d (snd (time_Now w)) = (res, w2)" by fastforce
  show ?thesis
    using dispatch_settles[OF assms run] run
    by (simp add: Consumer_handle_def Let_def split_def inc_def time_Now_def) blast
qed

text \<open>
  C34 (safety). Over any sequence of deliveries the notifier's consumer settles every delivery
  exactly once, in order, and never asks for a redelivery: a command it can decode is always
  acked, whether or not the mail or the reply went out; an undecodable body and an unknown
  routing key are rejected without requeueing; a release that is acked was decoded.
\<close>

theorem deliveries_settled_once:
  fixes w :: "'x node"
  assumes "\<And>d. d \<in> set ds \<Longrightarrow> settles log d" "mailer_keeps log s" "publisher_keeps log p"
  shows "\<exists>vs. log (outside (fold (Consumer_handle (wired_consumer s p)) ds w)) = log (outside w) @ vs \<and>
    list_all2 settled_as ds vs"
  using assms(1)
proof (induction ds arbitrary: w)
  case (Cons d ds)
  obtain v where v: "log (outside (Consumer_handle (wired_consumer s p) d w)) = log (outside w) @ [v]" "settled_as d v"
    using handle_settles[OF Cons.prems[of d] assms(2,3)] by auto
  obtain vs where "log (outside (fold (Consumer_handle (wired_consumer s p)) ds
      (Consumer_handle (wired_consumer s p) d w))) = log (outside w) @ [v] @ vs" "list_all2 settled_as ds vs"
    using Cons.IH[of "Consumer_handle (wired_consumer s p) d w"] Cons.prems v(1) by auto
  then show ?case using v(2) by (intro exI[of _ "v # vs"]) simp
qed simp

text \<open>
  The outside of the concrete runs: the mails Resend accepted and the settlements the broker
  recorded. Resend answers every request with \<open>code\<close>.
\<close>

type_synonym ledger = "mail_request list \<times> settlement list"

definition ledger_mailer :: "nat \<Rightarrow> ledger Sender" where
  "ledger_mailer code =
     \<lparr>sd_httpClient = \<lparr>mc_BadURL = (\<lambda>u. None), mc_Do = (\<lambda>rq (ms, vs). (Inr code, (ms @ [rq], vs)))\<rparr>,
      sd_apiURL = ''https://mail'', sd_apiKey = ''k'', sd_from = ''f@b.co'',
      sd_renderer = \<lparr>rn_confirmTmpl = (\<lambda>d. Inr (cd_ConfirmURL d)), rn_releaseTmpl = (\<lambda>d. Inr (rd_Body d))\<rparr>\<rparr>"

definition ledger_delivery :: "string \<Rightarrow> body \<Rightarrow> ledger delivery" where
  "ledger_delivery k b = \<lparr>dl_RoutingKey = k, dl_Body = b, dl_Ack = (\<lambda>(ms, vs). (ms, vs @ [Acked])),
     dl_Nack = (\<lambda>q (ms, vs). (ms, vs @ [Nacked q]))\<rparr>"

definition ledger_node :: "(nat \<Rightarrow> bool) \<Rightarrow> ledger node" where
  "ledger_node stop = \<lparr>clock = (\<lambda>n. int n * Second), clock_reads = 0, uuids = (\<lambda>n. replicate n CHR ''i''),
     uuid_reads = 0, ctx_done = stop, ctx_reads = 0, metrics = (\<lambda>_. 0), outside = ([], []),
     dedupe = NewDedupe (\<lambda>n es. es) 9 Hour\<rparr>"

definition ledger_command :: SendConfirmationCommand where
  "ledger_command = \<lparr>sc_SagaID = ''g1'', sc_To = ''a@b.co'', sc_Repo = ''golang/go'', sc_ConfirmURL = ''http://h''\<rparr>"

lemma ledger_keeps [simp]:
  "settles snd (ledger_delivery k b)" "mailer_keeps snd (ledger_mailer code)" "publisher_keeps log no_publisher"
  by (simp_all add: settles_def ledger_delivery_def mailer_keeps_def ledger_mailer_def publisher_keeps_def
      no_publisher_def split_def)

theorem deliveries_settled_once_witness:
  "snd (outside (fold (Consumer_handle (wired_consumer (ledger_mailer 500) no_publisher))
     [ledger_delivery RoutingKeyCmdSendConfirmation (marshal_command ledger_command),
      ledger_delivery ''other'' (marshal_command ledger_command)] (ledger_node (\<lambda>_. False)))) = [Acked, Nacked False]"
proof -
  let ?c = "ledger_delivery RoutingKeyCmdSendConfirmation (marshal_command ledger_command)"
  let ?u = "ledger_delivery ''other'' (marshal_command ledger_command)"
  have forced: "settled_as ?c v \<Longrightarrow> v = Acked" "settled_as ?u v \<Longrightarrow> v = Nacked False" for v
    by (simp_all add: settled_as_def ledger_delivery_def RoutingKeyCmdSendConfirmation_def RoutingKeyRelease_def)
  have all_settle: "\<And>d. d \<in> set [?c, ?u] \<Longrightarrow> settles snd d" by auto
  obtain vs where "snd (outside (fold (Consumer_handle (wired_consumer (ledger_mailer 500) no_publisher))
      [?c, ?u] (ledger_node (\<lambda>_. False)))) = vs" "list_all2 settled_as [?c, ?u] vs"
    using deliveries_settled_once[where ds = "[?c, ?u]" and w = "ledger_node (\<lambda>_. False)",
        OF all_settle ledger_keeps(2,3)]
    by (auto simp: ledger_node_def)
  then show ?thesis using forced by (auto simp: list_all2_Cons1)
qed

section \<open>The consumer does not claim before it sends\<close>

text \<open>\<open>mails\<close> is the mail Resend has received: every request adds to it, nothing else does.\<close>

definition records_mail :: "('x \<Rightarrow> mail_request list) \<Rightarrow> 'x Sender \<Rightarrow> bool" where
  "records_mail mails s \<longleftrightarrow> (\<forall>rq x. mails (snd (mc_Do (sd_httpClient s) rq x)) = mails x @ [rq])"

lemma send_records:
  fixes w v :: "('x, 'm) proc_scheme"
  assumes "records_mail mails s" "mc_BadURL (sd_httpClient s) (sd_apiURL s) = None"
    "RenderConfirmation (sd_renderer s) cd = Inr html" "Sender_SendConfirmation s a cd w = (r, v)"
  shows "mails (outside v) = mails (outside w) @ [mail_of s a (cd_Repo cd) html]"
  using assms
  by (auto simp: Sender_SendConfirmation_def send_def call_outside_def inc_def mail_of_def records_mail_def
      prod_eq_iff split: sum.splits prod.splits option.splits if_splits)

lemma dispatch_command_mails:
  fixes w :: "'x node"
  assumes mail: "records_mail mails s" "mc_BadURL (sd_httpClient s) (sd_apiURL s) = None"
    and render: "RenderConfirmation (sd_renderer s) \<lparr>cd_Repo = sc_Repo msg, cd_ConfirmURL = sc_ConfirmURL msg\<rparr> = Inr html"
    and p: "publisher_keeps mails p" and ack: "\<And>x. mails (dl_Ack d x) = mails x"
    and d: "dl_RoutingKey d = RoutingKeyCmdSendConfirmation" "unmarshal_command (dl_Body d) = Inr msg"
    and run: "dispatch (wired_consumer s p) d w = (res, w')"
  shows "mails (outside w') = mails (outside w) @ [mail_of s (sc_To msg) (sc_Repo msg) html]"
proof -
  have acked: "mails (outside (Consumer.ack d v)) = mails (outside v)" for v :: "'x node"
    using ack by (simp add: ack_def)
  obtain r w1 where sent: "Sender_SendConfirmation s (sc_To msg)
      \<lparr>cd_Repo = sc_Repo msg, cd_ConfirmURL = sc_ConfirmURL msg\<rparr> w = (r, w1)" by fastforce
  have "mails (outside w') = mails (outside w1)"
    using run sent d acked log_reply[OF p disjI1[OF refl]] log_reply[OF p disjI2[OF refl]]
    by (cases r) (fastforce simp: dispatch_def wired_consumer_def Let_def split: prod.splits)+
  then show ?thesis using send_records[OF mail render sent] by simp
qed

text \<open>
  C35 (safety). The cache of recent sagas does not protect the asynchronous path. When a
  \<^verbatim>\<open>SendConfirmation\<close> call has claimed a saga, mailed and answered OK, the saga is recorded, and
  still the command of the same saga that arrives over RabbitMQ afterwards mails again:
  \<^verbatim>\<open>dispatch\<close> marks a saga after sending but never looks it up before.
\<close>

theorem command_after_call_mails_twice:
  fixes w :: "'x node"
  assumes "dedupe_ok w" and mail: "records_mail mails s" and p: "publisher_keeps mails p"
    and ack: "\<And>x. mails (dl_Ack d x) = mails x"
    and call: "notifier_grpc validate s req w = (None, w1)" "validate req = None" "fst (TryClaim (sr_SagaId req) w)"
    and d: "dl_RoutingKey d = RoutingKeyCmdSendConfirmation"
      "unmarshal_command (dl_Body d) = Inr \<lparr>sc_SagaID = sr_SagaId req, sc_To = sr_To req, sc_Repo = sr_Repo req,
         sc_ConfirmURL = sr_ConfirmUrl req\<rparr>"
    and run: "dispatch (wired_consumer s p) d w1 = (res, w2)"
  shows "map_of (dd_entries (dedupe w1)) (sr_SagaId req) \<noteq> None \<and>
    (\<exists>m. mails (outside w2) = mails (outside w) @ [m, m])"
proof -
  obtain v where v: "TryClaim (sr_SagaId req) w = (True, v)" using call(3) by (cases "TryClaim (sr_SagaId req) w") simp
  have ov: "outside v = outside w" using insert_no_outside[OF dd_only_ops(2)[of w "sr_SagaId req"]] v by simp
  let ?cd = "\<lparr>cd_Repo = sr_Repo req, cd_ConfirmURL = sr_ConfirmUrl req\<rparr>"
  have sent: "Sender_SendConfirmation s (sr_To req) ?cd v = (None, w1)"
    using call(1,2) v by (auto simp: notifier_grpc_def ValidationUnaryInterceptor_def Server_SendConfirmation_def
        split: option.splits prod.splits)
  obtain html where html: "RenderConfirmation (sd_renderer s) ?cd = Inr html"
    using sent by (cases "RenderConfirmation (sd_renderer s) ?cd") (simp_all add: Sender_SendConfirmation_def)
  have url: "mc_BadURL (sd_httpClient s) (sd_apiURL s) = None"
    using sent html by (cases "mc_BadURL (sd_httpClient s) (sd_apiURL s)")
      (simp_all add: Sender_SendConfirmation_def send_def)
  have "map_of (dd_entries (dedupe w1)) (sr_SagaId req) \<noteq> None"
    using claim_granted[OF v assms(1)] io_only_node[OF Sender_frames(1)[OF sent]] by simp
  then show ?thesis
    using send_records[OF mail url html sent] dispatch_command_mails[OF mail url _ p ack d run] html ov by simp
qed

theorem command_after_call_mails_twice_witness:
  "\<exists>m. fst (outside (snd (dispatch (wired_consumer (ledger_mailer 200) no_publisher)
      (ledger_delivery RoutingKeyCmdSendConfirmation (marshal_command ledger_command))
      (snd (notifier_grpc (\<lambda>_. None) (ledger_mailer 200) (demo_confirmation ''g1'') (ledger_node (\<lambda>_. False))))))) = [m, m]"
proof -
  let ?d = "ledger_delivery RoutingKeyCmdSendConfirmation (marshal_command ledger_command)"
  let ?call = "notifier_grpc (\<lambda>_. None) (ledger_mailer 200) (demo_confirmation ''g1'') (ledger_node (\<lambda>_. False))"
  have parts: "dedupe_ok (ledger_node (\<lambda>_. False))" "records_mail fst (ledger_mailer 200)"
    "\<And>x. fst (dl_Ack ?d x) = fst x" "dl_RoutingKey ?d = RoutingKeyCmdSendConfirmation"
    "unmarshal_command (dl_Body ?d) = Inr \<lparr>sc_SagaID = sr_SagaId (demo_confirmation ''g1''),
       sc_To = sr_To (demo_confirmation ''g1''), sc_Repo = sr_Repo (demo_confirmation ''g1''),
       sc_ConfirmURL = sr_ConfirmUrl (demo_confirmation ''g1'')\<rparr>"
    by (simp_all add: dedupe_ok_def order_ok_def ledger_node_def NewDedupe_def records_mail_def ledger_mailer_def
        ledger_delivery_def demo_confirmation_def ledger_command_def split_def)
  have claim: "fst (TryClaim (sr_SagaId (demo_confirmation ''g1'')) (ledger_node (\<lambda>_. False)))" by code_simp
  have "fst ?call = None" by code_simp
  then obtain w1 where call: "?call = (None, w1)" by (cases ?call) simp
  obtain res w2 where run: "dispatch (wired_consumer (ledger_mailer 200) no_publisher) ?d w1 = (res, w2)" by fastforce
  show ?thesis
    using command_after_call_mails_twice[OF parts(1,2) ledger_keeps(3) parts(3) call refl claim parts(4,5) run] call run
    by (simp add: ledger_node_def)
qed

section \<open>The consumer's loop\<close>

text \<open>Nothing a session does touches the context of the process beyond looking at it.\<close>

lemma mark_ctx: "ctx_kept w (Mark i w)"
  using dd_onlyD(4,5)[OF dd_only_ops(1)[of w i]] by (simp add: ctx_kept_def)

interpretation consumer_ctx: kept_consumer ctx_kept "wired_consumer s p" UNIV
  for s :: "'x Sender" and p :: "'x Publisher"
  by unfold_locales
    (auto simp: wired_consumer_def ctx_calls.kept_Sender mark_ctx PublishConfirmationSent_def PublishConfirmationFailed_def publish_ctx)

text \<open>
  A session returns: when the context is done a \<^verbatim>\<open>select\<close> that finds nothing else takes it, and one
  that finds a delivery can pick that only \<open>over\<close> times in a row.
\<close>

lemma look_progress:
  assumes "\<forall>m\<ge>N. ctx_done w m" "call_outside f w = (a, w1)" "ctx_Err w1 = (dn, w2)" "ctx_kept w2 v"
  shows "(\<forall>m\<ge>N. ctx_done v m) \<and> N - ctx_reads v \<le> N - ctx_reads w \<and>
    (\<not> dn \<longrightarrow> N - ctx_reads v < N - ctx_reads w)"
proof -
  have e: "ctx_done w1 = ctx_done w" "ctx_reads w1 = ctx_reads w"
    using assms(2) by (auto simp: call_outside_def split: prod.splits)
  have "dn = ctx_done w (ctx_reads w)" "ctx_done v = ctx_done w" "Suc (ctx_reads w) \<le> ctx_reads v"
    using assms(3,4) e by (auto simp: ctx_Err_def ctx_kept_def)
  moreover have "\<not> ctx_done w (ctx_reads w) \<Longrightarrow> ctx_reads w < N" using assms(1) not_le by blast
  ultimately show ?thesis using assms(1) by auto
qed

lemma await_end_returns:
  fixes w :: "'x node"
  shows "\<forall>m\<ge>N. ctx_done w m \<Longrightarrow> N - ctx_reads w + over < n \<Longrightarrow>
    await_end n over (wired_consumer s p) src w \<noteq> None"
proof (induction n arbitrary: over w)
  case (Suc n)
  obtain a w1 where a: "call_outside src w = (a, w1)" by fastforce
  obtain dn w2 where dn: "ctx_Err w1 = (dn, w2)" by fastforce
  note step = look_progress[OF Suc.prems(1) a dn]
  have later: "await_end n o' (wired_consumer s p) src v \<noteq> None"
    if "ctx_kept w2 v" "if dn then o' < over else o' \<le> over" for o' v
    using Suc.IH[of v o'] step[OF that(1)] Suc.prems(2) that(2) by (cases dn) auto
  have h: "ctx_kept w2 (Consumer_handle (wired_consumer s p) d w2)" for d by (rule consumer_ctx.kept_handle) simp
  show ?case
    using later[OF ctx_kept_refl] later[OF h] by (cases a; cases dn) (auto simp: a dn context_chosen_def)
qed simp

lemma drain_queues_returns: "over < n \<Longrightarrow> drain_queues n over True c src w \<noteq> None"
proof (induction n arbitrary: over w)
  case (Suc n)
  obtain a w1 where a: "call_outside src w = (a, w1)" by fastforce
  show ?case
    using Suc.IH[of "over - 1"] Suc.prems by (cases a) (auto simp: a context_chosen_def)
qed simp

lemma Consumer_session_returns:
  fixes w :: "'x node"
  assumes "\<forall>m\<ge>N. ctx_done w m" "N - ctx_reads w + (over + drains) < n"
  shows "Consumer_runSession over (wired_consumer s p) lib drains src n x w \<noteq> None"
proof -
  obtain r w1 where st: "startConsumers lib (snd x) (sessionQueues (wired_consumer s p)) w = (r, w1)" by fastforce
  have "ctx_kept w w1"
    using consumer_ctx.kept_startConsumers[of w lib "snd x" "sessionQueues (wired_consumer s p)"] st by simp
  then have "\<forall>m\<ge>N. ctx_done w1 m" "N - ctx_reads w1 + over < n"
    using assms by (auto simp: ctx_kept_def)
  from await_end_returns[OF this, of s p src]
  obtain e w2 where e: "await_end n over (wired_consumer s p) src w1 = Some (e, w2)" by fastforce
  obtain se w3 where se: "awaitSessionEnd lib (snd x) (sessionQueues (wired_consumer s p)) e w2 = (se, w3)" by fastforce
  have "drain_queues n drains True (wired_consumer s p) src w3 \<noteq> None"
    by (rule drain_queues_returns) (use assms(2) in simp)
  then show ?thesis
    using st e se by (auto simp: Consumer_runSession_def split_def split: option.splits)
qed

interpretation consumer_loop: reconnecting "consumer_client over (wired_consumer s p) lib drains src" "over + drains"
  for over and s :: "'x Sender" and p :: "'x Publisher" and lib drains src
proof unfold_locales
  show "ctx_kept w v" if "cl_dial (consumer_client over (wired_consumer s p) lib drains src) w = (r, v)"
    for r and w v :: "'x node"
    using that ctx_kept_simps(1)[of w "Consumer_dial lib"] by (simp add: consumer_client_def)
  show "ctx_kept w v" if "cl_session (consumer_client over (wired_consumer s p) lib drains src) n x w = Some (e, v)"
    for n x e and w v :: "'x node"
    using that consumer_ctx.kept_session[OF refl] by (simp add: consumer_client_def)
  show "cl_session (consumer_client over (wired_consumer s p) lib drains src) n x w \<noteq> None"
    if "\<forall>m\<ge>N. ctx_done w m" "N - ctx_reads w + (over + drains) < n" for N n x and w :: "'x node"
    using Consumer_session_returns[OF that] by (simp add: consumer_client_def)
qed (simp add: consumer_client_def)

text \<open>The notifier's consumer returns once the context is done, and only then.\<close>

lemma Consumer_Run_ends:
  fixes w :: "'x node"
  assumes "\<forall>m\<ge>N. ctx_done w m" "N - ctx_reads w + over + drains + 1 < fuel"
  shows "\<exists>ds w'. Consumer_Run fuel over (wired_consumer s p) lib drains src x w = Some (ds, w') \<and>
    (\<exists>m. ctx_reads w \<le> m \<and> m < ctx_reads w' \<and> ctx_done w m) \<and>
    (\<forall>d\<in>set ds. backoff_wait d)"
proof -
  have fuel: "N - ctx_reads w + (over + drains) + 1 < fuel" using assms(2) by simp
  obtain ds w' where run: "Consumer_Run fuel over (wired_consumer s p) lib drains src x w = Some (ds, w')"
    using consumer_loop.ends(1)[OF assms(1) fuel] unfolding Consumer_Run_def by (metis not_None_eq surj_pair)
  then show ?thesis
    using consumer_loop.returns_cancelled(1)[OF first_in_range run[unfolded Consumer_Run_def]]
    by (auto simp: cancelled_run_def intro: backoff_waits)
qed

end
