(* ===== verification/RepliesTheorems.thy ===== *)
theory RepliesTheorems
  imports Frames ConsumerTheorems
begin

text \<open>
  What the replies consumer of \<^verbatim>\<open>cmd/server\<close> guarantees: how it settles the notifier's replies
  against the state of the saga, that late replies change nothing, and when its loop ends.
\<close>

section \<open>The handlers ask nothing of the outside\<close>

text \<open>A repository call reads the clock and the database; the broker and the context stay.\<close>

definition apart :: "'x world \<Rightarrow> 'x world \<Rightarrow> bool" where
  "apart w v \<longleftrightarrow> outside v = outside w \<and> ctx_done v = ctx_done w \<and> ctx_reads v = ctx_reads w"

lemma apart_refl [simp]: "apart w w"
  by (simp add: apart_def)

lemma apart_trans: "apart w v \<Longrightarrow> apart v x \<Longrightarrow> apart w x"
  by (simp add: apart_def)

lemma apart_sql:
  "apart w (snd (exec_sql f w))" "apart w (snd (exec_affecting what g w))" "apart w (snd (one_row what h w))"
  by (auto simp: apart_def exec_sql_def exec_affecting_def one_row_def Let_def
      split: db_outcome.splits prod.splits sum.splits if_splits)

lemma apart_calls:
  "apart w (snd (SagaRepository_Get i w))" "apart w (snd (MarkCompleted i w))"
  "apart w (snd (MarkCompensated i reason w))" "apart w (snd (SubscriptionRepository_Delete i w))"
proof -
  have now: "apart w (snd (time_Now w))" by (simp add: apart_def time_Now_def)
  show "apart w (snd (SagaRepository_Get i w))" unfolding SagaRepository_Get_def by (rule apart_sql)
  show "apart w (snd (MarkCompleted i w))" "apart w (snd (MarkCompensated i reason w))"
    unfolding MarkCompleted_def MarkCompensated_def markTerminal_def Let_def split_def
    by (rule apart_trans[OF now apart_sql(2)])+
  show "apart w (snd (SubscriptionRepository_Delete i w))"
    unfolding SubscriptionRepository_Delete_def by (rule apart_sql)
qed

interpretation aparts: kept_compensation apart "wired p r u" i
  for p :: "'x Publisher" and r :: "'x Retrier" and u i
proof
  show "apart w w" for w :: "'x world" by simp
  show "apart w w''" if "apart w w'" "apart w' w''" for w w' w'' :: "'x world" using that by (rule apart_trans)
qed (simp_all add: pg_sagas_def pg_subs_def apart_calls)

lemma apart_handlers:
  "apart w (snd (HandleSent (wired p r u) i w))" "apart w (snd (HandleFailed (wired p r u) i reason w))"
proof -
  show "apart w (snd (HandleSent (wired p r u) i w))"
    using apart_calls(2)[of w i] by (auto simp: HandleSent_def pg_sagas_def split: prod.splits option.splits)
  show "apart w (snd (HandleFailed (wired p r u) i reason w))" by (rule aparts.kept_HandleFailed)
qed

context orchestrator
begin

text \<open>With nothing failing, \<^verbatim>\<open>HandleSent\<close> reports no error.\<close>

lemma HandleSent_sure:
  assumes "inv w" "sure w" "HandleSent oc i w = (r, w')"
  shows "r = None"
  using assms MarkCompleted[of w i]
  by (fastforce simp: HandleSent_def real_error_def split: prod.splits option.splits if_splits)

end

section \<open>How a reply is settled\<close>

text \<open>The saga a delivery replies to: none for an undecodable body or an unknown routing key.\<close>

definition reply_saga :: "'x delivery \<Rightarrow> string option" where
  "reply_saga d =
     (if dl_RoutingKey d = RoutingKeyEventConfirmationSent
      then (case unmarshal_sent (dl_Body d) of Inl _ \<Rightarrow> None | Inr ev \<Rightarrow> Some (cs_SagaID ev))
      else if dl_RoutingKey d = RoutingKeyEventConfirmationFailed
      then (case unmarshal_failed (dl_Body d) of Inl _ \<Rightarrow> None | Inr ev \<Rightarrow> Some (cf_SagaID ev))
      else None)"

lemma settled_views [simp]:
  "saga_at (ack d w) = saga_at w" "sub_at (ack d w) = sub_at w" "world_ok (ack d w) = world_ok w"
  "saga_at (nack q d w) = saga_at w" "sub_at (nack q d w) = sub_at w" "world_ok (nack q d w) = world_ok w"
  "quiet (ack d w) = quiet w" "quiet (nack q d w) = quiet w"
  by (simp_all add: ack_def nack_def saga_at_def sub_at_def world_ok_def fun_eq_iff)

text \<open>One reply: the call of the orchestrator it makes, then how it is settled.\<close>

lemma reply_runs:
  assumes "Replies_handle (wired_replies p r u) d w = w'" "reply_saga d = Some i"
  obtains reason e v where "HandleSent (wired p r u) i w = (e, v) \<or> HandleFailed (wired p r u) i reason w = (e, v)"
    "w' = (if e = None then ack d v else nack True d v)"
proof (cases "dl_RoutingKey d = RoutingKeyEventConfirmationSent")
  case True
  then obtain ev where ev: "unmarshal_sent (dl_Body d) = Inr ev" "i = cs_SagaID ev"
    using assms(2) by (auto simp: reply_saga_def split: sum.splits)
  obtain e v where "HandleSent (wired p r u) i w = (e, v)" by fastforce
  then show ?thesis
    using assms(1) True ev by (intro that[of e v]) (auto simp: Replies_handle_def wired_replies_def split: option.splits)
next
  case False
  then have k: "dl_RoutingKey d = RoutingKeyEventConfirmationFailed"
    using assms(2) by (auto simp: reply_saga_def split: if_splits)
  then obtain ev where ev: "unmarshal_failed (dl_Body d) = Inr ev" "i = cf_SagaID ev"
    using assms(2) False by (auto simp: reply_saga_def split: sum.splits)
  obtain e v where "HandleFailed (wired p r u) i (cf_Reason ev) w = (e, v)" by fastforce
  then show ?thesis
    using assms(1) False k ev
    by (intro that[of e v "cf_Reason ev"]) (auto simp: Replies_handle_def wired_replies_def split: option.splits)
qed

lemma reply_unknown:
  "reply_saga d = None \<Longrightarrow> Replies_handle (wired_replies p r u) d w = nack False d w"
  by (auto simp: reply_saga_def Replies_handle_def split: if_splits sum.splits)

text \<open>
  C36 (error). A reply is settled exactly once. It is acked only when its saga is not pending
  any more, so no outcome is lost; when the orchestrator reports an error it is requeued; with a
  database that answers it is always acked. What cannot be decoded, or has a routing key the
  consumer does not know, is rejected for good and touches nothing.
\<close>

theorem replies_acked_when_settled:
  fixes w :: "'x world"
  assumes "world_ok w" "quiet w" "settles log d"
    and run: "Replies_handle (wired_replies p r u) d w = w'"
  shows "case reply_saga d of
      None \<Rightarrow> log (outside w') = log (outside w) @ [Nacked False] \<and> saga_at w' = saga_at w \<and> sub_at w' = sub_at w
    | Some i \<Rightarrow> \<exists>v. log (outside w') = log (outside w) @ [v] \<and>
        (v = Acked \<and> not_pending (saga_at w') i \<or> v = Nacked True) \<and> (healthy w \<longrightarrow> v = Acked)"
proof (cases "reply_saga d")
  case None
  then show ?thesis using reply_unknown[OF None] run assms(3) by (auto simp: settles_def nack_def saga_at_def sub_at_def)
next
  case (Some i)
  obtain reason e v where h: "HandleSent (wired p r u) i w = (e, v) \<or> HandleFailed (wired p r u) i reason w = (e, v)"
    and w': "w' = (if e = None then ack d v else nack True d v)"
    by (rule reply_runs[OF run Some])
  have o: "outside v = outside w"
    using h apart_handlers(1)[of w p r u i] apart_handlers(2)[of w p r u i reason]
    by (elim disjE) (simp_all add: apart_def)
  have "e = None \<Longrightarrow> not_pending (saga_at v) i"
    using h orch.HandleSent_alone[OF assms(1,2)] orch.HandleFailed_nil[OF assms(1,2)] by blast
  moreover have "healthy w \<Longrightarrow> e = None"
    using h orch.HandleSent_sure[OF assms(1)] orch.HandleFailed_sure[OF assms(1)] by blast
  ultimately show ?thesis
    using Some w' o assms(3) by (auto simp: settles_def ack_def nack_def not_pending_def saga_at_def)
qed

text \<open>A saga that is not pending ignores replies.\<close>

lemma late_replies:
  fixes w :: "'x world"
  assumes "world_ok w" "quiet w" "not_pending (saga_at w) i" "\<forall>d\<in>set ds. reply_saga d = Some i"
  shows "saga_at (fold (Replies_handle (wired_replies p r u)) ds w) = saga_at w \<and>
    sub_at (fold (Replies_handle (wired_replies p r u)) ds w) = sub_at w"
  using assms
proof (induction ds arbitrary: w)
  case (Cons d ds)
  let ?v = "Replies_handle (wired_replies p r u) d w"
  obtain reason e v where h: "HandleSent (wired p r u) i w = (e, v) \<or> HandleFailed (wired p r u) i reason w = (e, v)"
    and w': "?v = (if e = None then ack d v else nack True d v)"
    using reply_runs[OF refl, of d i] Cons.prems(4) by (metis list.set_intros(1))
  have unmarked: "\<not> marked SagaStateCompleted None i (saga_at w) m" for m
    using Cons.prems(3) by (auto simp: marked_def not_pending_def)
  have "world_ok v \<and> quiet v \<and> saga_at v = saga_at w \<and> sub_at v = sub_at w"
    using h orch.HandleSent_alone[OF Cons.prems(1,2)] orch.HandleFailed_not_pending[OF Cons.prems(1-3)] unmarked
    by blast
  then show ?case using Cons.IH[of ?v] Cons.prems(3,4) w' by simp
qed simp

section \<open>Concrete replies\<close>

definition reply_world :: "settlement list world" where
  "reply_world = demo_world [] (db demo_start)"

definition reply_delivery :: "string \<Rightarrow> body \<Rightarrow> settlement list delivery" where
  "reply_delivery k b = \<lparr>dl_RoutingKey = k, dl_Body = b, dl_Ack = (\<lambda>vs. vs @ [Acked]),
     dl_Nack = (\<lambda>q vs. vs @ [Nacked q])\<rparr>"

definition demo_sent :: "settlement list delivery" where
  "demo_sent = reply_delivery RoutingKeyEventConfirmationSent (marshal_sent \<lparr>cs_SagaID = ''g1''\<rparr>)"

definition demo_failed :: "settlement list delivery" where
  "demo_failed = reply_delivery RoutingKeyEventConfirmationFailed
     (marshal_failed \<lparr>cf_SagaID = ''g1'', cf_Reason = ''bounced''\<rparr>)"

definition demo_replies :: "settlement list world RepliesConsumer" where
  "demo_replies = wired_replies no_publisher (NewRetrier (\<lambda>t req x. (None, x))) ''http://h''"

lemma reply_world_ok [simp]: "world_ok reply_world" "quiet reply_world" "healthy reply_world"
  using demo_start_ok(1) by (simp_all add: reply_world_def world_ok_def demo_world_def quiet_def healthy_def)

lemma demo_reply_sagas [simp]: "reply_saga demo_sent = Some ''g1''" "reply_saga demo_failed = Some ''g1''"
  "settles (\<lambda>x. x) (reply_delivery k b)"
  by (simp_all add: reply_saga_def demo_sent_def demo_failed_def reply_delivery_def settles_def
      RoutingKeyEventConfirmationSent_def RoutingKeyEventConfirmationFailed_def)

theorem replies_acked_when_settled_witness:
  "outside (Replies_handle demo_replies demo_sent reply_world) = [Acked] \<and>
   not_pending (saga_at (Replies_handle demo_replies demo_sent reply_world)) ''g1''"
proof -
  have "outside reply_world = []" by (simp add: reply_world_def demo_world_def)
  then show ?thesis
    using replies_acked_when_settled[OF reply_world_ok(1,2) demo_reply_sagas(3) refl,
      of no_publisher "NewRetrier (\<lambda>t req x. (None, x))" "''http://h''"
      RoutingKeyEventConfirmationSent "marshal_sent \<lparr>cs_SagaID = ''g1''\<rparr>"]
    unfolding demo_replies_def demo_sent_def[symmetric] by auto
qed

section \<open>The loop\<close>

lemma replies_handle_ctx: "ctx_kept w (Replies_handle (wired_replies p r u) d w)"
proof (cases "reply_saga d")
  case None
  then show ?thesis by (simp add: reply_unknown nack_def)
next
  case (Some i)
  obtain reason e v where h: "HandleSent (wired p r u) i w = (e, v) \<or> HandleFailed (wired p r u) i reason w = (e, v)"
    and w': "Replies_handle (wired_replies p r u) d w = (if e = None then ack d v else nack True d v)"
    by (rule reply_runs[OF refl Some])
  have "apart w v"
    using h apart_handlers(1)[of w p r u i] apart_handlers(2)[of w p r u i reason] by auto
  then have "ctx_kept w v" by (simp add: apart_def ctx_kept_def)
  then show ?thesis unfolding w' using ctx_calls.kept_settled ctx_kept_trans by (simp split: if_split) blast
qed

text \<open>A session returns when the context is done, as for the notifier's consumer.\<close>

lemma replies_select_returns:
  fixes w :: "'x world"
  shows "\<forall>m\<ge>N. ctx_done w m \<Longrightarrow> N - ctx_reads w + over < n \<Longrightarrow>
    replies_select n over (wired_replies p r u) lib src ch w \<noteq> None"
proof (induction n arbitrary: over w)
  case (Suc n)
  obtain a w1 where a: "call_outside src w = (a, w1)" by fastforce
  obtain dn w2 where dn: "ctx_Err w1 = (dn, w2)" by fastforce
  note step = look_progress[OF Suc.prems(1) a dn]
  have later: "replies_select n o' (wired_replies p r u) lib src ch v \<noteq> None"
    if "ctx_kept w2 v" "if dn then o' < over else o' \<le> over" for o' v
    using Suc.IH[of v o'] step[OF that(1)] Suc.prems(2) that(2) by (cases dn) auto
  show ?case
    using later[OF ctx_kept_refl] later[OF replies_handle_ctx]
    by (cases a; cases dn) (auto simp: a dn context_chosen_def)
qed simp

interpretation replies_loop: reconnecting "replies_client over (wired_replies p r u) lib src" over
  for over and p :: "'x Publisher" and r :: "'x Retrier" and u lib src
proof unfold_locales
  show "ctx_kept w v" if "cl_dial (replies_client over (wired_replies p r u) lib src) w = (q, v)" for q and w v :: "'x world"
    using that ctx_kept_simps(1)[of w "Replies_dial lib"] by (simp add: replies_client_def)
  show "ctx_kept w v" if "cl_session (replies_client over (wired_replies p r u) lib src) n x w = Some (e, v)"
    for n x e and w v :: "'x world"
    using that ctx_calls.kept_Replies_session[OF replies_handle_ctx] by (simp add: replies_client_def)
  show "cl_session (replies_client over (wired_replies p r u) lib src) n x w \<noteq> None"
    if "\<forall>m\<ge>N. ctx_done w m" "N - ctx_reads w + over < n" for N n x and w :: "'x world"
  proof -
    obtain e w1 where c: "call_outside (lib_Consume lib (snd x) QueueSagaEvents (rc_tag (wired_replies p r u))) w = (e, w1)"
      by fastforce
    then have "ctx_done w1 = ctx_done w" "ctx_reads w1 = ctx_reads w"
      by (auto simp: call_outside_def split: prod.splits)
    then show ?thesis
      using c replies_select_returns[of N w1 over n p r u lib src "snd x"] that
      by (cases e) (simp_all add: replies_client_def Replies_runSession_def)
  qed
qed (simp add: replies_client_def)

lemma Replies_Run_ends:
  fixes w :: "'x world"
  assumes "\<forall>m\<ge>N. ctx_done w m" "N - ctx_reads w + over + 1 < fuel"
  shows "\<exists>ds w'. Replies_Run fuel over (wired_replies p r u) lib src x w = Some (ds, w') \<and>
    (\<exists>m. ctx_reads w \<le> m \<and> m < ctx_reads w' \<and> ctx_done w m) \<and>
    (\<forall>d\<in>set ds. backoff_wait d)"
proof -
  obtain ds w' where run: "Replies_Run fuel over (wired_replies p r u) lib src x w = Some (ds, w')"
    using replies_loop.ends(1)[OF assms] unfolding Replies_Run_def by (metis not_None_eq surj_pair)
  then show ?thesis
    using replies_loop.returns_cancelled(1)[OF first_in_range run[unfolded Replies_Run_def]]
    by (auto simp: cancelled_run_def intro: backoff_waits)
qed

text \<open>
  C37 (liveness). Whatever the broker does - a connection that stays up and never delivers or
  ends anything included - the notifier's consumer and the server's replies consumer return once
  the context of their process is done, provided Go's random choice among the ready cases of a
  \<^verbatim>\<open>select\<close> goes against the context only finitely often. They stop for this reason only: neither
  returns before it has seen the context done, and every wait it started is half a second doubled
  some number of times, or thirty seconds.
\<close>

theorem consumers_run_until_cancelled:
  fixes w :: "'x node" and v :: "'x world"
  assumes "\<forall>m\<ge>N. ctx_done w m \<and> ctx_done v m"
    and "N - ctx_reads w + over + drains + 1 < fuel" "N - ctx_reads v + over + 1 < fuel"
  shows "(\<exists>ds w'. Consumer_Run fuel over (wired_consumer s p) lib drains src x w = Some (ds, w') \<and>
      (\<exists>m. ctx_reads w \<le> m \<and> m < ctx_reads w' \<and> ctx_done w m) \<and>
      (\<forall>d\<in>set ds. backoff_wait d)) \<and>
    (\<exists>ds v'. Replies_Run fuel over (wired_replies q r u) lib' src' y v = Some (ds, v') \<and>
      (\<exists>m. ctx_reads v \<le> m \<and> m < ctx_reads v' \<and> ctx_done v m) \<and>
      (\<forall>d\<in>set ds. backoff_wait d))"
  using Consumer_Run_ends[of N w over drains fuel s p lib src x]
    Replies_Run_ends[of N v over fuel q r u lib' src' y] assms by blast

text \<open>With a broker that never delivers anything and never ends a session.\<close>

theorem consumers_run_until_cancelled_witness:
  "(\<exists>ds w'. Consumer_Run 9 1 (wired_consumer (demo_mailer 200) (demo_publisher True)) (counting_lib 99)
      1 (\<lambda>n. (Quiet, n)) (0, 0) ((demo_node 9)\<lparr>ctx_done := (\<lambda>n. 4 \<le> n)\<rparr>) = Some (ds, w') \<and>
    4 < ctx_reads w') \<and>
   (\<exists>ds v'. Replies_Run 9 1 (wired_replies (demo_publisher True) (demo_retrier True) ''http://h'') (counting_lib 99)
      (\<lambda>n. (Quiet, n)) (0, 0) (demo_start\<lparr>ctx_done := (\<lambda>n. 4 \<le> n)\<rparr>) = Some (ds, v') \<and>
    4 < ctx_reads v')"
proof -
  let ?w = "(demo_node 9)\<lparr>ctx_done := (\<lambda>n. 4 \<le> n)\<rparr>" and ?v = "demo_start\<lparr>ctx_done := (\<lambda>n. 4 \<le> n)\<rparr>"
  have "\<forall>m\<ge>4. ctx_done ?w m \<and> ctx_done ?v m" "4 - ctx_reads ?w + 1 + 1 + 1 < 9" "4 - ctx_reads ?v + 1 + 1 < 9"
    by (simp_all add: demo_node_def demo_start_def demo_world_def)
  from consumers_run_until_cancelled[OF this, of "demo_mailer 200" "demo_publisher True" "counting_lib 99"
      "\<lambda>n. (Quiet, n)" "(0, 0)" "demo_publisher True" "demo_retrier True" "''http://h''"
      "counting_lib 99" "\<lambda>n. (Quiet, n)" "(0, 0)"]
  show ?thesis by (auto; fastforce)
qed

end
