(* ===== verification/EndToEnd.thy ===== *)
theory EndToEnd
  imports RepliesTheorems
begin

text \<open>
  The Subscribe saga across the two processes: the command the server published, the notifier's
  consumer, the replies it publishes, and the server's replies consumer. What connects them is
  the bodies and routing keys on the broker.
\<close>

section \<open>What the notifier publishes\<close>

text \<open>\<open>pubs\<close> is what the broker has accepted, with routing keys; only a publish that succeeds adds to it.\<close>

definition records_publications :: "('x \<Rightarrow> (string \<times> body) list) \<Rightarrow> 'x Publisher \<Rightarrow> bool" where
  "records_publications pubs p \<longleftrightarrow>
     (\<forall>x ch. pub_ch p x = Some ch \<longrightarrow>
        (\<forall>ex k m i b y. pubs (snd (ch_Publish ch ex k m i b y)) =
           pubs y @ (case fst (ch_Publish ch ex k m i b y) of Inl _ \<Rightarrow> [] | Inr _ \<Rightarrow> [(k, b)])) \<and>
        (\<forall>t y. pubs (snd (ch_Wait ch t y)) = pubs y))"

lemma publish_records:
  assumes "records_publications pubs p" "publish p k b w = (r, v)"
  shows "\<exists>m\<le>1. pubs (outside v) = pubs (outside w) @ replicate m (k, b)"
proof (cases "pub_ch p (outside w)")
  case None
  then show ?thesis using assms(2) by (auto simp: publish_def inc_def)
next
  case (Some ch)
  obtain q x1 where q: "ch_Publish ch ExchangeNotifications k True False b (outside w) = (q, x1)" by fastforce
  have l: "pubs x1 = pubs (outside w) @ (case q of Inl _ \<Rightarrow> [] | Inr _ \<Rightarrow> [(k, b)])"
    "\<And>t y. pubs (snd (ch_Wait ch t y)) = pubs y"
  proof -
    have "pubs (snd (ch_Publish ch ExchangeNotifications k True False b (outside w))) = pubs (outside w) @
        (case fst (ch_Publish ch ExchangeNotifications k True False b (outside w)) of Inl _ \<Rightarrow> [] | Inr _ \<Rightarrow> [(k, b)])"
      using assms(1) Some unfolding records_publications_def by blast
    then show "pubs x1 = pubs (outside w) @ (case q of Inl _ \<Rightarrow> [] | Inr _ \<Rightarrow> [(k, b)])" by (simp add: q)
    show "\<And>t y. pubs (snd (ch_Wait ch t y)) = pubs y"
      using assms(1) Some unfolding records_publications_def by blast
  qed
  have "pubs (outside v) = pubs x1"
    using assms(2) Some q l(2)
    by (auto simp: publish_def Let_def time_Now_def call_outside_def inc_def
        split: sum.splits prod.splits if_splits)
  then show ?thesis
    using l(1) by (cases q) (auto intro: exI[of _ 0] exI[of _ 1])
qed

lemma reply_loop_records:
  assumes "\<And>v. \<exists>m\<le>1. pubs (outside (snd (pub v))) = pubs (outside v) @ replicate m x"
  shows "\<exists>m\<le>k. pubs (outside (snd (reply_loop pub k b le w))) = pubs (outside w) @ replicate m x"
proof (induction k arbitrary: b le w)
  case (Suc k)
  obtain q w1 where p: "pub w = (q, w1)" by fastforce
  obtain m where m: "m \<le> 1" "pubs (outside w1) = pubs (outside w) @ replicate m x" using assms[of w] p by auto
  have e: "outside (snd (ctx_Err v)) = outside v" for v :: "('a, 'b) proc_scheme" by (simp add: ctx_Err_def)
  show ?case
  proof (cases "pubs (outside (snd (reply_loop pub (Suc k) b le w))) = pubs (outside w1)")
    case True
    then show ?thesis using m by (intro exI[of _ m]) auto
  next
    case False
    obtain d2 w2 where e2: "ctx_Err w1 = (d2, w2)" by fastforce
    obtain d3 w3 where e3: "ctx_Err w2 = (d3, w3)" by fastforce
    have o: "outside w2 = outside w1" "outside w3 = outside w1" using e[of w1] e[of w2] e2 e3 by simp_all
    obtain err where q: "q = Some err" "\<not> d2" "k \<noteq> 0" "\<not> d3"
      using False p e2 e3 o by (auto split: option.splits bool.splits if_splits)
    obtain m' where "m' \<le> k" "pubs (outside (snd (reply_loop pub k (b * 2) (Some err) w3))) =
        pubs (outside w3) @ replicate m' x"
      using Suc.IH[of "b * 2" "Some err" w3] by blast
    then have "pubs (outside (snd (reply_loop pub (Suc k) b le w))) = pubs (outside w) @ replicate (m + m') x"
      using p q e2 e3 o m by (simp add: split_def replicate_add)
    then show ?thesis using m(1) \<open>m' \<le> k\<close> by (intro exI[of _ "m + m'"]) simp
  qed
qed simp

text \<open>The reply to a command, by how the mail went.\<close>

definition reply_message :: "string \<Rightarrow> goerr option \<Rightarrow> string \<times> body" where
  "reply_message i sendErr =
     (case sendErr of
        None \<Rightarrow> (RoutingKeyEventConfirmationSent, marshal_sent \<lparr>cs_SagaID = i\<rparr>)
      | Some err \<Rightarrow> (RoutingKeyEventConfirmationFailed,
          marshal_failed \<lparr>cf_SagaID = i, cf_Reason = error_text err\<rparr>))"

lemma reply_records:
  assumes "records_publications pubs p"
    and "pub = publish p k b"
  shows "\<exists>m\<le>5. pubs (outside (snd (publishReplyWithRetry pub w))) = pubs (outside w) @ replicate m (k, b)"
proof -
  have "\<exists>m\<le>1. pubs (outside (snd (pub v))) = pubs (outside v) @ replicate m (k, b)" for v
    using publish_records[OF assms(1), of k b v "fst (pub v)" "snd (pub v)"] assms(2) by simp
  from reply_loop_records[where pub = pub, OF this]
  show ?thesis unfolding publishReplyWithRetry_def replyPublishAttempts_def .
qed

lemma command_replies:
  fixes n :: "'x node"
  assumes p: "records_publications pubs p" and s: "mailer_keeps pubs s" and ack: "\<And>x. pubs (dl_Ack d x) = pubs x"
    and d: "dl_RoutingKey d = RoutingKeyCmdSendConfirmation" "unmarshal_command (dl_Body d) = Inr msg"
    and run: "dispatch (wired_consumer s p) d n = (res, n')"
  shows "\<exists>m\<le>5. pubs (outside n') = pubs (outside n) @ replicate m (reply_message (sc_SagaID msg)
    (fst (Sender_SendConfirmation s (sc_To msg) \<lparr>cd_Repo = sc_Repo msg, cd_ConfirmURL = sc_ConfirmURL msg\<rparr> n)))"
proof -
  obtain r n1 where sent: "Sender_SendConfirmation s (sc_To msg)
      \<lparr>cd_Repo = sc_Repo msg, cd_ConfirmURL = sc_ConfirmURL msg\<rparr> n = (r, n1)" by fastforce
  have o: "pubs (outside n1) = pubs (outside n)" by (rule log_Sender(1)[OF s sent])
  have acked: "pubs (outside (Consumer.ack d v)) = pubs (outside v)" for v :: "'x node"
    using ack by (simp add: ack_def)
  show ?thesis
  proof (cases r)
    case None
    obtain m where "m \<le> 5" "pubs (outside (snd (publishReplyWithRetry (PublishConfirmationSent p (sc_SagaID msg))
        (Mark (sc_SagaID msg) n1)))) = pubs (outside n1) @ replicate m (reply_message (sc_SagaID msg) None)"
      using reply_records[OF p PublishConfirmationSent_def, of "sc_SagaID msg" "Mark (sc_SagaID msg) n1"]
      by (auto simp: reply_message_def)
    then show ?thesis
      using run d sent None o acked by (auto simp: dispatch_def wired_consumer_def Let_def split_def)
  next
    case (Some err)
    obtain m where "m \<le> 5" "pubs (outside (snd (publishReplyWithRetry (PublishConfirmationFailed p (sc_SagaID msg)
        (error_text err)) n1))) = pubs (outside n1) @ replicate m (reply_message (sc_SagaID msg) (Some err))"
      using reply_records[OF p PublishConfirmationFailed_def, of "sc_SagaID msg" "error_text err" n1]
      by (auto simp: reply_message_def)
    then show ?thesis
      using run d sent Some o acked by (auto simp: dispatch_def wired_consumer_def Let_def split_def)
  qed
qed

section \<open>What the server makes of the replies\<close>

lemma reply_message_saga:
  "(dl_RoutingKey d, dl_Body d) = reply_message i e \<Longrightarrow> reply_saga d = Some i"
  by (auto simp: reply_message_def reply_saga_def RoutingKeyEventConfirmationSent_def
      RoutingKeyEventConfirmationFailed_def split: option.splits)

text \<open>The first reply to a pending saga, on a database that answers.\<close>

lemma first_reply:
  fixes w :: "'x world"
  assumes "world_ok w" "quiet w" "healthy w" "saga_at w i = Some sg" "saga_State sg = SagaStatePending"
    and d: "(dl_RoutingKey d, dl_Body d) = reply_message i e"
    and run: "Replies_handle (wired_replies q r u) d w = w'"
  shows "world_ok w' \<and> quiet w' \<and> not_pending (saga_at w') i \<and>
    (case e of
       None \<Rightarrow> sub_at w' = sub_at w \<and> marked SagaStateCompleted None i (saga_at w) (saga_at w')
     | Some _ \<Rightarrow> sub_at w' = (sub_at w)(saga_SubscriptionID sg := None) \<and>
         saga_at w' = cascaded (saga_SubscriptionID sg) (saga_at w))"
proof (cases e)
  case None
  obtain x v where h: "HandleSent (wired q r u) i w = (x, v)" by fastforce
  have x: "x = None" using orch.HandleSent_sure[OF assms(1,3) h] .
  have w': "w' = ack d v"
    using run d None h x
    by (simp add: Replies_handle_def wired_replies_def reply_message_def)
  have "saga_at v \<noteq> saga_at w" using orch.HandleSent_alone[OF assms(1,2) h] x assms(4,5) by (auto simp: not_pending_def)
  then show ?thesis using orch.HandleSent_alone[OF assms(1,2) h] x w' None by simp
next
  case (Some err)
  obtain x v where h: "HandleFailed (wired q r u) i (error_text err) w = (x, v)" by fastforce
  have x: "x = None" using orch.HandleFailed_sure[OF assms(1,3) h] by simp
  have w': "w' = ack d v"
    using run d Some h x
    by (simp add: Replies_handle_def wired_replies_def reply_message_def RoutingKeyEventConfirmationSent_def
        RoutingKeyEventConfirmationFailed_def)
  show ?thesis
    using orch.HandleFailed_pending[OF assms(1,2,4,5) h] orch.HandleFailed_nil[OF assms(1,2) h[unfolded x]] x w' Some
    by simp
qed

text \<open>
  C12 (functional). The Subscribe saga end to end. A saga is pending on the server; the notifier's
  consumer handles the command that \<^verbatim>\<open>Publish\<close> puts on the broker for it; the replies it gets
  published (at most five, all alike) are delivered to the server, at least one of them, any number
  of times each and in any order, on a database that answers and with nobody else (a sweep, a
  confirmation, another server) touching the tables meanwhile. Then the saga has ended as the
  mail went: if Resend took it, exactly this saga is \<^verbatim>\<open>completed\<close> and every subscription is there;
  otherwise the subscription and the sagas that refer to it are gone, and nothing else.
\<close>

theorem saga_round_trip:
  fixes w :: "'x world" and n :: "'y node"
  assumes w: "world_ok w" "quiet w" "healthy w" "saga_at w i = Some sg" "saga_State sg = SagaStatePending"
    and p: "records_publications pubs p" and s: "mailer_keeps pubs s" and ack: "\<And>x. pubs (dl_Ack d x) = pubs x"
    and d: "dl_RoutingKey d = RoutingKeyCmdSendConfirmation"
      "dl_Body d = marshal_command \<lparr>sc_SagaID = i, sc_To = email, sc_Repo = repo, sc_ConfirmURL = url\<rparr>"
    and notifier: "dispatch (wired_consumer s p) d n = (res, n')" "pubs (outside n') = pubs (outside n) @ replies"
    and ds: "ds \<noteq> []" "\<forall>x\<in>set ds. (dl_RoutingKey x, dl_Body x) \<in> set replies"
    and server: "fold (Replies_handle (wired_replies q r u)) ds w = w'"
  shows "length replies \<le> 5 \<and>
    (case fst (Sender_SendConfirmation s email \<lparr>cd_Repo = repo, cd_ConfirmURL = url\<rparr> n) of
       None \<Rightarrow> sub_at w' = sub_at w \<and> (\<exists>t. saga_at w' = (saga_at w)(i \<mapsto> sg\<lparr>saga_State := SagaStateCompleted,
         saga_LastError := None, saga_CompletedAt := Some t\<rparr>))
     | Some _ \<Rightarrow> sub_at w' = (sub_at w)(saga_SubscriptionID sg := None) \<and>
         saga_at w' = cascaded (saga_SubscriptionID sg) (saga_at w) \<and> saga_at w' i = None)"
proof -
  let ?e = "fst (Sender_SendConfirmation s email \<lparr>cd_Repo = repo, cd_ConfirmURL = url\<rparr> n)"
  have body: "unmarshal_command (dl_Body d) =
      Inr \<lparr>sc_SagaID = i, sc_To = email, sc_Repo = repo, sc_ConfirmURL = url\<rparr>" by (simp add: d(2))
  obtain m where m: "m \<le> 5" "replies = replicate m (reply_message i ?e)"
    using command_replies[OF p s ack d(1) body notifier(1)] notifier(2) by auto
  have each: "(dl_RoutingKey x, dl_Body x) = reply_message i ?e" if "x \<in> set ds" for x
    using ds(2) that m(2) by (auto simp: in_set_replicate)
  obtain x ds' where ds': "ds = x # ds'" using ds(1) by (cases ds) auto
  let ?v = "Replies_handle (wired_replies q r u) x w"
  note first = first_reply[OF w each refl, of x q r u]
  have v: "world_ok ?v" "quiet ?v" "not_pending (saga_at ?v) i" using first ds' by simp_all
  have "saga_at w' = saga_at ?v \<and> sub_at w' = sub_at ?v"
    using late_replies[OF v, of ds' q r u] server ds' reply_message_saga[OF each] by simp
  then show ?thesis
    using first ds' m w(4)
    by (cases ?e) (auto simp: marked_def cascaded_self)
qed

text \<open>A broker that keeps what it accepts, and a Resend that takes every mail.\<close>

type_synonym wire = "(string \<times> body) list"

definition wire_publisher :: "wire Publisher" where
  "wire_publisher = \<lparr>pub_ch = (\<lambda>_. Some \<lparr>ch_Publish = (\<lambda>ex k m i b ms. (Inr 0, ms @ [(k, b)])),
     ch_Wait = (\<lambda>t ms. (Inr True, ms))\<rparr>)\<rparr>"

definition wire_mailer :: "wire Sender" where
  "wire_mailer =
     \<lparr>sd_httpClient = \<lparr>mc_BadURL = (\<lambda>u. None), mc_Do = (\<lambda>rq ms. (Inr 200, ms))\<rparr>,
      sd_apiURL = ''https://mail'', sd_apiKey = ''k'', sd_from = ''f@b.co'',
      sd_renderer = \<lparr>rn_confirmTmpl = (\<lambda>d. Inr (cd_ConfirmURL d)), rn_releaseTmpl = (\<lambda>d. Inr (rd_Body d))\<rparr>\<rparr>"

definition wire_node :: "wire node" where
  "wire_node = \<lparr>clock = (\<lambda>n. int n * Second), clock_reads = 0, uuids = (\<lambda>n. replicate n CHR ''i''),
     uuid_reads = 0, ctx_done = (\<lambda>_. False), ctx_reads = 0, metrics = (\<lambda>_. 0), outside = [],
     dedupe = NewDedupe (\<lambda>n es. es) 9 Hour\<rparr>"

definition wire_command :: "wire delivery" where
  "wire_command = \<lparr>dl_RoutingKey = RoutingKeyCmdSendConfirmation, dl_Body = marshal_command ledger_command,
     dl_Ack = (\<lambda>ms. ms), dl_Nack = (\<lambda>q ms. ms)\<rparr>"

lemma wire_keeps: "records_publications (\<lambda>ms. ms) wire_publisher" "mailer_keeps (\<lambda>ms. ms) wire_mailer"
  by (simp_all add: records_publications_def wire_publisher_def mailer_keeps_def wire_mailer_def)

lemma wire_mailed: "Sender_SendConfirmation wire_mailer a \<lparr>cd_Repo = rp, cd_ConfirmURL = u\<rparr> n =
    (None, inc (EmailsSentTotal ''confirmation'') n)"
  by (simp add: Sender_SendConfirmation_def RenderConfirmation_def renderTemplate_def send_def wire_mailer_def
      call_outside_def)

lemma wire_published: "publish wire_publisher k b v =
    (None, snd (publish wire_publisher k b v)) \<and> outside (snd (publish wire_publisher k b v)) = outside v @ [(k, b)]"
  by (simp add: publish_def wire_publisher_def call_outside_def time_Now_def inc_def Let_def)

lemma wire_replied:
  "outside (snd (dispatch (wired_consumer wire_mailer wire_publisher) wire_command wire_node)) =
   [reply_message ''g1'' None]"
proof -
  have "outside (Mark ''g1'' (inc (EmailsSentTotal ''confirmation'') wire_node)) = []"
    by (simp add: inc_def wire_node_def)
  then show ?thesis
    using wire_published[of RoutingKeyEventConfirmationSent "marshal_sent \<lparr>cs_SagaID = ''g1''\<rparr>"
        "Mark ''g1'' (inc (EmailsSentTotal ''confirmation'') wire_node)"]
    by (auto simp: dispatch_def wired_consumer_def wire_command_def ledger_command_def wire_mailed ack_def
        publishReplyWithRetry_def replyPublishAttempts_def PublishConfirmationSent_def reply_message_def
        eval_nat_numeral split: prod.splits)
qed

theorem saga_round_trip_witness:
  "let w' = fold (Replies_handle demo_replies) [demo_sent, demo_sent] reply_world
   in (\<exists>g. saga_at w' ''g1'' = Some g \<and> saga_State g = SagaStateCompleted) \<and> sub_at w' = sub_at reply_world"
proof -
  obtain res n' where run: "dispatch (wired_consumer wire_mailer wire_publisher) wire_command wire_node = (res, n')"
    by fastforce
  have replies: "outside n' = outside wire_node @ [reply_message ''g1'' None]"
    using wire_replied run by (simp add: wire_node_def)
  have parts: "saga_at reply_world ''g1'' = Some (demo_saga SagaStatePending 0)"
    "saga_State (demo_saga SagaStatePending 0) = SagaStatePending"
    "dl_Body wire_command = marshal_command \<lparr>sc_SagaID = ''g1'', sc_To = ''a@b.co'', sc_Repo = ''golang/go'',
       sc_ConfirmURL = ''http://h''\<rparr>"
    "dl_RoutingKey wire_command = RoutingKeyCmdSendConfirmation" "dl_Ack wire_command x = x"
    "\<forall>d\<in>set [demo_sent, demo_sent]. (dl_RoutingKey d, dl_Body d) \<in> set [reply_message ''g1'' None]" for x
    using demo_start_views(1)
    by (simp_all add: reply_world_def saga_at_def demo_world_def demo_saga_def wire_command_def ledger_command_def
        demo_sent_def reply_delivery_def reply_message_def)
  show ?thesis
    using saga_round_trip[OF reply_world_ok parts(1,2) wire_keeps parts(5,4,3) run replies _ parts(6) refl,
        of no_publisher "NewRetrier (\<lambda>t req x. (None, x))" "''http://h''"]
    by (auto simp: wire_mailed demo_replies_def)
qed

end
