(* ===== verification/Supervisor.thy ===== *)
theory Supervisor
  imports Session Publisher
begin

text \<open>
  The supervisor of \<^verbatim>\<open>internal/notifier/adapter/rabbitmq/publisher.go\<close>: the goroutine that owns
  the publisher's connection, replaces it when it is lost, and gives it up when the publisher is
  closed. It is a step relation, since closing, the loss of the connection and the timers come
  from outside and the goroutine waits for the one that drains the returned messages.
\<close>

section \<open>State and steps\<close>

text \<open>
  Where the goroutine is: in the \<^verbatim>\<open>select\<close> of its outer loop, at a receive \<^verbatim>\<open><-drainDone\<close> (\<open>True\<close>
  for the one before it returns), at the head of the reconnecting loop with the current backoff,
  dialling, in the \<^verbatim>\<open>select\<close> after a failed dial, or gone. A second goroutine reads the messages
  that come back over a channel (counting them is \<open>drain_returns\<close>) until that channel's \<^verbatim>\<open>returns\<close>
  is closed and empty; then it closes \<^verbatim>\<open>drainDone\<close>.
\<close>

datatype supervisor_pc = Supervising | Draining bool | Redialing duration | Dialing duration
  | Waiting duration | Stopped

record 'x supervisor =
  sv_session :: "(nat \<times> nat) option"     \<comment> \<open>\<^verbatim>\<open>p.conn\<close> and \<^verbatim>\<open>p.ch\<close>\<close>
  sv_done :: bool                          \<comment> \<open>\<^verbatim>\<open>p.done\<close> is closed\<close>
  sv_drain :: "nat option"                 \<comment> \<open>the channel whose returns are drained; None: \<^verbatim>\<open>drainDone\<close> is closed\<close>
  sv_broken :: bool                        \<comment> \<open>the library has closed the session's channel by itself\<close>
  sv_pc :: supervisor_pc
  sv_outside :: 'x

definition NewPublisher :: "'x amqp_lib \<Rightarrow> 'x \<Rightarrow> (goerr + 'x supervisor) \<times> 'x" where
  "NewPublisher lib x =
     (case Publisher_dial lib x of
        (Inl err, x1) \<Rightarrow> (Inl err, x1)
      | (Inr s, x1) \<Rightarrow>
          (Inr \<lparr>sv_session = Some s, sv_done = False, sv_drain = Some (snd s), sv_broken = False,
             sv_pc = Supervising, sv_outside = x1\<rparr>, x1))"

text \<open>\<^verbatim>\<open>clearSession\<close> and the closing of what it returned.\<close>

definition clearSession :: "'x amqp_lib \<Rightarrow> 'x supervisor \<Rightarrow> 'x supervisor" where
  "clearSession lib sv =
     sv\<lparr>sv_session := None, sv_outside := closeSession lib (sv_session sv) (sv_outside sv)\<rparr>"

text \<open>\<^verbatim>\<open>setSession\<close>, and the new channels and draining goroutine of the next iteration.\<close>

definition setSession :: "nat \<times> nat \<Rightarrow> 'x supervisor \<Rightarrow> 'x supervisor" where
  "setSession s sv = sv\<lparr>sv_session := Some s, sv_drain := Some (snd s), sv_broken := False\<rparr>"

text \<open>\<^verbatim>\<open>Close\<close> closes \<^verbatim>\<open>done\<close> unless it is closed, and then waits for \<open>Stopped\<close>.\<close>

definition Publisher_Close :: "'x supervisor \<Rightarrow> 'x supervisor" where
  "Publisher_Close sv = sv\<lparr>sv_done := True\<rparr>"

text \<open>
  \<open>returning ch x\<close>: the \<^verbatim>\<open>returns\<close> registered on channel \<open>ch\<close> is open. The library closes it when the
  channel is closed (\<open>closing_ends_returns\<close>, from the documentation of \<^verbatim>\<open>NotifyReturn\<close>).
\<close>

definition closing_ends_returns :: "'x amqp_lib \<Rightarrow> (nat \<Rightarrow> 'x \<Rightarrow> bool) \<Rightarrow> bool" where
  "closing_ends_returns lib returning \<longleftrightarrow>
     (\<forall>ch x. \<not> returning ch (lib_CloseChannel lib ch x)) \<and>
     (\<forall>c ch x. returning ch (lib_CloseConn lib c x) \<longrightarrow> returning ch x)"

inductive supervise_step ::
    "'x amqp_lib \<Rightarrow> (nat \<Rightarrow> 'x \<Rightarrow> bool) \<Rightarrow> 'x supervisor \<Rightarrow> 'x supervisor \<Rightarrow> bool"
  for lib :: "'x amqp_lib" and returning :: "nat \<Rightarrow> 'x \<Rightarrow> bool" where
  breaks: "sv_pc sv = Supervising \<Longrightarrow> \<not> sv_broken sv \<Longrightarrow>
    supervise_step lib returning sv (sv\<lparr>sv_broken := True\<rparr>)"
| drained: "sv_drain sv = Some ch \<Longrightarrow> sv_broken sv \<or> \<not> returning ch (sv_outside sv) \<Longrightarrow>
    supervise_step lib returning sv (sv\<lparr>sv_drain := None\<rparr>)"
| shutdown: "sv_pc sv = Supervising \<Longrightarrow> sv_done sv \<Longrightarrow>
    supervise_step lib returning sv (clearSession lib sv\<lparr>sv_pc := Draining True\<rparr>)"
| lost: "sv_pc sv = Supervising \<Longrightarrow>
    supervise_step lib returning sv (clearSession lib sv\<lparr>sv_pc := Draining False\<rparr>)"
| ends: "sv_pc sv = Draining True \<Longrightarrow> sv_drain sv = None \<Longrightarrow>
    supervise_step lib returning sv (sv\<lparr>sv_pc := Stopped\<rparr>)"
| redials: "sv_pc sv = Draining False \<Longrightarrow> sv_drain sv = None \<Longrightarrow>
    supervise_step lib returning sv (sv\<lparr>sv_pc := Redialing initialReconnectBackoff\<rparr>)"
| gives_up: "sv_pc sv = Redialing b \<Longrightarrow> sv_done sv \<Longrightarrow>
    supervise_step lib returning sv (sv\<lparr>sv_pc := Stopped\<rparr>)"
| dials: "sv_pc sv = Redialing b \<Longrightarrow> \<not> sv_done sv \<Longrightarrow>
    supervise_step lib returning sv (sv\<lparr>sv_pc := Dialing b\<rparr>)"
| reconnected: "sv_pc sv = Dialing b \<Longrightarrow> Publisher_dial lib (sv_outside sv) = (Inr s, x) \<Longrightarrow>
    supervise_step lib returning sv (setSession s sv\<lparr>sv_pc := Supervising, sv_outside := x\<rparr>)"
| dial_failed: "sv_pc sv = Dialing b \<Longrightarrow> Publisher_dial lib (sv_outside sv) = (Inl err, x) \<Longrightarrow>
    supervise_step lib returning sv (sv\<lparr>sv_pc := Waiting b, sv_outside := x\<rparr>)"
| stops_waiting: "sv_pc sv = Waiting b \<Longrightarrow> sv_done sv \<Longrightarrow>
    supervise_step lib returning sv (sv\<lparr>sv_pc := Stopped\<rparr>)"
| waited: "sv_pc sv = Waiting b \<Longrightarrow>
    supervise_step lib returning sv (sv\<lparr>sv_pc := Redialing (nextBackoff b)\<rparr>)"

inductive_cases supervise_stepE: "supervise_step lib returning sv sv'"

text \<open>
  A run: from a publisher just made, steps of its goroutines and calls of \<^verbatim>\<open>Close\<close>, in any order.
\<close>

inductive supervised :: "'x amqp_lib \<Rightarrow> (nat \<Rightarrow> 'x \<Rightarrow> bool) \<Rightarrow> 'x \<Rightarrow> 'x supervisor \<Rightarrow> bool"
  for lib :: "'x amqp_lib" and returning :: "nat \<Rightarrow> 'x \<Rightarrow> bool" and x0 :: 'x where
  made: "NewPublisher lib x0 = (Inr sv, x) \<Longrightarrow> supervised lib returning x0 sv"
| steps: "supervised lib returning x0 sv \<Longrightarrow> supervise_step lib returning sv sv' \<Longrightarrow>
    supervised lib returning x0 sv'"
| closes: "supervised lib returning x0 sv \<Longrightarrow> supervised lib returning x0 (Publisher_Close sv)"

text \<open>The publisher as \<open>publish\<close> sees it: its channel is the session's, if there is one.\<close>

definition supervised_publisher :: "(nat \<Rightarrow> 'x supervisor amqp_channel) \<Rightarrow> 'x supervisor Publisher" where
  "supervised_publisher chan = \<lparr>pub_ch = (\<lambda>sv. map_option (\<lambda>s. chan (snd s)) (sv_session sv))\<rparr>"

section \<open>What is open\<close>

lemma leftover_append:
  "leftover (es @ fs) = filter (\<lambda>h. Closed h \<notin> set fs) (leftover es) @ leftover fs"
  by (induction es rule: leftover.induct) auto

text \<open>A traced dial adds to the events what it opens and closes.\<close>

lemma run_ops_prefix:
  "run_ops (lib_Declare (traced lib) ch) ops (x, es @ fs) =
     (let (r, x', gs) = run_ops (lib_Declare (traced lib) ch) ops (x, fs) in (r, x', es @ gs))"
proof (induction ops arbitrary: x fs)
  case (Cons op ops)
  obtain what o1 where op: "op = (what, o1)" by fastforce
  obtain r x1 where "lib_Declare lib ch o1 x = (r, x1)" by fastforce
  then show ?case using Cons.IH[of x1 fs] by (cases r) (simp_all add: op traced_def)
qed simp

lemma dial_prefix:
  "Publisher_dial (traced lib) (x, es) =
     (let (r, x', fs) = Publisher_dial (traced lib) (x, []) in (r, x', es @ fs))"
proof -
  obtain d x1 where d: "lib_Dial lib x = (d, x1)" by fastforce
  show ?thesis
  proof (cases d)
    case (Inl e)
    then show ?thesis using d by (simp add: Publisher_dial_def dial_with_def traced_def note_open_def)
  next
    case (Inr c)
    obtain h x2 where h: "lib_Channel lib c x1 = (h, x2)" by fastforce
    show ?thesis
    proof (cases h)
      case (Inl e)
      then show ?thesis using d Inr h by (simp add: Publisher_dial_def dial_with_def traced_def note_open_def)
    next
      case (Inr k)
      let ?new = "[Opened (Conn c), Opened (Chan k)]"
      obtain dr x3 where r0: "run_ops (lib_Declare (traced lib) k) declare_ops (x2, ?new) = (dr, x3, ?new)"
        using run_ops_traced[of lib k declare_ops x2 ?new] by blast
      have r1: "run_ops (lib_Declare (traced lib) k) declare_ops (x2, es @ ?new) = (dr, x3, es @ ?new)"
        using run_ops_prefix[of lib k declare_ops x2 es ?new] r0 by simp
      have t: "lib_Dial (traced lib) (x, fs) = (Inr c, x1, fs @ [Opened (Conn c)])"
        "lib_Channel (traced lib) c (x1, fs @ [Opened (Conn c)]) = (Inr k, x2, fs @ ?new)" for fs
        using d h \<open>d = Inr c\<close> Inr by (simp_all add: traced_def note_open_def)
      have u: "lib_Confirm (traced lib) k (x3, fs) = (let (r, x') = lib_Confirm lib k x3 in (r, x', fs))"
        "lib_CloseChannel (traced lib) k (y, fs) = (lib_CloseChannel lib k y, fs @ [Closed (Chan k)])"
        "lib_CloseConn (traced lib) c (y, fs) = (lib_CloseConn lib c y, fs @ [Closed (Conn c)])" for fs y
        by (simp_all add: traced_def)
      show ?thesis
        using r0 r1 t[of es] t[of "[]"]
        by (simp add: Publisher_dial_def dial_with_def Declare_def close_both_def u
            split: option.splits prod.splits)
    qed
  qed
qed

lemma dial_opens:
  assumes "Publisher_dial (traced lib) (x, es) = (r, x', es')"
  shows "\<exists>fs. es' = es @ fs \<and> leftover fs = (case r of Inl _ \<Rightarrow> [] | Inr (c, h) \<Rightarrow> [Conn c, Chan h])"
proof -
  have confirm: "\<exists>r x'. lib_Confirm (traced lib) ch (y, gs) = (r, x', gs)" for ch y gs
    by (auto simp: traced_def split: prod.splits)
  obtain q y fs where new: "Publisher_dial (traced lib) (x, []) = (q, y, fs)" by (metis surj_pair)
  then have "leftover fs = (case q of Inl _ \<Rightarrow> [] | Inr (c, h) \<Rightarrow> [Conn c, Chan h])"
    using dial_leftover[where last_step = "lib_Confirm (traced lib)", OF confirm] by (simp add: Publisher_dial_def)
  then show ?thesis using assms new dial_prefix[of lib x es] by auto
qed

lemma dial_only_opens:
  assumes "Publisher_dial (traced lib) (x, es) = (r, x', es')" "leftover es = []"
  shows "leftover es' = (case r of Inl _ \<Rightarrow> [] | Inr (c, h) \<Rightarrow> [Conn c, Chan h])"
  using dial_opens[OF assms(1)] assms(2) by (auto simp: leftover_append)

text \<open>The handles of a session.\<close>

definition handles :: "(nat \<times> nat) option \<Rightarrow> handle list" where
  "handles s = (case s of None \<Rightarrow> [] | Some (c, h) \<Rightarrow> [Conn c, Chan h])"

lemma handles_simps [simp]: "handles None = []" "handles (Some (c, h)) = [Conn c, Chan h]"
  by (simp_all add: handles_def)

lemma clear_leaves_nothing:
  assumes "leftover (snd (sv_outside sv)) = handles (sv_session sv)"
  shows "leftover (snd (sv_outside (clearSession (traced lib) sv))) = []"
proof (cases "sv_session sv")
  case None
  then show ?thesis using assms by (simp add: clearSession_def closeSession_def)
next
  case (Some s)
  obtain c h where s: "s = (c, h)" by fastforce
  obtain x es where o: "sv_outside sv = (x, es)" by fastforce
  show ?thesis
    using assms Some s o
    by (simp add: clearSession_def closeSession_def close_both_def traced_def leftover_append)
qed

section \<open>The invariant\<close>

definition supervisor_ok :: "('x \<times> handle_event list) supervisor \<Rightarrow> bool" where
  "supervisor_ok sv \<longleftrightarrow>
     (sv_session sv \<noteq> None \<longleftrightarrow> sv_pc sv = Supervising) \<and>
     leftover (snd (sv_outside sv)) = handles (sv_session sv) \<and>
     (sv_pc sv = Stopped \<or> sv_pc sv = Draining True \<longrightarrow> sv_done sv) \<and>
     (\<forall>b. sv_pc sv = Redialing b \<or> sv_pc sv = Dialing b \<or> sv_pc sv = Waiting b \<longrightarrow> b \<in> backoffs)"

lemma without_session:
  assumes "supervisor_ok sv" "sv_pc sv \<noteq> Supervising"
  shows "sv_session sv = None" "leftover (snd (sv_outside sv)) = []"
proof -
  show n: "sv_session sv = None" using assms unfolding supervisor_ok_def by blast
  then show "leftover (snd (sv_outside sv)) = []" using assms(1) by (simp add: supervisor_ok_def)
qed

lemma clearSession_simps [simp]:
  "sv_session (clearSession lib sv) = None" "sv_done (clearSession lib sv) = sv_done sv"
  "sv_drain (clearSession lib sv) = sv_drain sv" "sv_broken (clearSession lib sv) = sv_broken sv"
  by (simp_all add: clearSession_def)

lemma setSession_simps [simp]:
  "sv_session (setSession s sv) = Some s" "sv_done (setSession s sv) = sv_done sv"
  "sv_drain (setSession s sv) = Some (snd s)" "sv_broken (setSession s sv) = False"
  by (simp_all add: setSession_def)

lemma supervisor_ok_step:
  assumes "supervise_step (traced lib) returning sv sv'" "supervisor_ok sv"
  shows "supervisor_ok sv'"
  using assms(1)
proof (cases rule: supervise_step.cases)
  case shutdown
  then show ?thesis using assms(2) clear_leaves_nothing[of sv lib] by (simp add: supervisor_ok_def)
next
  case lost
  then show ?thesis using assms(2) clear_leaves_nothing[of sv lib] by (simp add: supervisor_ok_def)
next
  case redials
  then show ?thesis using assms(2) first_in_range by (simp add: supervisor_ok_def)
next
  case (reconnected b s x)
  obtain y es where o: "sv_outside sv = (y, es)" by fastforce
  obtain y' es' where x: "x = (y', es')" by fastforce
  obtain c h where s: "s = (c, h)" by fastforce
  have "leftover es = []" using reconnected(2) without_session[OF assms(2)] o by simp
  then show ?thesis
    using reconnected dial_only_opens[of lib y es "Inr s" y' es'] o x s by (simp add: supervisor_ok_def)
next
  case (dial_failed b err x)
  obtain y es where o: "sv_outside sv = (y, es)" by fastforce
  obtain y' es' where x: "x = (y', es')" by fastforce
  have "leftover es = []" "sv_session sv = None" using dial_failed(2) without_session[OF assms(2)] o by simp_all
  then show ?thesis
    using dial_failed assms(2) dial_only_opens[of lib y es "Inl err" y' es'] o x by (simp add: supervisor_ok_def)
next
  case (waited b)
  then show ?thesis using assms(2) next_in_range[of b] by (auto simp: supervisor_ok_def)
qed (use assms(2) in \<open>auto simp: supervisor_ok_def\<close>)

lemma supervisor_ok_reach:
  assumes "supervised (traced lib) returning (x, []) sv"
  shows "supervisor_ok sv"
  using assms
proof (induction rule: supervised.induct)
  case (made sv x')
  obtain r y es where d: "Publisher_dial (traced lib) (x, []) = (r, y, es)" by (metis surj_pair)
  then obtain s where s: "r = Inr s" "sv = \<lparr>sv_session = Some s, sv_done = False, sv_drain = Some (snd s),
      sv_broken = False, sv_pc = Supervising, sv_outside = (y, es)\<rparr>"
    using made by (auto simp: NewPublisher_def split: sum.splits)
  then show ?case using dial_only_opens[OF d] by (cases s) (simp add: supervisor_ok_def)
next
  case (steps sv sv')
  then show ?case using supervisor_ok_step by blast
next
  case (closes sv)
  then show ?case by (simp add: supervisor_ok_def Publisher_Close_def)
qed

text \<open>
  C38 (invariant). In every reachable state of a publisher, whatever the AMQP library answers,
  whenever the connection is lost and whenever \<^verbatim>\<open>Close\<close> is called: it has a session exactly
  while the goroutine supervises one; of all the connections and channels ever opened exactly
  those of the current session are open, so at most one connection at a time and none after the
  goroutine has stopped; it stops only once closed; and its backoff is half a second
  doubled some number of times, or thirty seconds.
\<close>

theorem supervisor_owns_one_session:
  assumes "supervised (traced lib) returning (x, []) sv"
  shows "(sv_session sv \<noteq> None \<longleftrightarrow> sv_pc sv = Supervising) \<and>
    leftover (snd (sv_outside sv)) = handles (sv_session sv) \<and>
    (sv_pc sv = Stopped \<longrightarrow> sv_done sv \<and> leftover (snd (sv_outside sv)) = []) \<and>
    (\<forall>b. sv_pc sv = Redialing b \<or> sv_pc sv = Dialing b \<or> sv_pc sv = Waiting b \<longrightarrow> backoff_wait b)"
  using supervisor_ok_reach[OF assms] without_session[OF supervisor_ok_reach[OF assms]]
  unfolding supervisor_ok_def by (simp add: backoff_waits)

section \<open>A concrete run\<close>

text \<open>The returns of a channel are open until the channel is closed, in the traced library.\<close>

definition unclosed :: "nat \<Rightarrow> 'x \<times> handle_event list \<Rightarrow> bool" where
  "unclosed ch x \<longleftrightarrow> Closed (Chan ch) \<notin> set (snd x)"

lemma unclosed_ends: "closing_ends_returns (traced lib) unclosed"
  by (auto simp: closing_ends_returns_def unclosed_def traced_def)

text \<open>A publisher is made, loses its connection, has drained its returns and is closed.\<close>

lemma demo_supervised:
  "\<exists>sv. supervised (traced (counting_lib 3)) unclosed (4, []) sv \<and>
     sv_pc sv = Redialing initialReconnectBackoff \<and> sv_done sv"
proof -
  let ?lib = "traced (counting_lib 3)"
  obtain r y es where d: "Publisher_dial ?lib (4, []) = (r, y, es)" by (metis surj_pair)
  have "fst (Publisher_dial ?lib (4, [])) = Inr (4, 5)" by code_simp
  then have r: "r = Inr (4, 5)" using d by simp
  let ?sv = "\<lparr>sv_session = Some (4, 5), sv_done = False, sv_drain = Some 5, sv_broken = False,
    sv_pc = Supervising, sv_outside = (y, es)\<rparr>"
  have "NewPublisher ?lib (4, []) = (Inr ?sv, (y, es))" using d r by (simp add: NewPublisher_def)
  then have s0: "supervised ?lib unclosed (4, []) ?sv" by (rule supervised.made)
  let ?sv1 = "clearSession ?lib ?sv\<lparr>sv_pc := Draining False\<rparr>"
  have s1: "supervised ?lib unclosed (4, []) ?sv1"
    by (rule supervised.steps[OF s0 supervise_step.lost]) simp
  have "\<not> unclosed 5 (sv_outside ?sv1)"
    by (simp add: clearSession_def closeSession_def close_both_def unclosed_def traced_def)
  then have s2: "supervised ?lib unclosed (4, []) (?sv1\<lparr>sv_drain := None\<rparr>)"
    by (intro supervised.steps[OF s1] supervise_step.drained[of _ 5]) simp_all
  have s3: "supervised ?lib unclosed (4, [])
      (Publisher_Close (?sv1\<lparr>sv_drain := None\<rparr>\<lparr>sv_pc := Redialing initialReconnectBackoff\<rparr>))"
    by (rule supervised.closes[OF supervised.steps[OF s2 supervise_step.redials]]) simp_all
  show ?thesis by (rule exI, rule conjI[OF s3]) (simp add: Publisher_Close_def)
qed

theorem supervisor_owns_one_session_witness:
  "\<exists>sv. supervised (traced (counting_lib 3)) unclosed (4, []) sv \<and> sv_pc sv = Stopped \<and>
     leftover (snd (sv_outside sv)) = []"
proof -
  obtain sv where sv: "supervised (traced (counting_lib 3)) unclosed (4, []) sv"
    "sv_pc sv = Redialing initialReconnectBackoff" "sv_done sv"
    using demo_supervised by blast
  have s: "supervised (traced (counting_lib 3)) unclosed (4, []) (sv\<lparr>sv_pc := Stopped\<rparr>)"
    by (rule supervised.steps[OF sv(1) supervise_step.gives_up[OF sv(2,3)]])
  have "sv_pc (sv\<lparr>sv_pc := Stopped\<rparr>) = Stopped" by simp
  then show ?thesis using supervisor_owns_one_session[OF s] s by blast
qed

section \<open>Closing ends it\<close>

text \<open>
  No receive \<^verbatim>\<open><-drainDone\<close> waits for ever: the goroutine drains the returns of the channel that
  \<open>clearSession\<close> closed before.
\<close>

definition drain_ok :: "(nat \<Rightarrow> 'x \<Rightarrow> bool) \<Rightarrow> 'x supervisor \<Rightarrow> bool" where
  "drain_ok returning sv \<longleftrightarrow>
     (case sv_pc sv of
        Supervising \<Rightarrow> (\<exists>c ch. sv_session sv = Some (c, ch) \<and> (sv_drain sv = None \<or> sv_drain sv = Some ch))
      | Draining _ \<Rightarrow> (case sv_drain sv of None \<Rightarrow> True | Some ch \<Rightarrow> \<not> returning ch (sv_outside sv))
      | _ \<Rightarrow> sv_drain sv = None)"

lemma drain_ok_cleared:
  assumes "closing_ends_returns lib returning" "drain_ok returning sv" "sv_pc sv = Supervising"
  shows "drain_ok returning (clearSession lib sv\<lparr>sv_pc := Draining e\<rparr>)"
  using assms
  by (auto simp: drain_ok_def closing_ends_returns_def clearSession_def closeSession_def close_both_def
      split: option.splits; blast)

lemma drain_ok_step:
  assumes "closing_ends_returns lib returning" "supervise_step lib returning sv sv'" "drain_ok returning sv"
  shows "drain_ok returning sv'"
  using assms(2)
proof (cases rule: supervise_step.cases)
  case shutdown
  then show ?thesis using drain_ok_cleared[OF assms(1,3)] by simp
next
  case lost
  then show ?thesis using drain_ok_cleared[OF assms(1,3)] by simp
next
  case (reconnected b s x)
  then show ?thesis by (cases s) (simp add: drain_ok_def)
next
  case (drained ch)
  then show ?thesis using assms(3) by (auto simp: drain_ok_def split: supervisor_pc.splits)
qed (use assms(3) in \<open>auto simp: drain_ok_def split: option.splits\<close>)

lemma drain_ok_closed: "drain_ok returning sv \<Longrightarrow> drain_ok returning (Publisher_Close sv)"
  by (auto simp: drain_ok_def Publisher_Close_def split: supervisor_pc.splits option.splits)

lemma drain_ok_reach:
  assumes "closing_ends_returns lib returning" "supervised lib returning x sv"
  shows "drain_ok returning sv"
  using assms(2)
proof (induction rule: supervised.induct)
  case (made sv x')
  then show ?case by (auto simp: NewPublisher_def drain_ok_def split: sum.splits prod.splits)
qed (auto intro: drain_ok_step[OF assms(1)] drain_ok_closed)

text \<open>How many more steps the goroutines can take once the publisher is closed.\<close>

definition steps_left :: "'x supervisor \<Rightarrow> nat" where
  "steps_left sv =
     (case sv_pc sv of
        Supervising \<Rightarrow> 3 + (if sv_broken sv then 0 else 1) | Draining _ \<Rightarrow> 2 | Redialing _ \<Rightarrow> 1
      | Dialing _ \<Rightarrow> 6 | Waiting _ \<Rightarrow> 2 | Stopped \<Rightarrow> 0) +
     (if sv_drain sv = None then 0 else 1)"

lemma closed_step_decreases:
  "supervise_step lib returning sv sv' \<Longrightarrow> sv_done sv \<Longrightarrow> sv_done sv' \<and> steps_left sv' < steps_left sv"
  by (induction rule: supervise_step.induct) (auto simp: steps_left_def)

lemma drain_ok_can_step:
  assumes "drain_ok returning sv" "sv_done sv" "sv_pc sv \<noteq> Stopped"
  shows "\<exists>sv'. supervise_step lib returning sv sv'"
proof (cases "sv_pc sv")
  case (Draining e)
  then show ?thesis
  proof (cases "sv_drain sv")
    case None
    then show ?thesis
      using supervise_step.ends[of sv] supervise_step.redials[of sv] Draining None by (cases e) (simp_all; blast)+
  next
    case (Some ch)
    then have "\<not> returning ch (sv_outside sv)" using assms(1) Draining by (simp add: drain_ok_def)
    then show ?thesis using Some by (blast intro: supervise_step.drained)
  qed
next
  case (Dialing b)
  obtain r x where "Publisher_dial lib (sv_outside sv) = (r, x)" by fastforce
  then show ?thesis
    using supervise_step.reconnected[OF Dialing] supervise_step.dial_failed[OF Dialing] by (cases r) blast+
next
  case Supervising
  show ?thesis using supervise_step.shutdown[OF Supervising assms(2)] by blast
next
  case (Redialing b)
  show ?thesis using supervise_step.gives_up[OF Redialing assms(2)] by blast
next
  case (Waiting b)
  show ?thesis using supervise_step.stops_waiting[OF Waiting assms(2)] by blast
qed (use assms(3) in simp)

text \<open>
  C39 (termination). \<^verbatim>\<open>Close\<close> returns. In whatever reachable state \<^verbatim>\<open>done\<close> is closed, the goroutines
  take at most six more steps, a dial under way and the receives of \<^verbatim>\<open>drainDone\<close> included; the
  supervisor is never stuck before it has stopped; and then nothing moves any more and the
  draining goroutine has ended as well. It relies on the AMQP library to close the returns of a
  channel that is closed, and on its calls to return.
\<close>

theorem closed_supervisor_stops:
  fixes sv :: "'x supervisor"
  assumes "closing_ends_returns lib returning" "supervised lib returning x sv"
    and "(supervise_step lib returning ^^ n) (Publisher_Close sv) sv'"
  shows "n \<le> 6 \<and> (sv_pc sv' = Stopped \<longleftrightarrow> \<not> (\<exists>sv''. supervise_step lib returning sv' sv'')) \<and>
    (sv_pc sv' = Stopped \<longrightarrow> sv_drain sv' = None)"
proof -
  have "drain_ok returning sv' \<and> sv_done sv' \<and> n + steps_left sv' \<le> steps_left (Publisher_Close sv)"
    using assms(3)
  proof (induction n arbitrary: sv')
    case 0
    then show ?case using drain_ok_closed[OF drain_ok_reach[OF assms(1,2)]] by (auto simp: Publisher_Close_def)
  next
    case (Suc n)
    then obtain u where "(supervise_step lib returning ^^ n) (Publisher_Close sv) u" "supervise_step lib returning u sv'"
      by auto
    then show ?case using Suc.IH[of u] closed_step_decreases[of lib returning u sv'] drain_ok_step[OF assms(1)] by fastforce
  qed
  moreover have "steps_left (Publisher_Close sv) \<le> 6"
    using drain_ok_closed[OF drain_ok_reach[OF assms(1,2)]]
    by (auto simp: steps_left_def drain_ok_def split: supervisor_pc.splits)
  moreover have "sv_drain sv' = None \<and> \<not> supervise_step lib returning sv' u"
    if "sv_pc sv' = Stopped" "drain_ok returning sv'" for u
    using that by (auto simp: drain_ok_def elim: supervise_stepE)
  ultimately show ?thesis using drain_ok_can_step[of returning sv' lib] by fastforce
qed

theorem closed_supervisor_stops_witness:
  "\<exists>sv sv'. supervised (traced (counting_lib 3)) unclosed (4, []) sv \<and>
     (supervise_step (traced (counting_lib 3)) unclosed ^^ 1) (Publisher_Close sv) sv' \<and>
     sv_pc sv' = Stopped \<and> \<not> (\<exists>u. supervise_step (traced (counting_lib 3)) unclosed sv' u)"
proof -
  let ?lib = "traced (counting_lib 3)"
  obtain sv where sv: "supervised ?lib unclosed (4, []) sv" "sv_pc sv = Redialing initialReconnectBackoff"
    using demo_supervised by blast
  let ?last = "Publisher_Close sv\<lparr>sv_pc := Stopped\<rparr>"
  have "supervise_step ?lib unclosed (Publisher_Close sv) ?last"
    by (rule supervise_step.gives_up) (use sv(2) in \<open>simp_all add: Publisher_Close_def\<close>)
  then have run: "(supervise_step ?lib unclosed ^^ 1) (Publisher_Close sv) ?last" by (simp only: relpowp_1)
  have "sv_pc ?last = Stopped" by simp
  then show ?thesis using closed_supervisor_stops[OF unclosed_ends sv(1) run] sv(1) run by blast
qed

end
