(* ===== verification/Service.thy ===== *)
theory Service
  imports Domain
begin

text \<open>
  What the subscription service promises, without tables, statements or processes: accounts
  (a subscriber's subscription to a repository) and jobs (the delivery of a confirmation mail),
  and the four things that happen to them. \<open>Refinement\<close> shows that \<^verbatim>\<open>cmd/server\<close> does nothing else
  to its database. \<open>Disturbed\<close> stands for a session that is no server.
\<close>

section \<open>Accounts, jobs and events\<close>

record account =
  ac_email :: string
  ac_repo :: string
  ac_confirm_token :: string
  ac_unsubscribe_token :: string
  ac_confirmed :: bool

datatype phase = Open | Closed SagaState

record job =
  jb_account :: string
  jb_phase :: phase

record service =
  sv_accounts :: "string \<rightharpoonup> account"
  sv_jobs :: "string \<rightharpoonup> job"

datatype event =
    Accepted string string account        \<comment> \<open>an account and its job, by their ids\<close>
  | Confirmed string
  | Removed string
  | Settled string SagaState
  | Disturbed                             \<comment> \<open>what a session other than a server may do\<close>

text \<open>Every job has its account, and no two accounts share a token.\<close>

definition service_ok :: "service \<Rightarrow> bool" where
  "service_ok s \<longleftrightarrow>
     (\<forall>k j. sv_jobs s k = Some j \<longrightarrow> sv_accounts s (jb_account j) \<noteq> None) \<and>
     (\<forall>i l a b. sv_accounts s i = Some a \<and> sv_accounts s l = Some b \<and>
        (ac_confirm_token a = ac_confirm_token b \<or> ac_unsubscribe_token a = ac_unsubscribe_token b) \<longrightarrow> i = l)"

text \<open>Removing an account removes its jobs.\<close>

definition without_account :: "string \<Rightarrow> service \<Rightarrow> service" where
  "without_account i s =
     s\<lparr>sv_accounts := (sv_accounts s)(i := None),
       sv_jobs := (\<lambda>k. case sv_jobs s k of None \<Rightarrow> None
         | Some j \<Rightarrow> if jb_account j = i then None else Some j)\<rparr>"

inductive service_step :: "event \<Rightarrow> service \<Rightarrow> service \<Rightarrow> bool" where
  accept: "sv_accounts s i = None \<Longrightarrow> sv_jobs s k = None \<Longrightarrow> \<not> ac_confirmed a \<Longrightarrow>
    (\<And>l b. sv_accounts s l = Some b \<Longrightarrow> ac_confirm_token b \<noteq> ac_confirm_token a \<and>
       ac_unsubscribe_token b \<noteq> ac_unsubscribe_token a) \<Longrightarrow>
    service_step (Accepted i k a) s
      (s\<lparr>sv_accounts := (sv_accounts s)(i \<mapsto> a), sv_jobs := (sv_jobs s)(k \<mapsto> \<lparr>jb_account = i, jb_phase = Open\<rparr>)\<rparr>)"
| confirm: "sv_accounts s i = Some a \<Longrightarrow>
    service_step (Confirmed i) s (s\<lparr>sv_accounts := (sv_accounts s)(i \<mapsto> a\<lparr>ac_confirmed := True\<rparr>)\<rparr>)"
| remove: "sv_accounts s i = Some a \<Longrightarrow> service_step (Removed i) s (without_account i s)"
| settle: "sv_jobs s k = Some j \<Longrightarrow> jb_phase j = Open \<Longrightarrow>
    service_step (Settled k st) s (s\<lparr>sv_jobs := (sv_jobs s)(k \<mapsto> j\<lparr>jb_phase := Closed st\<rparr>)\<rparr>)"
| disturb: "service_ok s' \<Longrightarrow> service_step Disturbed s s'"

inductive_simps service_step_confirm: "service_step (Confirmed i) s s'"
  and service_step_remove: "service_step (Removed i) s s'"
  and service_step_settle: "service_step (Settled k st) s s'"

section \<open>Runs\<close>

text \<open>\<open>service_run E s s'\<close>: from \<open>s\<close> to \<open>s'\<close> by events of \<open>E\<close> only.\<close>

inductive service_run :: "event set \<Rightarrow> service \<Rightarrow> service \<Rightarrow> bool" for E :: "event set" where
  run_refl [simp, intro]: "service_run E s s"
| run_step: "service_run E s s' \<Longrightarrow> e \<in> E \<Longrightarrow> service_step e s' s'' \<Longrightarrow> service_run E s s''"

lemma run_one: "e \<in> E \<Longrightarrow> service_step e s s' \<Longrightarrow> service_run E s s'"
  by (rule run_step[OF run_refl])

lemma run_trans [trans]: "service_run E s s' \<Longrightarrow> service_run E s' s'' \<Longrightarrow> service_run E s s''"
  by (rotate_tac 1, induction rule: service_run.induct) (auto intro: run_step)

lemma run_mono: "service_run E s s' \<Longrightarrow> E \<subseteq> F \<Longrightarrow> service_run F s s'"
  by (induction rule: service_run.induct) (auto intro: run_step)

lemma run_empty [simp]: "service_run {} s s' \<longleftrightarrow> s' = s"
  by (auto elim: service_run.cases)

section \<open>What holds of every reachable service\<close>

lemma without_account_sel [simp]:
  "sv_accounts (without_account i s) = (sv_accounts s)(i := None)"
  "sv_jobs (without_account i s) k = Some j \<longleftrightarrow> sv_jobs s k = Some j \<and> jb_account j \<noteq> i"
  by (auto simp: without_account_def split: option.splits)

lemma service_okI [intro?]:
  assumes "\<And>k j. sv_jobs s k = Some j \<Longrightarrow> sv_accounts s (jb_account j) \<noteq> None"
    and "\<And>i l a b. sv_accounts s i = Some a \<Longrightarrow> sv_accounts s l = Some b \<Longrightarrow>
      ac_confirm_token a = ac_confirm_token b \<or> ac_unsubscribe_token a = ac_unsubscribe_token b \<Longrightarrow> i = l"
  shows "service_ok s"
  unfolding service_ok_def using assms by blast

lemma service_okD:
  assumes "service_ok s"
  shows "sv_jobs s k = Some j \<Longrightarrow> \<exists>a. sv_accounts s (jb_account j) = Some a"
    and "sv_accounts s i = Some a \<Longrightarrow> sv_accounts s l = Some b \<Longrightarrow>
      ac_confirm_token a = ac_confirm_token b \<or> ac_unsubscribe_token a = ac_unsubscribe_token b \<Longrightarrow> i = l"
  using assms unfolding service_ok_def by blast+

lemma service_ok_tokens:
  assumes "service_ok s"
    and "\<And>k j. sv_jobs s' k = Some j \<Longrightarrow> sv_accounts s' (jb_account j) \<noteq> None"
    and "\<And>i b. sv_accounts s' i = Some b \<Longrightarrow> \<exists>a. sv_accounts s i = Some a \<and>
      ac_confirm_token a = ac_confirm_token b \<and> ac_unsubscribe_token a = ac_unsubscribe_token b"
  shows "service_ok s'"
proof
  show "sv_accounts s' (jb_account j) \<noteq> None" if "sv_jobs s' k = Some j" for k j
    using that by (rule assms(2))
next
  fix i l a b
  assume "sv_accounts s' i = Some a" "sv_accounts s' l = Some b"
    "ac_confirm_token a = ac_confirm_token b \<or> ac_unsubscribe_token a = ac_unsubscribe_token b"
  then show "i = l" using assms(3)[of i a] assms(3)[of l b] service_okD(2)[OF assms(1)] by fastforce
qed

lemma service_step_ok:
  assumes "service_step e s s'" "service_ok s"
  shows "service_ok s'"
  using assms(1)
proof (cases rule: service_step.cases)
  case (accept i k a)
  show ?thesis
  proof
    show "sv_accounts s' (jb_account j) \<noteq> None" if "sv_jobs s' l = Some j" for l j
      using that service_okD(1)[OF assms(2)] accept(2) by (cases "l = k") fastforce+
    show "p = q" if "sv_accounts s' p = Some b" "sv_accounts s' q = Some c"
      "ac_confirm_token b = ac_confirm_token c \<or> ac_unsubscribe_token b = ac_unsubscribe_token c" for p q b c
      using that service_okD(2)[OF assms(2)] accept(6)[of p b] accept(6)[of q c]
      unfolding accept(2) by (cases "p = i"; cases "q = i") (simp_all, metis+)
  qed
next
  case (confirm i a)
  then show ?thesis using service_okD(1)[OF assms(2)]
    by (intro service_ok_tokens[OF assms(2)]) (fastforce split: if_splits)+
next
  case (remove i a)
  then show ?thesis using service_okD(1)[OF assms(2)]
    by (intro service_ok_tokens[OF assms(2)]) (fastforce split: if_splits)+
next
  case (settle k j st)
  then show ?thesis using service_okD(1)[OF assms(2)]
    by (intro service_ok_tokens[OF assms(2)]) (fastforce split: if_splits)+
next
  case disturb
  then show ?thesis by simp
qed

lemma service_run_ok: "service_run E s s' \<Longrightarrow> service_ok s \<Longrightarrow> service_ok s'"
  by (induction rule: service_run.induct) (auto intro: service_step_ok)

text \<open>Without a \<open>Confirmed\<close> event an account is confirmed only if it was.\<close>

lemma run_confirmed:
  assumes "service_run E s s'" "Disturbed \<notin> E" "\<And>i. Confirmed i \<notin> E"
    and "sv_accounts s' i = Some a" "ac_confirmed a"
  shows "sv_accounts s i = Some a"
  using assms
proof (induction arbitrary: a rule: service_run.induct)
  case (run_step s s' e s'')
  from run_step.hyps(3) have "sv_accounts s' i = Some a"
    by (cases rule: service_step.cases) (use run_step.prems run_step.hyps(2) in \<open>auto split: if_splits\<close>)
  then show ?case using run_step by blast
qed simp

text \<open>Without a \<open>Removed\<close> event no account is lost, and nothing but its confirmation changes.\<close>

definition kept_account :: "account \<Rightarrow> account \<Rightarrow> bool" where
  "kept_account a b \<longleftrightarrow> b = a \<or> b = a\<lparr>ac_confirmed := True\<rparr>"

lemma run_not_removed:
  assumes "service_run E s s'" "Disturbed \<notin> E" "Removed i \<notin> E" "sv_accounts s i = Some a"
  shows "\<exists>b. sv_accounts s' i = Some b \<and> kept_account a b"
  using assms
proof (induction rule: service_run.induct)
  case (run_step s s' e s'')
  then obtain b where b: "sv_accounts s' i = Some b" "kept_account a b" by blast
  from run_step.hyps(3) show ?case
    by (cases rule: service_step.cases)
      (use b run_step.prems run_step.hyps(2) in \<open>auto simp: kept_account_def split: if_splits\<close>)
qed (simp add: kept_account_def)

text \<open>A closed job is never reopened or closed again: it stays as it is or goes with its account.\<close>

lemma run_closed:
  assumes "service_run E s s'" "Disturbed \<notin> E" "\<And>i a. Accepted i k a \<notin> E"
    and "sv_jobs s k = Some j" "jb_phase j \<noteq> Open"
  shows "sv_jobs s' k = Some j \<or> sv_jobs s' k = None"
  using assms
proof (induction rule: service_run.induct)
  case (run_step s s' e s'')
  have ih: "sv_jobs s' k = Some j \<or> sv_jobs s' k = None"
    by (rule run_step.IH) (use run_step.prems in simp_all)
  from run_step.hyps(3) show ?case
    by (cases rule: service_step.cases)
      (use ih run_step.prems run_step.hyps(2) in \<open>auto simp: without_account_def split: if_splits option.splits\<close>)
qed simp

lemma run_was_closed:
  "service_run F s s' \<Longrightarrow> Disturbed \<notin> F \<Longrightarrow> sv_jobs s' k = Some j \<Longrightarrow> jb_phase j = Closed st \<Longrightarrow>
    Settled k st \<in> F \<or> sv_jobs s k = Some j"
proof (induction arbitrary: j rule: service_run.induct)
  case (run_step s s' e s'')
  from run_step.hyps(3) show ?case
  proof (cases rule: service_step.cases)
    case (settle k' j' st')
    then show ?thesis using run_step by (cases "k' = k") auto
  next
    case (remove i a)
    then show ?thesis using run_step by auto
  next
    case (accept i k' a)
    then show ?thesis using run_step by (cases "k' = k") auto
  qed (use run_step in auto)
qed simp

end
