(* ===== verification/Refinement.thy ===== *)
theory Refinement
  imports Frames Service
begin

text \<open>
  \<^verbatim>\<open>cmd/server\<close> implements the service of \<open>Service\<close>. The tables are read as a service by
  \<open>service_of\<close>; \<open>obeys E A w w'\<close> says that from \<open>w\<close> to \<open>w'\<close> the tables moved by events of \<open>A\<close>, the
  program's own, and of \<open>E\<close>, those of the other sessions, provided that these keep to \<open>E\<close>. Every
  statement obeys, so by the locales of \<open>Frames\<close> every handler does, whatever calls fail and
  however the sessions interleave; and since the other sessions are servers like this one, what
  is guaranteed here is what is relied on there.
\<close>

section \<open>The tables as a service\<close>

definition account_of :: "Subscription \<Rightarrow> account" where
  "account_of s = \<lparr>ac_email = sub_Email s, ac_repo = sub_Repo s, ac_confirm_token = sub_ConfirmToken s,
     ac_unsubscribe_token = sub_UnsubscribeToken s, ac_confirmed = sub_Confirmed s\<rparr>"

definition phase_of :: "SagaState \<Rightarrow> phase" where
  "phase_of st = (if st = SagaStatePending then Open else Closed st)"

definition job_of :: "Saga \<Rightarrow> job" where
  "job_of s = \<lparr>jb_account = saga_SubscriptionID s, jb_phase = phase_of (saga_State s)\<rparr>"

definition service_of :: "tables \<Rightarrow> service" where
  "service_of d =
     \<lparr>sv_accounts = (\<lambda>i. map_option account_of
        (Option.bind (find (\<lambda>r. sr_id r = i) (t_subscriptions d)) (join_row d))),
      sv_jobs = (\<lambda>k. map_option job_of (find (\<lambda>s. saga_ID s = k) (t_sagas d)))\<rparr>"

lemma service_at:
  "service_of (db w) = \<lparr>sv_accounts = (\<lambda>i. map_option account_of (sub_at w i)),
     sv_jobs = (\<lambda>k. map_option job_of (saga_at w k))\<rparr>"
  by (simp add: service_of_def sub_at_def saga_at_def)

lemma service_cong: "sub_at w' = sub_at w \<Longrightarrow> saga_at w' = saga_at w \<Longrightarrow> service_of (db w') = service_of (db w)"
  by (simp add: service_at)

section \<open>Statements as events\<close>

lemma mark_event:
  assumes "world_ok w" "saga_state_check st" "st \<noteq> SagaStatePending" "Settled i st \<in> A"
  shows "service_run A (service_of (db w)) (service_of (snd (sql_mark_saga st e t i (db w))))"
proof -
  let ?v = "w\<lparr>db := snd (sql_mark_saga st e t i (db w))\<rparr>"
  note v = views_after_mark[OF assms(1,2), of ?v e t i]
  show ?thesis
  proof (cases "\<exists>s. saga_at w i = Some s \<and> saga_State s = ''pending''")
    case False
    then show ?thesis using v(3) by simp
  next
    case True
    then obtain s where s: "saga_at w i = Some s" "saga_State s = ''pending''" by blast
    have "service_step (Settled i st) (service_of (db w)) (service_of (db ?v))"
      unfolding service_at service_step_settle using s assms(3) v(1) v(2)[OF _ s]
      by (intro exI[of _ "job_of s"])
        (auto simp: job_of_def phase_of_def mark_saga_def SagaStatePending_def)
    then show ?thesis using run_one[OF assms(4)] by simp
  qed
qed

lemma delete_event:
  assumes "world_ok w" "Removed i \<in> A"
  shows "service_run A (service_of (db w)) (service_of (snd (sql_delete_subscription i (db w))))"
proof -
  let ?v = "w\<lparr>db := snd (sql_delete_subscription i (db w))\<rparr>"
  note v = views_after_delete[OF assms(1), of ?v i, simplified]
  show ?thesis
  proof (cases "sub_at w i")
    case None
    then have "saga_SubscriptionID s \<noteq> i" if "saga_at w k = Some s" for k s
      using world_saga_has_sub[OF assms(1) that] by auto
    then have "cascaded i (saga_at w) = saga_at w"
      by (auto simp: cascaded_def fun_eq_iff split: option.splits)
    then have "service_of (db ?v) = service_of (db w)"
      using v None by (intro service_cong) (auto simp: fun_upd_idem)
    then show ?thesis by simp
  next
    case (Some s)
    have "service_step (Removed i) (service_of (db w)) (service_of (db ?v))"
      unfolding service_at service_step_remove using Some v
      by (auto simp: without_account_def cascaded_def job_of_def fun_eq_iff split: option.splits)
    then show ?thesis using run_one[OF assms(2)] by simp
  qed
qed

lemma confirm_event:
  fixes w :: "'x world"
  assumes "Confirmed i \<in> A"
  shows "service_run A (service_of (db w)) (service_of (snd (sql_confirm i (db w))))"
proof -
  let ?v = "w\<lparr>db := snd (sql_confirm i (db w))\<rparr>"
  note v = views_after_confirm[of ?v i w, simplified]
  show ?thesis
  proof (cases "sub_at w i")
    case None
    then have "sub_at ?v = sub_at w" unfolding v(2) by (auto simp: fun_eq_iff)
    then show ?thesis using service_cong[of ?v w] v(1) by simp
  next
    case (Some s)
    have "service_step (Confirmed i) (service_of (db w)) (service_of (db ?v))"
      unfolding service_at service_step_confirm using Some v
      by (auto simp: account_of_def fun_eq_iff)
    then show ?thesis using run_one[OF assms] by simp
  qed
qed

lemma tag_event:
  fixes w :: "'x world"
  shows "service_of (snd (sql_update_tag i t (db w))) = service_of (db w)"
proof -
  let ?v = "w\<lparr>db := snd (sql_update_tag i t (db w))\<rparr>"
  have "account_of (if P then s\<lparr>sub_LastSeenTag := x\<rparr> else s) = account_of s" for P s x
    by (simp add: account_of_def)
  then have "service_of (db ?v) = service_of (db w)"
    unfolding service_at using views_after_tag[of ?v i t w]
    by (auto simp: fun_eq_iff option.map_comp comp_def)
  then show ?thesis by simp
qed

lemma repo_event:
  fixes w :: "'x world"
  shows "world_ok w \<Longrightarrow> service_of (snd (sql_get_or_create i n t (db w))) = service_of (db w)"
  using views_after_repo[of w "w\<lparr>db := snd (sql_get_or_create i n t (db w))\<rparr>" i n t]
    service_cong[of "w\<lparr>db := snd (sql_get_or_create i n t (db w))\<rparr>" w] by simp

lemma fits_tokens:
  assumes "world_ok w" "pair_fits (db w) sub s" "sub_at w l = Some b"
  shows "sub_ConfirmToken b \<noteq> sub_ConfirmToken sub \<and> sub_UnsubscribeToken b \<noteq> sub_UnsubscribeToken sub"
proof -
  obtain x where x: "x \<in> set (t_subscriptions (db w))" "join_row (db w) x = Some b"
    using assms(3) sub_at_iff[OF assms(1)] by blast
  have "sr_confirm_token x = sub_ConfirmToken b" "sr_unsubscribe_token x = sub_UnsubscribeToken b"
    using x(2) by (auto simp: join_row_def)
  moreover have "sub_ConfirmToken sub \<notin> sr_confirm_token ` set (t_subscriptions (db w))"
    "sub_UnsubscribeToken sub \<notin> sr_unsubscribe_token ` set (t_subscriptions (db w))"
    using assms(2) by (simp_all add: pair_fits_def)
  ultimately show ?thesis using x(1) by (metis image_eqI)
qed

lemma pair_event:
  assumes ok: "world_ok w" and fits: "pair_fits (db w) sub s"
    and new: "\<not> sub_Confirmed sub" "saga_SubscriptionID s = sub_ID sub" "saga_State s = SagaStatePending"
    and A: "\<And>a. ac_email a = sub_Email sub \<Longrightarrow> Accepted (sub_ID sub) (saga_ID s) a \<in> A"
  shows "service_run A (service_of (db w)) (service_of (with_pair (db w) sub s))"
proof -
  let ?v = "w\<lparr>db := with_pair (db w) sub s\<rparr>"
  have v: "saga_at ?v = (saga_at w)(saga_ID s \<mapsto> s\<lparr>saga_LastError := None, saga_CompletedAt := None\<rparr>)"
    "sub_at ?v = (sub_at w)(sub_ID sub := join_row (db w) (row_of_sub sub))"
    by (rule saga_at_with_pair[OF fits] sub_at_with_pair[OF fits]; simp)+
  note fresh = pair_fits_fresh[OF fits]
  have "sub_RepoID sub \<in> repo_ID ` set (t_repositories (db w))" using fits by (simp add: pair_fits_def)
  then obtain q where q: "find (\<lambda>x. repo_ID x = sub_RepoID sub) (t_repositories (db w)) = Some q"
    by (cases "find (\<lambda>x. repo_ID x = sub_RepoID sub) (t_repositories (db w))") (auto simp: find_None_iff)
  then obtain r where r: "join_row (db w) (row_of_sub sub) = Some r" "sub_Email r = sub_Email sub"
    "\<not> sub_Confirmed r" "sub_ConfirmToken r = sub_ConfirmToken sub" "sub_UnsubscribeToken r = sub_UnsubscribeToken sub"
    using new(1) by (auto simp: join_row_def row_of_sub_def)
  let ?S = "service_of (db w)"
  have "service_step (Accepted (sub_ID sub) (saga_ID s) (account_of r)) ?S
      (?S\<lparr>sv_accounts := (sv_accounts ?S)(sub_ID sub \<mapsto> account_of r),
         sv_jobs := (sv_jobs ?S)(saga_ID s \<mapsto> \<lparr>jb_account = sub_ID sub, jb_phase = Open\<rparr>)\<rparr>)"
  proof (rule service_step.accept)
    fix l b assume "sv_accounts ?S l = Some b"
    then obtain y where "sub_at w l = Some y" "b = account_of y" by (auto simp: service_at)
    then show "ac_confirm_token b \<noteq> ac_confirm_token (account_of r) \<and>
        ac_unsubscribe_token b \<noteq> ac_unsubscribe_token (account_of r)"
      using fits_tokens[OF ok fits] r by (simp add: account_of_def)
  qed (use fresh r in \<open>simp_all add: service_at account_of_def\<close>)
  moreover have "service_of (db ?v) =
      ?S\<lparr>sv_accounts := (sv_accounts ?S)(sub_ID sub \<mapsto> account_of r),
         sv_jobs := (sv_jobs ?S)(saga_ID s \<mapsto> \<lparr>jb_account = sub_ID sub, jb_phase = Open\<rparr>)\<rparr>"
    unfolding service_at v r(1) using new by (auto simp: job_of_def phase_of_def fun_eq_iff)
  moreover have "Accepted (sub_ID sub) (saga_ID s) (account_of r) \<in> A"
    by (rule A) (simp add: account_of_def r(2))
  ultimately show ?thesis using run_one by fastforce
qed

section \<open>Worlds that obey\<close>

definition within :: "event set \<Rightarrow> 'x world \<Rightarrow> bool" where
  "within E w \<longleftrightarrow> (\<forall>n d. db_ok d \<longrightarrow> service_run E (service_of d) (service_of (db_env w n d)))"

definition obeys :: "event set \<Rightarrow> event set \<Rightarrow> 'x world \<Rightarrow> 'x world \<Rightarrow> bool" where
  "obeys E A w w' \<longleftrightarrow> (world_ok w \<and> within E w \<longrightarrow>
     world_ok w' \<and> db_env w' = db_env w \<and> service_run (E \<union> A) (service_of (db w)) (service_of (db w')))"

lemma quiet_within: "quiet w \<Longrightarrow> within {} w"
  by (simp add: quiet_def within_def)

lemma obeys_trans: "obeys E A w w' \<Longrightarrow> obeys E A w' w'' \<Longrightarrow> obeys E A w w''"
  by (auto simp: obeys_def within_def intro: run_trans)

lemma obeys_mono: "obeys E A w w' \<Longrightarrow> A \<subseteq> B \<Longrightarrow> obeys E B w w'"
  unfolding obeys_def by (meson run_mono sup.mono order_refl)

lemma obeys_io: "io_only w w' \<Longrightarrow> obeys E A w w'"
  using io_only_world[of w w'] by (simp add: obeys_def world_ok_def)

text \<open>One statement: a turn of the other sessions, then perhaps its own effect.\<close>

lemma obeys_turn: "obeys E A w (db_turn w)"
  unfolding obeys_def
proof
  assume "world_ok w \<and> within E w"
  then show "world_ok (db_turn w) \<and> db_env (db_turn w) = db_env w \<and>
      service_run (E \<union> A) (service_of (db w)) (service_of (db (db_turn w)))"
    using run_mono[of E _ _ "E \<union> A"] by (auto simp: world_ok_def within_def db_turn_def)
qed

lemma obeys_tables:
  assumes "world_ok w \<Longrightarrow> db_ok d \<and> service_run A (service_of (db w)) (service_of d)" "db w' = d" "db_env w' = db_env w"
  shows "obeys E A w w'"
  using assms run_mono[of A _ _ "E \<union> A"] by (auto simp: obeys_def world_ok_def)

lemma obeys_statement:
  fixes w :: "'x world"
  assumes "sql_keeps stmt"
    and "\<And>v :: 'x world. world_ok v \<Longrightarrow> service_run A (service_of (db v)) (service_of (snd (stmt (db v))))"
  shows "obeys E A w (snd (exec_sql stmt w))"
proof -
  let ?t = "db_turn w"
  have s: "obeys E A ?t (?t\<lparr>db := snd (stmt (db ?t))\<rparr>)"
    by (rule obeys_tables[where d = "snd (stmt (db ?t))"])
      (use assms in \<open>auto simp: sql_keeps_def world_ok_def\<close>)
  show ?thesis
    using obeys_turn obeys_trans[OF obeys_turn s]
    by (auto simp: exec_sql_def Let_def split: db_outcome.splits)
qed

section \<open>The repositories obey\<close>

lemma obeys_one_row: "obeys E A w (snd (one_row what sel w))"
  using obeys_statement[of "query_row sel" A E w]
  by (auto simp: one_row_def query_row_def split: prod.splits sum.splits if_splits)

lemma obeys_many_rows: "obeys E A w (snd (many_rows what sel w))"
  using obeys_statement[of "query_rows sel" A E w]
  by (auto simp: many_rows_def query_rows_def split: prod.splits sum.splits db_outcome.splits)

lemma obeys_affecting: "obeys E A w (snd (exec_sql stmt w)) \<Longrightarrow> obeys E A w (snd (exec_affecting what stmt w))"
  by (auto simp: exec_affecting_def split: prod.splits sum.splits)

lemma obeys_mark:
  assumes "saga_state_check st" "st \<noteq> SagaStatePending" "Settled i st \<in> A"
  shows "obeys E A w (snd (markTerminal i st e w))"
proof -
  obtain t w1 where t: "time_Now w = (t, w1)" by fastforce
  have "obeys E A w1 (snd (exec_affecting (''mark saga '' @ st) (sql_mark_saga st e t i) w1))"
    by (intro obeys_affecting obeys_statement keeps_mark mark_event assms)
  then show ?thesis using obeys_trans[OF obeys_io[OF io_only_calls(1)[OF t]]] t by (simp add: markTerminal_def)
qed

lemma obeys_Delete: "Removed i \<in> A \<Longrightarrow> obeys E A w (snd (SubscriptionRepository_Delete i w))"
  unfolding SubscriptionRepository_Delete_def
  by (intro obeys_affecting obeys_statement keeps_delete delete_event)

lemma obeys_Confirm: "Confirmed i \<in> A \<Longrightarrow> obeys E A w (snd (SubscriptionRepository_Confirm i w))"
  unfolding SubscriptionRepository_Confirm_def
  by (intro obeys_affecting obeys_statement keeps_confirm confirm_event)

lemma obeys_UpdateLastSeenTag: "obeys E A w (snd (UpdateLastSeenTag i tag w))"
proof -
  have "obeys E A w (snd (exec_sql (sql_update_tag i tag) w))"
    by (rule obeys_statement[OF keeps_update_tag]) (simp add: tag_event)
  then show ?thesis by (auto simp: UpdateLastSeenTag_def split: prod.splits sum.splits)
qed

lemma obeys_Exists: "obeys E A w (snd (ExistsByEmailAndRepoID e i w))"
  using obeys_statement[of "sql_exists e i" A E w]
  by (auto simp: ExistsByEmailAndRepoID_def sql_exists_def split: prod.splits sum.splits)

lemma obeys_GetOrCreate: "obeys E A w (snd (GetOrCreate n w))"
proof -
  obtain i w1 where u: "uuid_New w = (i, w1)" by fastforce
  obtain t w2 where c: "time_Now w1 = (t, w2)" by fastforce
  obtain r w3 where q: "exec_sql (sql_get_or_create i n t) w2 = (r, w3)" by fastforce
  have "obeys E A w w2"
    by (rule obeys_io[OF io_only_trans[OF io_only_calls(2)[OF u] io_only_calls(1)[OF c]]])
  moreover have "obeys E A w2 (snd (exec_sql (sql_get_or_create i n t) w2))"
    by (rule obeys_statement[OF keeps_get_or_create]) (simp add: repo_event)
  ultimately have "obeys E A w w3" using obeys_trans q by (metis snd_conv)
  then show ?thesis using u c q by (cases r) (simp_all add: GetOrCreate_def)
qed

lemma obeys_CreateWithSaga:
  assumes "\<not> sub_Confirmed sub" "saga_SubscriptionID s = sub_ID sub" "saga_State s = SagaStatePending"
    and "\<And>a. ac_email a = sub_Email sub \<Longrightarrow> Accepted (sub_ID sub) (saga_ID s) a \<in> A"
  shows "obeys E A w (snd (CreateWithSaga sub s w))"
proof -
  obtain r w' where run: "CreateWithSaga sub s w = (r, w')" by fastforce
  have "obeys E A (db_turn w) w'"
    using run
  proof (cases rule: CreateWithSaga_cases)
    case unchanged
    then show ?thesis
      by (intro obeys_tables[where d = "db w'"]) (auto simp: world_ok_def dest: touched_frame(8))
  next
    case both
    have "db_ok (db w') \<and> service_run A (service_of (db (db_turn w))) (service_of (db w'))"
      if ok: "world_ok (db_turn w)"
      using with_pair_ok[OF _ both(2)] pair_event[OF ok both(2) assms] ok both(3) by (simp add: world_ok_def)
    then show ?thesis
      using touched_frame(8)[OF both(1)] by (intro obeys_tables[where d = "db w'"]) auto
  qed
  then show ?thesis using run obeys_trans[OF obeys_turn] by simp
qed

section \<open>The server's handlers obey\<close>

interpretation obedient: kept_io "obeys E A" for E A
proof
  show "obeys E A w w" for w :: "'x world" by (rule obeys_io) simp
  show "obeys E A w w''" if "obeys E A w w'" "obeys E A w' w''" for w w' w'' :: "'x world"
    using that by (rule obeys_trans)
  show "obeys E A w w'" if "io_only w w'" for w w' :: "'x world" using that by (rule obeys_io)
qed

text \<open>Which events a saga's handlers may cause.\<close>

definition compensation_events :: "string \<Rightarrow> event set" where
  "compensation_events i = insert (Settled i SagaStateCompensated) (range Removed)"

definition saga_events :: "string \<Rightarrow> event set" where
  "saga_events i = insert (Settled i SagaStateCompleted) (compensation_events i)"

interpretation compensates: kept_compensation "obeys E (compensation_events i)" "wired p r u" i
  for E and p :: "'x Publisher" and r :: "'x Retrier" and u i
proof
  fix w :: "'x world" and reason j to_addr repo url
  show "obeys E (compensation_events i) w (snd (ss_Get (or_sagas (wired p r u)) i w))"
    by (simp add: pg_sagas_def SagaRepository_Get_def obeys_one_row)
  show "obeys E (compensation_events i) w (snd (ss_MarkCompensated (or_sagas (wired p r u)) i reason w))"
    by (simp add: pg_sagas_def MarkCompensated_def compensation_events_def obeys_mark SagaState_distinct)
  show "obeys E (compensation_events i) w (snd (us_Delete (or_subs (wired p r u)) j w))"
    by (simp add: pg_subs_def compensation_events_def obeys_Delete)
qed

interpretation publishes: kept_publish "obeys E (compensation_events i)" "wired p r u" i
  for E and p :: "'x Publisher" and r :: "'x Retrier" and u i
proof
  fix w :: "'x world" and to_addr repo url
  show "obeys E (compensation_events i) w (snd (or_commands (wired p r u) i to_addr repo url w))"
    unfolding wired_simps SendConfirmationCommand_publish_def by (metis obeys_io prod.collapse publish_frame)
qed

interpretation settles: kept_saga "obeys E (saga_events i)" "wired p r u" i "\<lambda>_. True"
  for E and p :: "'x Publisher" and r :: "'x Retrier" and u i
proof
  have more: "compensation_events i \<subseteq> saga_events i" for i by (auto simp: saga_events_def)
  fix w :: "'x world" and reason j to_addr repo url
  note c = obeys_mono[OF _ more]
  show "obeys E (saga_events i) w (snd (ss_Get (or_sagas (wired p r u)) i w))"
    by (rule c[OF compensates.kept_Get])
  show "obeys E (saga_events i) w (snd (ss_MarkCompensated (or_sagas (wired p r u)) i reason w))"
    by (rule c[OF compensates.kept_Compensated])
  show "obeys E (saga_events i) w (snd (us_Delete (or_subs (wired p r u)) j w))"
    by (rule c[OF compensates.kept_Delete])
  show "obeys E (saga_events i) w (snd (ss_MarkCompleted (or_sagas (wired p r u)) i w))"
    by (simp add: pg_sagas_def MarkCompleted_def saga_events_def obeys_mark SagaState_distinct)
  show "obeys E (saga_events i) w (snd (us_GetByID (or_subs (wired p r u)) j w))"
    by (simp add: pg_subs_def GetByID_def obeys_one_row)
  show "obeys E (saga_events i) w (snd (or_retrier (wired p r u) i to_addr repo url w))"
    unfolding wired_simps by (metis obeys_io prod.collapse Retry_frame)
qed simp

definition sweep_events :: "event set" where
  "sweep_events = (\<Union>i. saga_events i)"

interpretation sweeps: kept_sweeper "obeys E sweep_events"
    "NewTimeoutSweeper (wired p r u) timeout interval time_Now ctx_Err"
  for E and p :: "'x Publisher" and r :: "'x Retrier" and u timeout interval
proof
  have more: "saga_events i \<subseteq> sweep_events" "compensation_events i \<subseteq> sweep_events" for i
    by (auto simp: sweep_events_def saga_events_def)
  let ?sw = "NewTimeoutSweeper (wired p r u) timeout interval time_Now ctx_Err :: 'x world TimeoutSweeper"
  fix w :: "'x world" and th k reason
  show "obeys E sweep_events w (snd (sw_now ?sw w))" "obeys E sweep_events w (snd (sw_ctxErr ?sw w))"
    by (simp_all add: NewTimeoutSweeper_def obedient.kept_now obedient.kept_err)
  show "obeys E sweep_events w (snd (sw_GetPendingOlderThan ?sw th w))"
    by (simp add: NewTimeoutSweeper_def pg_sagas_def GetPendingOlderThan_def obeys_many_rows)
  show "obeys E sweep_events w (snd (sw_AttemptSyncRetry ?sw k w))"
    using obeys_mono[OF settles.kept_AttemptSyncRetry more(1)] by (simp add: NewTimeoutSweeper_def)
  show "obeys E sweep_events w (snd (sw_HandleFailed ?sw k reason w))"
    using obeys_mono[OF compensates.kept_HandleFailed more(2)] by (simp add: NewTimeoutSweeper_def)
qed

definition subscribe_events :: "string \<Rightarrow> event set" where
  "subscribe_events email =
     {Accepted i k a | i k a. ac_email a = email} \<union> (\<Union>k. compensation_events k)"

interpretation subscribes: kept_subscribe "obeys E (subscribe_events email)"
    "wired_subscribe p r u (wired_checker redis gh)" email
  for E and p :: "'x Publisher" and r :: "'x Retrier" and u and redis :: "'x redis_client option" and gh email
proof
  let ?uc = "wired_subscribe p r u (wired_checker redis gh) :: 'x world SubscribeUseCase"
  fix w :: "'x world" and a b n e rid k url and sub s
  show "obeys E (subscribe_events email) w (snd (uc_CheckRepo ?uc a b w))"
    unfolding wired_subscribe_def SubscribeUseCase.simps by (metis obeys_io prod.collapse wired_checker_frame)
  show "obeys E (subscribe_events email) w (snd (uc_GetOrCreate ?uc n w))"
    by (simp add: wired_subscribe_def obeys_GetOrCreate)
  show "obeys E (subscribe_events email) w (snd (uc_ExistsByEmailAndRepoID ?uc e rid w))"
    by (simp add: wired_subscribe_def obeys_Exists)
  show "obeys E (subscribe_events email) w (snd (uc_CreateWithSaga ?uc sub s w))"
    if "sub_Email sub = email" "\<not> sub_Confirmed sub" "saga_SubscriptionID s = sub_ID sub"
      "saga_State s = SagaStatePending"
    unfolding wired_subscribe_def SubscribeUseCase.simps
    by (rule obeys_CreateWithSaga[OF that(2-4)]) (simp add: subscribe_events_def that(1))
  have "compensation_events k \<subseteq> subscribe_events email" by (auto simp: subscribe_events_def)
  then show "obeys E (subscribe_events email) w (snd (uc_Publish ?uc k sub url w))"
    using obeys_mono[OF publishes.kept_Publish] by (simp add: wired_subscribe_def)
qed

interpretation scans: kept_scanner "obeys E {}" "wired_scanner p u k tc redis gh"
  for E and p :: "'x Publisher" and u k tc and redis :: "'x redis_client option" and gh
proof
  fix w :: "'x world" and i tag a b t n bd h x
  show "obeys E {} w (snd (sn_GetAllWithConfirmedSubscriptions (wired_scanner p u k tc redis gh) w))"
    by (simp add: GetAllWithConfirmedSubscriptions_def obeys_many_rows)
  show "obeys E {} w (snd (sn_UpdateLastSeenTag (wired_scanner p u k tc redis gh) i tag w))"
    by (simp add: obeys_UpdateLastSeenTag)
  show "obeys E {} w (snd (sn_GetConfirmedByRepoID (wired_scanner p u k tc redis gh) i w))"
    by (simp add: GetConfirmedByRepoID_def obeys_many_rows)
  show "obeys E {} w (snd (sn_GetLatestRelease (wired_scanner p u k tc redis gh) a b w))"
    unfolding wired_scanner_simps by (metis obeys_io prod.collapse wired_fetcher_frame)
  show "obeys E {} w (snd (sn_SendReleaseNotification (wired_scanner p u k tc redis gh) a b t n bd h x w))"
    unfolding wired_scanner_simps SendReleaseNotification_def by (metis obeys_io prod.collapse publish_frame)
qed

section \<open>Tables that keep their constraints are a sound service\<close>

lemma world_service_ok:
  assumes "world_ok w"
  shows "service_ok (service_of (db w))"
proof
  fix k j assume "sv_jobs (service_of (db w)) k = Some j"
  then show "sv_accounts (service_of (db w)) (jb_account j) \<noteq> None"
    using world_saga_has_sub[OF assms] by (auto simp: service_at job_of_def)
next
  fix i l a b
  assume "sv_accounts (service_of (db w)) i = Some a" "sv_accounts (service_of (db w)) l = Some b"
    and t: "ac_confirm_token a = ac_confirm_token b \<or> ac_unsubscribe_token a = ac_unsubscribe_token b"
  then obtain s r where "sub_at w i = Some s" "sub_at w l = Some r" "a = account_of s" "b = account_of r"
    by (auto simp: service_at)
  then show "i = l" using t token_unique[OF assms] by (auto simp: account_of_def)
qed

lemma tables_service_ok: "db_ok d \<Longrightarrow> service_ok (service_of d)"
  using world_service_ok[of "demo_world () d"] by (simp add: demo_world_def world_ok_def)

text \<open>A session that keeps the constraints is at worst a disturbance: \<open>obeys {Disturbed}\<close> asks nothing of it.\<close>

lemma within_disturbed: "world_ok w \<Longrightarrow> within {Disturbed} w"
  unfolding within_def world_ok_def
  by (auto intro!: run_one[of Disturbed] service_step.disturb tables_service_ok)

end
