(* ===== verification/Startup.thy ===== *)
theory Startup
  imports Platform
begin

text \<open>
  How the two binaries start and stop: \<^verbatim>\<open>run\<close> of \<^verbatim>\<open>cmd/server/main.go\<close> and of
  \<^verbatim>\<open>cmd/notifier/main.go\<close>, with what they call. The libraries are a parameter: \<open>ans\<close> gives, for each
  call the two functions make on them, the error it returns. The result of a definition has the
  error it returns and the events, in order: which resources were acquired and released, the
  sleeps, and whether the process came to serve requests. Every \<^verbatim>\<open>defer\<close> is written out.
\<close>

section \<open>Calls and events\<close>

datatype boot_call =
    ParseDBConfig | NewPool | PingDB
  | OpenMigrations | NewMigrator | MigrateUp
  | ParseRedisURL | PingRedis
  | DialBroker nat               \<comment> \<open>the n-th attempt to dial the publisher\<close>
  | DialConsumer nat
  | NewGrpcClient | DialReplies | ListenGrpc
  | ShutdownHTTP | StopGrpc | AwaitWorker

datatype resource = Pool | Migrator | RedisClient | PublisherConn | GrpcConn | RepliesConn | ConsumerConn

datatype boot_event = Acquired resource | Released resource | Slept int | Served | Ended boot_call

type_synonym answers = "boot_call \<Rightarrow> goerr option"
type_synonym outcome_events = "goerr option \<times> boot_event list"

text \<open>What happens before, and what a \<^verbatim>\<open>defer\<close> adds at the end.\<close>

definition after :: "boot_event list \<Rightarrow> outcome_events \<Rightarrow> outcome_events" where
  "after ev r = (fst r, ev @ snd r)"

definition deferring :: "resource \<Rightarrow> outcome_events \<Rightarrow> outcome_events" where
  "deferring c r = (fst r, snd r @ [Released c])"

section \<open>PostgreSQL, the migrations and Redis\<close>




section \<open>The broker\<close>

definition brokerDialAttempts :: nat where "brokerDialAttempts = 15"
definition brokerDialDelay :: int where "brokerDialDelay = 2 * Second"

text \<open>
  The loop of \<^verbatim>\<open>dialPublisherWithRetry\<close> and \<^verbatim>\<open>dialConsumerWithRetry\<close>: \<open>k\<close> attempts are left,
  \<open>attempt\<close> is the next one. It sleeps after every failure, the last one too.
\<close>

fun dial_attempts :: "(nat \<Rightarrow> goerr option) \<Rightarrow> nat \<Rightarrow> nat \<Rightarrow> goerr option \<Rightarrow> bool \<times> goerr option \<times> boot_event list" where
  "dial_attempts dial 0 attempt lastErr = (False, lastErr, [])"
| "dial_attempts dial (Suc k) attempt lastErr =
     (case dial attempt of
        None \<Rightarrow> (True, None, [])
      | Some err \<Rightarrow>
          (let (ok, e, ev) = dial_attempts dial k (Suc attempt) (Some err)
           in (ok, e, Slept brokerDialDelay # ev)))"

definition dialWithRetry :: "(nat \<Rightarrow> goerr option) \<Rightarrow> resource \<Rightarrow> outcome_events" where
  "dialWithRetry dial c =
     (case dial_attempts dial brokerDialAttempts 1 None of
        (True, e, ev) \<Rightarrow> (None, ev @ [Acquired c])
      | (False, e, ev) \<Rightarrow>
          (map_option (Errorf (''after '' @ itoa brokerDialAttempts @ '' attempts'')) e, ev))"

definition dialPublisherWithRetry :: "answers \<Rightarrow> outcome_events" where
  "dialPublisherWithRetry ans = dialWithRetry (\<lambda>n. ans (DialBroker n)) PublisherConn"

definition dialConsumerWithRetry :: "answers \<Rightarrow> outcome_events" where
  "dialConsumerWithRetry ans = dialWithRetry (\<lambda>n. ans (DialConsumer n)) ConsumerConn"

section \<open>The server\<close>



text \<open>\<^verbatim>\<open>setupServices\<close>: a duration that does not parse is replaced by a default; \<open>parse\<close> is \<^verbatim>\<open>time.ParseDuration\<close>.\<close>

definition duration_or :: "(string \<Rightarrow> goerr + int) \<Rightarrow> int \<Rightarrow> string \<Rightarrow> int" where
  "duration_or parse fallback s = (case parse s of Inl err \<Rightarrow> fallback | Inr d \<Rightarrow> d)"

definition scanInterval :: "(string \<Rightarrow> goerr + int) \<Rightarrow> Config \<Rightarrow> int" where
  "scanInterval parse cfg = duration_or parse Hour (cfg_ScanInterval cfg)"

definition sagaTimeout :: "(string \<Rightarrow> goerr + int) \<Rightarrow> Config \<Rightarrow> int" where
  "sagaTimeout parse cfg = duration_or parse (5 * Minute) (cfg_SagaTimeout cfg)"

definition sweepInterval :: "(string \<Rightarrow> goerr + int) \<Rightarrow> Config \<Rightarrow> int" where
  "sweepInterval parse cfg = duration_or parse (30 * Second) (cfg_SagaSweepInterval cfg)"

section \<open>The notifier\<close>

text \<open>What ends the serving of the notifier: a signal, or the end of its consumer.\<close>

datatype shutdown_cause = Signal | ConsumerExited

definition waitForShutdown :: "shutdown_cause \<Rightarrow> goerr option" where
  "waitForShutdown cause =
     (case cause of
        Signal \<Rightarrow> None
      | ConsumerExited \<Rightarrow> Some (Opaque ''notifier: consumer exited unexpectedly''))"

text \<open>\<^verbatim>\<open>gracefulShutdown\<close>: HTTP, then gRPC, then the consumer; what is late is only logged.\<close>

definition gracefulShutdown :: "boot_event list" where
  "gracefulShutdown = [Ended ShutdownHTTP, Ended StopGrpc, Ended AwaitWorker, Released ConsumerConn]"

definition notifier_run :: "(string \<Rightarrow> string) \<Rightarrow> answers \<Rightarrow> shutdown_cause \<Rightarrow> outcome_events" where
  "notifier_run env ans cause =
     (if env ''BROKER_URL'' = []
      then (Some (Opaque ''BROKER_URL is required: notifier consumes notifications from rabbitmq''), [])
      else case dialPublisherWithRetry ans of
        (Some err, ev) \<Rightarrow> (Some (Errorf ''connect rabbitmq publisher'' err), ev)
      | (None, ev) \<Rightarrow> after ev (deferring PublisherConn
          (case dialConsumerWithRetry ans of
             (Some err, ev) \<Rightarrow> (Some (Errorf ''connect rabbitmq'' err), ev)
           | (None, ev) \<Rightarrow> after ev
               (case ans ListenGrpc of
                  Some err \<Rightarrow> (Some (Errorf (''listen grpc '' @ getEnv env ''NOTIFIER_GRPC_PORT'' ''50051'') err), [])
                | None \<Rightarrow> (waitForShutdown cause, Served # gracefulShutdown)))))"

section \<open>The processes\<close>

text \<open>
  \<^verbatim>\<open>main\<close>: an error of \<^verbatim>\<open>run\<close> gives exit status 1. While the process serves, the goroutine of its HTTP
  server calls \<^verbatim>\<open>os.Exit(1)\<close> when \<^verbatim>\<open>ListenAndServe\<close> fails (\<open>listen\<close> is the error it returns, if it
  does), and then \<^verbatim>\<open>run\<close> gets no further: nothing is shut down and no \<^verbatim>\<open>defer\<close> runs.
\<close>

definition exited :: "goerr option \<Rightarrow> outcome_events \<Rightarrow> nat \<times> boot_event list" where
  "exited listen r =
     (if Served \<in> set (snd r) \<and> (case listen of None \<Rightarrow> False | Some err \<Rightarrow> \<not> errors_Is err HttpErrServerClosed)
      then (1, takeWhile (\<lambda>e. e \<noteq> Served) (snd r) @ [Served])
      else (case fst r of Some err \<Rightarrow> 1 | None \<Rightarrow> 0, snd r))"


definition notifier_main ::
    "(string \<Rightarrow> string) \<Rightarrow> answers \<Rightarrow> shutdown_cause \<Rightarrow> goerr option \<Rightarrow> nat \<times> boot_event list" where
  "notifier_main env ans cause listen = exited listen (notifier_run env ans cause)"

section \<open>Facts\<close>

text \<open>The dial succeeds exactly if one of the attempts does; it sleeps after each failed one.\<close>

lemma dial_attempts_spec:
  "dial_attempts dial k a le = (ok, e, ev) \<Longrightarrow>
    (ok \<longleftrightarrow> (\<exists>n. a \<le> n \<and> n < a + k \<and> dial n = None)) \<and>
    (\<not> ok \<and> (0 < k \<or> le \<noteq> None) \<longrightarrow> e \<noteq> None) \<and> (\<exists>m\<le>k. ev = replicate m (Slept brokerDialDelay))"
proof (induction k arbitrary: a le e ev)
  case (Suc k)
  show ?case
  proof (cases "dial a")
    case None
    then show ?thesis using Suc.prems by (auto intro!: exI[of _ a])
  next
    case (Some err)
    obtain e' ev' where r: "dial_attempts dial k (Suc a) (Some err) = (ok, e', ev')"
      and e: "e = e'" "ev = Slept brokerDialDelay # ev'"
      using Suc.prems Some by (auto split: prod.splits)
    note ih = Suc.IH[OF r]
    have "(\<exists>n. Suc a \<le> n \<and> n < Suc a + k \<and> dial n = None) \<longleftrightarrow> (\<exists>n. a \<le> n \<and> n < a + Suc k \<and> dial n = None)"
      using Some by (metis Suc_leD Suc_leI add_Suc_right add_Suc le_neq_implies_less option.distinct(1))
    moreover obtain m where "m \<le> k" "ev' = replicate m (Slept brokerDialDelay)" using ih by blast
    ultimately show ?thesis using ih e by (auto intro!: exI[of _ "Suc m"])
  qed
qed auto

text \<open>
  \<open>unwound\<close> runs the events over the stack of what is open: a release must be of the resource
  acquired last.
\<close>

fun unwound :: "boot_event list \<Rightarrow> resource list \<Rightarrow> resource list option" where
  "unwound [] st = Some st"
| "unwound (Acquired c # ev) st = unwound ev (c # st)"
| "unwound (Released c # ev) st =
     (case st of [] \<Rightarrow> None | d # st' \<Rightarrow> if d = c then unwound ev st' else None)"
| "unwound (_ # ev) st = unwound ev st"

lemma unwound_append: "unwound (ev @ ev') st = Option.bind (unwound ev st) (unwound ev')"
  by (induction ev st rule: unwound.induct) (auto split: list.splits)

lemma unwound_sleeps [simp]: "unwound (replicate m (Slept d)) st = Some st"
  by (induction m) simp_all

definition without_redis :: "boot_event list \<Rightarrow> boot_event list" where
  "without_redis = filter (\<lambda>e. e \<noteq> Acquired RedisClient \<and> e \<noteq> Released RedisClient)"

lemma without_redis_simps [simp]:
  "without_redis [] = []"
  "without_redis (ev @ ev') = without_redis ev @ without_redis ev'"
  "without_redis (e # ev) = (if e = Acquired RedisClient \<or> e = Released RedisClient then [] else [e]) @ without_redis ev"
  by (simp_all add: without_redis_def)

lemma dialWithRetry_spec:
  assumes "dialWithRetry dial c = (r, ev)"
  shows "(r = None \<longleftrightarrow> (\<exists>n. 1 \<le> n \<and> n \<le> 15 \<and> dial n = None)) \<and>
    (\<exists>m\<le>15. ev = replicate m (Slept (2 * Second)) @ (if r = None then [Acquired c] else []))"
proof -
  obtain ok e ev' where d: "dial_attempts dial brokerDialAttempts 1 None = (ok, e, ev')" by (metis surj_pair)
  note s = dial_attempts_spec[OF d]
  have range: "(\<exists>n. 1 \<le> n \<and> n < 1 + brokerDialAttempts \<and> dial n = None) \<longleftrightarrow> (\<exists>n. 1 \<le> n \<and> n \<le> 15 \<and> dial n = None)"
    by (auto simp: brokerDialAttempts_def less_Suc_eq_le)
  obtain m where m: "m \<le> 15" "ev' = replicate m (Slept (2 * Second))"
    using s by (auto simp: brokerDialAttempts_def brokerDialDelay_def)
  have "ok \<or> e \<noteq> None" using s by (auto simp: brokerDialAttempts_def)
  then show ?thesis
    using assms d s m unfolding range by (auto simp: dialWithRetry_def split: bool.splits intro!: exI[of _ m])
qed





lemma dial_events:
  assumes "dialWithRetry dial c = (r, ev)" "c \<noteq> RedisClient"
  shows "without_redis ev = ev \<and> Served \<notin> set ev \<and>
    unwound ev st = Some (if r = None then c # st else st)"
proof -
  have "without_redis (replicate m (Slept d)) = replicate m (Slept d)" for m d by (induction m) simp_all
  then show ?thesis using dialWithRetry_spec[OF assms(1)] assms(2) by (auto simp: unwound_append)
qed
















text \<open>The notifier's \<^verbatim>\<open>run\<close>, with the two dials done.\<close>

lemma notifier_run_value:
  assumes "dialPublisherWithRetry ans = (r1, ev1)" "dialConsumerWithRetry ans = (r2, ev2)" "env ''BROKER_URL'' \<noteq> []"
  shows "notifier_run env ans cause =
    (case r1 of Some err \<Rightarrow> (Some (Errorf ''connect rabbitmq publisher'' err), ev1)
     | None \<Rightarrow>
         (case r2 of Some err \<Rightarrow> (Some (Errorf ''connect rabbitmq'' err), ev1 @ ev2 @ [Released PublisherConn])
          | None \<Rightarrow>
              (case ans ListenGrpc of
                 Some err \<Rightarrow> (Some (Errorf (''listen grpc '' @ getEnv env ''NOTIFIER_GRPC_PORT'' ''50051'') err),
                   ev1 @ ev2 @ [Released PublisherConn])
               | None \<Rightarrow> (waitForShutdown cause,
                   ev1 @ ev2 @ (Served # gracefulShutdown) @ [Released PublisherConn]))))"
  using assms by (auto simp: notifier_run_def after_def deferring_def split: option.splits)

text \<open>
  The notifier's \<^verbatim>\<open>run\<close>. It returns nil exactly if \<^verbatim>\<open>BROKER_URL\<close> is set, both dials
  succeed within fifteen attempts, the gRPC port can be opened and a signal ends the service; the
  end of the consumer makes it fail. It releases the consumer and then the publisher, with one
  exception: when the port cannot be opened the consumer's connection is left open.
\<close>

lemma notifier_run_unwinds:
  "(fst (notifier_run env ans cause) = None \<longleftrightarrow>
      env ''BROKER_URL'' \<noteq> [] \<and> (\<exists>n. 1 \<le> n \<and> n \<le> 15 \<and> ans (DialBroker n) = None) \<and>
      (\<exists>n. 1 \<le> n \<and> n \<le> 15 \<and> ans (DialConsumer n) = None) \<and> ans ListenGrpc = None \<and> cause = Signal) \<and>
   unwound (snd (notifier_run env ans cause)) [] =
     (if env ''BROKER_URL'' \<noteq> [] \<and> (\<exists>n. 1 \<le> n \<and> n \<le> 15 \<and> ans (DialBroker n) = None) \<and>
         (\<exists>n. 1 \<le> n \<and> n \<le> 15 \<and> ans (DialConsumer n) = None) \<and> ans ListenGrpc \<noteq> None
      then None else Some [])"
proof (cases "env ''BROKER_URL'' = []")
  case True
  then show ?thesis by (simp add: notifier_run_def)
next
  case False
  obtain r1 ev1 where p: "dialPublisherWithRetry ans = (r1, ev1)" by fastforce
  obtain r2 ev2 where c: "dialConsumerWithRetry ans = (r2, ev2)" by fastforce
  note run = notifier_run_value[where env = env and cause = cause, OF p c False]
  note p' = p[unfolded dialPublisherWithRetry_def] and c' = c[unfolded dialConsumerWithRetry_def]
  have P: "r1 = None \<longleftrightarrow> (\<exists>n. 1 \<le> n \<and> n \<le> 15 \<and> ans (DialBroker n) = None)"
    "unwound ev1 st = Some (if r1 = None then PublisherConn # st else st)" for st
    using dialWithRetry_spec[OF p'] dial_events[OF p'] by simp_all
  have C: "r2 = None \<longleftrightarrow> (\<exists>n. 1 \<le> n \<and> n \<le> 15 \<and> ans (DialConsumer n) = None)"
    "unwound ev2 st = Some (if r2 = None then ConsumerConn # st else st)" for st
    using dialWithRetry_spec[OF c'] dial_events[OF c'] by simp_all
  show ?thesis
    unfolding run P(1)[symmetric] C(1)[symmetric] using False P(2) C(2)
    by (cases r1; cases r2; cases "ans ListenGrpc"; cases cause)
      (simp_all add: unwound_append gracefulShutdown_def waitForShutdown_def)
qed

end
