(* ===== verification/Wiring.thy ===== *)
theory Wiring
  imports Startup Scanner HttpApi Replies
begin

text \<open>
  The wiring of \<^verbatim>\<open>cmd/server/main.go\<close>: \<^verbatim>\<open>setupServices\<close> builds every service from the resources
  \<^verbatim>\<open>run\<close> has acquired, \<^verbatim>\<open>newRouter\<close> and \<^verbatim>\<open>newServer\<close> put the HTTP API in front of them, and
  \<open>server_act\<close> is what the running server does, one activity at a time: a request served, a reply
  delivered, a run of the sweeper, a run of the scanner. \<^verbatim>\<open>time.ParseDuration\<close>, the HTTP client of
  the GitHub adapters (\<open>net\<close>), Redis, the broker and the notifier are parameters.
\<close>

section \<open>The services\<close>

record 'x appServices =
  svc_subscribe :: "'x world SubscribeUseCase"
  svc_confirm :: "'x world ConfirmUseCase"
  svc_unsubscribe :: "'x world UnsubscribeUseCase"
  svc_getSubs :: "'x world GetSubscriptionsUseCase"
  svc_scanner :: "'x world Scanner"
  svc_orchestrator :: "'x world Orchestrator"
  svc_sweeper :: "'x world TimeoutSweeper"
  svc_retrier :: "'x Retrier"

text \<open>The two constructors give clients with the token of the configuration.\<close>

definition NewRepoCheckerClient :: "'x http_client \<Rightarrow> string \<Rightarrow> 'x github_client" where
  "NewRepoCheckerClient net token = \<lparr>gc_httpClient = net, gc_token = token\<rparr>"

definition NewReleaseFetcherClient :: "'x http_client \<Rightarrow> string \<Rightarrow> 'x github_client" where
  "NewReleaseFetcherClient net token = \<lparr>gc_httpClient = net, gc_token = token\<rparr>"

definition setupServices ::
    "(string \<Rightarrow> goerr + int) \<Rightarrow> time_codec \<Rightarrow> 'x http_client \<Rightarrow> 'x redis_client option \<Rightarrow> 'x Publisher \<Rightarrow>
     (int \<Rightarrow> SendConfirmationRequest \<Rightarrow> 'x \<Rightarrow> goerr option \<times> 'x) \<Rightarrow> Config \<Rightarrow> 'x appServices" where
  "setupServices parse tc net redisClient publisher notifierClient cfg =
     (let repoCheckerClient = NewRepoCheckerClient net (cfg_GitHubToken cfg);
          releaseFetcherClient = NewReleaseFetcherClient net (cfg_GitHubToken cfg);
          checker = wired_checker redisClient repoCheckerClient;
          retrier = NewRetrier notifierClient;
          oc = wired publisher retrier (cfg_BaseURL cfg)
      in \<lparr>svc_subscribe = wired_subscribe publisher retrier (cfg_BaseURL cfg) checker,
          svc_confirm = wired_confirm, svc_unsubscribe = wired_unsubscribe, svc_getSubs = wired_list,
          svc_scanner = wired_scanner publisher (cfg_BaseURL cfg) (scanInterval parse cfg) tc redisClient
            releaseFetcherClient,
          svc_orchestrator = oc,
          svc_sweeper = NewTimeoutSweeper oc (sagaTimeout parse cfg) (sweepInterval parse cfg) time_Now ctx_Err,
          svc_retrier = retrier\<rparr>)"

section \<open>The HTTP server\<close>

definition NewHandler :: "'x appServices \<Rightarrow> 'x world Handler" where
  "NewHandler svc =
     \<lparr>h_subscriber = Subscribe (svc_subscribe svc), h_confirmer = Confirm_usecase (svc_confirm svc),
      h_unsubscriber = Unsubscribe_usecase (svc_unsubscribe svc),
      h_subscriptionLister = GetSubscriptions_usecase (svc_getSubs svc)\<rparr>"

record 'h http_Server =
  hs_Addr :: string
  hs_Handler :: 'h
  hs_ReadTimeout :: int
  hs_WriteTimeout :: int
  hs_IdleTimeout :: int

definition newServer :: "string \<Rightarrow> 'h \<Rightarrow> 'h http_Server" where
  "newServer port handler =
     \<lparr>hs_Addr = '':'' @ port, hs_Handler = handler, hs_ReadTimeout = 15 * Second,
      hs_WriteTimeout = 15 * Second, hs_IdleTimeout = 60 * Second\<rparr>"

section \<open>The running server\<close>

datatype 'x activity =
    Serve api_request          \<comment> \<open>a request on the router\<close>
  | Settle "'x delivery"       \<comment> \<open>a delivery to the replies consumer\<close>
  | Sweep
  | Scan

definition NewRepliesConsumer :: "'x appServices \<Rightarrow> 'x world RepliesConsumer" where
  "NewRepliesConsumer svc =
     \<lparr>rc_HandleSent = HandleSent (svc_orchestrator svc), rc_HandleFailed = HandleFailed (svc_orchestrator svc),
      rc_tag = ''app.saga''\<rparr>"

fun server_act ::
    "(string \<Rightarrow> bool) \<Rightarrow> 'x world api_handler \<Rightarrow> string option \<Rightarrow> 'x appServices \<Rightarrow> 'x activity \<Rightarrow>
     'x world \<Rightarrow> 'x world" where
  "server_act uuid_ok prom page svc (Serve rq) w =
     snd (newRouter uuid_ok prom page (NewHandler svc) rq w)"
| "server_act uuid_ok prom page svc (Settle d) w = Replies_handle (NewRepliesConsumer svc) d w"
| "server_act uuid_ok prom page svc Sweep w = sweep (svc_sweeper svc) w"
| "server_act uuid_ok prom page svc Scan w = scan (svc_scanner svc) w"

definition server_acts ::
    "(string \<Rightarrow> bool) \<Rightarrow> 'x world api_handler \<Rightarrow> string option \<Rightarrow> 'x appServices \<Rightarrow> 'x activity list \<Rightarrow>
     'x world \<Rightarrow> 'x world" where
  "server_acts uuid_ok prom page svc = fold (server_act uuid_ok prom page svc)"

lemma NewHandler_setup:
  "NewHandler (setupServices parse tc net redis p nc cfg) =
     wired_handler p (NewRetrier nc) (cfg_BaseURL cfg) redis (NewRepoCheckerClient net (cfg_GitHubToken cfg))"
  by (simp add: NewHandler_def setupServices_def wired_handler_def Let_def)

lemma NewRepliesConsumer_setup:
  "NewRepliesConsumer (setupServices parse tc net redis p nc cfg) = wired_replies p (NewRetrier nc) (cfg_BaseURL cfg)"
  by (simp add: NewRepliesConsumer_def setupServices_def wired_replies_def Let_def)

text \<open>Every duration the server works with is the configured one or its default.\<close>

lemma setup_intervals:
  "sn_interval (svc_scanner (setupServices parse tc net redis p nc cfg)) = scanInterval parse cfg"
  "sw_timeout (svc_sweeper (setupServices parse tc net redis p nc cfg)) = sagaTimeout parse cfg"
  "sw_interval (svc_sweeper (setupServices parse tc net redis p nc cfg)) = sweepInterval parse cfg"
  by (simp_all add: setupServices_def NewTimeoutSweeper_def Let_def)

end
