(* ===== verification/System.thy ===== *)
theory System
  imports Refinement Wiring
begin

text \<open>
  The server as a whole, as \<^verbatim>\<open>setupServices\<close> wires it: every activity of the running process, in
  any order and any number, moves the tables by events of the abstract service, and each activity
  only by events of its own kind. The properties at the end are those of the service, carried
  over to the tables.
\<close>

section \<open>Which activity may cause which event\<close>

definition request_events :: "api_request \<Rightarrow> event set" where
  "request_events rq =
     (if (in_Method rq, in_FullPath rq) = (''POST'', ''/api/subscribe'') then
        (case unmarshal_strings [''email'', ''repo''] (in_Body rq) of
           Inl err \<Rightarrow> {} | Inr vs \<Rightarrow> subscribe_events (nth_or_empty vs 0))
      else if (in_Method rq, in_FullPath rq) = (''GET'', ''/api/confirm/:token'') then range Confirmed
      else if (in_Method rq, in_FullPath rq) = (''GET'', ''/api/unsubscribe/:token'') then range Removed
      else {})"

definition reply_events :: "'x delivery \<Rightarrow> event set" where
  "reply_events d =
     (if dl_RoutingKey d = RoutingKeyEventConfirmationSent then
        (case unmarshal_sent (dl_Body d) of Inl err \<Rightarrow> {} | Inr ev \<Rightarrow> {Settled (cs_SagaID ev) SagaStateCompleted})
      else if dl_RoutingKey d = RoutingKeyEventConfirmationFailed then
        (case unmarshal_failed (dl_Body d) of Inl err \<Rightarrow> {} | Inr ev \<Rightarrow> compensation_events (cf_SagaID ev))
      else {})"

fun activity_events :: "'x activity \<Rightarrow> event set" where
  "activity_events (Serve rq) = request_events rq"
| "activity_events (Settle d) = reply_events d"
| "activity_events Sweep = sweep_events"
| "activity_events Scan = {}"

section \<open>Every activity obeys\<close>

text \<open>What is relied on of \<^verbatim>\<open>promhttp.Handler()\<close>: it reads metrics and leaves the database alone.\<close>

definition reads_only :: "'x world api_handler \<Rightarrow> bool" where
  "reads_only prom \<longleftrightarrow> (\<forall>rq w. io_only w (snd (prom rq w)))"

lemma obeys_route:
  assumes "reads_only prom"
  shows "obeys E (request_events rq) w
    (snd (dispatch_route (routes uuid_ok prom page (wired_handler p r u redis gh)) rq w))"
proof (rule obedient.kept_route, unfold wired_handler_def Handler.simps)
  fix vs repo and v :: "'a world"
  assume "in_Method rq = ''POST''" "in_FullPath rq = ''/api/subscribe''"
    "unmarshal_strings [''email'', ''repo''] (in_Body rq) = Inr vs"
  then have "request_events rq = subscribe_events (nth_or_empty vs 0)" by (simp add: request_events_def)
  then show "obeys E (request_events rq) v
      (snd (Subscribe (wired_subscribe p r u (wired_checker redis gh)) (nth_or_empty vs 0) repo v))"
    using subscribes.kept_Subscribe by simp
next
  fix token and v :: "'a world"
  assume "in_Method rq = ''GET''" "in_FullPath rq = ''/api/confirm/:token''"
  then have "request_events rq = range Confirmed" by (simp add: request_events_def)
  then show "obeys E (request_events rq) v (snd (Confirm_usecase wired_confirm token v))"
    by (intro obedient.kept_Confirm_usecase)
      (auto simp: wired_confirm_def GetByConfirmToken_def obeys_one_row intro!: obeys_Confirm)
next
  fix token and v :: "'a world"
  assume "in_Method rq = ''GET''" "in_FullPath rq = ''/api/unsubscribe/:token''"
  then have "request_events rq = range Removed" by (simp add: request_events_def)
  then show "obeys E (request_events rq) v (snd (Unsubscribe_usecase wired_unsubscribe token v))"
    by (intro obedient.kept_Unsubscribe_usecase)
      (auto simp: wired_unsubscribe_def GetByUnsubscribeToken_def obeys_one_row intro!: obeys_Delete)
next
  fix email and v :: "'a world"
  show "obeys E (request_events rq) v (snd (GetSubscriptions_usecase wired_list email v))"
    by (rule obedient.kept_GetSubscriptions_usecase) (simp add: wired_list_def GetByEmail_def obeys_many_rows)
  show "obeys E (request_events rq) v (snd (prom rq v))"
    by (rule obeys_io) (use assms in \<open>simp add: reads_only_def\<close>)
qed

lemma obeys_Serve:
  assumes "reads_only prom"
  shows "obeys E (request_events rq) w
    (snd (newRouter uuid_ok prom page (wired_handler p r u redis gh) rq w))"
proof (rule obedient.kept_router)
  fix i and v :: "'a world"
  have "request_events (rq\<lparr>in_ctxRequestID := i\<rparr>) = request_events rq" by (simp add: request_events_def)
  then show "obeys E (request_events rq) v (snd (dispatch_route
      (routes uuid_ok prom page (wired_handler p r u redis gh)) (rq\<lparr>in_ctxRequestID := i\<rparr>) v))"
    using obeys_route[OF assms, of E "rq\<lparr>in_ctxRequestID := i\<rparr>"] by simp
qed

lemma obeys_Settle:
  fixes w :: "'x world"
  shows "obeys E (reply_events d) w (Replies_handle (wired_replies p r u) d w)"
proof (rule obedient.kept_Replies_handle)
  fix i
  assume "dl_RoutingKey d = RoutingKeyEventConfirmationSent" "unmarshal_sent (dl_Body d) = Inr \<lparr>cs_SagaID = i\<rparr>"
  then have "Settled i SagaStateCompleted \<in> reply_events d" by (simp add: reply_events_def)
  then have "obeys E (reply_events d) w (snd (MarkCompleted i w))"
    by (simp add: MarkCompleted_def obeys_mark SagaState_distinct)
  then show "obeys E (reply_events d) w (snd (rc_HandleSent (wired_replies p r u) i w))"
    by (auto simp: wired_replies_def HandleSent_def pg_sagas_def split: prod.splits option.splits)
next
  fix i reason
  assume "dl_RoutingKey d = RoutingKeyEventConfirmationFailed"
    "unmarshal_failed (dl_Body d) = Inr \<lparr>cf_SagaID = i, cf_Reason = reason\<rparr>"
  then have "reply_events d = compensation_events i"
    by (simp add: reply_events_def RoutingKeyEventConfirmationFailed_def RoutingKeyEventConfirmationSent_def)
  then show "obeys E (reply_events d) w (snd (rc_HandleFailed (wired_replies p r u) i reason w))"
    using compensates.kept_HandleFailed by (simp add: wired_replies_def)
qed (rule obedient.kept_settled)+

lemma obeys_act:
  assumes "reads_only prom"
  shows "obeys E (activity_events a) w
    (server_act uuid_ok prom page (setupServices parse tc net redis p nc cfg) a w)"
proof (cases a)
  case (Serve rq)
  then show ?thesis using obeys_Serve[OF assms] by (simp add: NewHandler_setup)
next
  case (Settle d)
  then show ?thesis using obeys_Settle by (simp add: NewRepliesConsumer_setup)
next
  case Sweep
  then show ?thesis using sweeps.kept_sweep by (simp add: setupServices_def Let_def)
next
  case Scan
  then show ?thesis using scans.kept_scan by (simp add: setupServices_def Let_def)
qed

lemma obeys_acts:
  assumes "reads_only prom"
  shows "obeys E (\<Union>a\<in>set as. activity_events a) w
    (server_acts uuid_ok prom page (setupServices parse tc net redis p nc cfg) as w)"
  unfolding server_acts_def
proof (rule obedient.kept_fold)
  fix a and v :: "'a world" assume "a \<in> set as"
  then show "obeys E (\<Union>a\<in>set as. activity_events a) v
      (server_act uuid_ok prom page (setupServices parse tc net redis p nc cfg) a v)"
    by (intro obeys_mono[OF obeys_act[OF assms]]) blast
qed

section \<open>Properties of the running server\<close>

text \<open>
  C9 (type). Whatever activities the server runs, in whatever order, whatever its calls answer, and
  whatever other sessions that keep the schema's constraints do between any two statements, the
  tables stay well-formed: the keys are keys, every reference has its row, every saga state passes
  its check.
\<close>

theorem server_keeps_tables:
  fixes w :: "'x world"
  assumes "world_ok w" "reads_only prom"
  shows "world_ok (server_acts uuid_ok prom page (setupServices parse tc net redis p nc cfg) as w)"
  using obeys_acts[OF assms(2), of "{Disturbed}"] within_disturbed[OF assms(1)] assms(1)
  by (auto simp: obeys_def)

text \<open>
  C1 (refinement). The server implements the abstract service, for any sequence of activities, any
  failures and any interleaving with other sessions: the tables before and after are services
  related by events of the activities' own kinds and of the kinds the others keep to. So
  \<^verbatim>\<open>POST /api/subscribe\<close> accepts accounts of its own address only (or removes one again), the confirmation link only
  confirms, the unsubscribe link only removes, a reply settles its own saga (or removes an
  account), and listing, metrics, health and the scanner change nothing.
\<close>

theorem server_refines_service:
  fixes w :: "'x world"
  assumes "world_ok w" "within E w" "reads_only prom"
    and "server_acts uuid_ok prom page (setupServices parse tc net redis p nc cfg) as w = w'"
  shows "service_run (E \<union> (\<Union>a\<in>set as. activity_events a)) (service_of (db w)) (service_of (db w')) \<and>
    service_ok (service_of (db w'))"
proof -
  have "world_ok w' \<and> service_run (E \<union> (\<Union>a\<in>set as. activity_events a)) (service_of (db w)) (service_of (db w'))"
    using obeys_acts[OF assms(3), of E as w] assms(1,2,4) by (auto simp: obeys_def)
  then show ?thesis using world_service_ok[of w'] by blast
qed

text \<open>The activities that can confirm, and those that can remove.\<close>

fun confirms :: "'x activity \<Rightarrow> bool" where
  "confirms (Serve rq) = (in_Method rq = ''GET'' \<and> in_FullPath rq = ''/api/confirm/:token'')"
| "confirms _ = False"

fun removes :: "'x activity \<Rightarrow> bool" where
  "removes (Serve rq) = (in_Method rq = ''POST'' \<and> in_FullPath rq = ''/api/subscribe'' \<or>
     in_Method rq = ''GET'' \<and> in_FullPath rq = ''/api/unsubscribe/:token'')"
| "removes (Settle d) = (dl_RoutingKey d = RoutingKeyEventConfirmationFailed)"
| "removes Sweep = True"
| "removes Scan = False"

lemma no_confirmation: "\<not> confirms a \<Longrightarrow> Confirmed i \<notin> activity_events a"
  by (cases a) (auto simp: request_events_def reply_events_def sweep_events_def saga_events_def
      subscribe_events_def compensation_events_def split: sum.splits)

lemma no_removal: "\<not> removes a \<Longrightarrow> Removed i \<notin> activity_events a"
  by (cases a) (auto simp: request_events_def reply_events_def split: sum.splits)

lemma no_disturbance: "Disturbed \<notin> activity_events a"
  by (cases a) (auto simp: request_events_def reply_events_def sweep_events_def saga_events_def
      subscribe_events_def compensation_events_def split: sum.splits)

lemma no_acceptance:
  assumes "\<And>rq. a = Serve rq \<Longrightarrow> in_FullPath rq \<noteq> ''/api/subscribe''"
  shows "Accepted i k c \<notin> activity_events a"
  using assms by (cases a) (auto simp: request_events_def reply_events_def sweep_events_def saga_events_def
      compensation_events_def split: sum.splits)

text \<open>
  C2 (safety). What the activities cannot do, the other sessions being servers too: as long as
  nobody requests a confirmation link, no account is confirmed that was not; as long as there is no
  unsubscribing, no sweep, no subscription attempt and no failed reply, no account is lost or
  altered, but for its confirmation; and as long as there is no subscription attempt, a settled
  saga keeps its outcome for as long as it exists.
\<close>

theorem activities_stay_apart:
  fixes w :: "'x world"
  assumes "world_ok w" "within E w" "Disturbed \<notin> E" "reads_only prom"
    and "server_acts uuid_ok prom page (setupServices parse tc net redis p nc cfg) as w = w'"
  shows "(\<forall>i a. range Confirmed \<inter> E = {} \<and> (\<forall>c\<in>set as. \<not> confirms c) \<and>
      sv_accounts (service_of (db w')) i = Some a \<and> ac_confirmed a \<longrightarrow>
      sv_accounts (service_of (db w)) i = Some a) \<and>
    (\<forall>i a. Removed i \<notin> E \<and> (\<forall>c\<in>set as. \<not> removes c) \<and>
      sv_accounts (service_of (db w)) i = Some a \<longrightarrow>
      (\<exists>b. sv_accounts (service_of (db w')) i = Some b \<and> (b = a \<or> b = a\<lparr>ac_confirmed := True\<rparr>))) \<and>
    (\<forall>k j. (\<forall>i c. Accepted i k c \<notin> E) \<and> (\<forall>rq. Serve rq \<in> set as \<longrightarrow> in_FullPath rq \<noteq> ''/api/subscribe'') \<and>
      sv_jobs (service_of (db w)) k = Some j \<and> jb_phase j \<noteq> Open \<longrightarrow>
      sv_jobs (service_of (db w')) k \<in> {Some j, None})"
proof -
  let ?F = "E \<union> (\<Union>a\<in>set as. activity_events a)"
  have run: "service_run ?F (service_of (db w)) (service_of (db w'))"
    using obeys_acts[OF assms(4), of E as w] assms(1,2,5) by (auto simp: obeys_def)
  have calm: "Disturbed \<notin> ?F" using assms(3) no_disturbance by blast
  show ?thesis
  proof (intro conjI allI impI; elim conjE)
    fix i a
    assume h: "range Confirmed \<inter> E = {}" "\<forall>c\<in>set as. \<not> confirms c"
      "sv_accounts (service_of (db w')) i = Some a" "ac_confirmed a"
    then have "Confirmed l \<notin> ?F" for l using no_confirmation by blast
    then show "sv_accounts (service_of (db w)) i = Some a" using run_confirmed[OF run calm] h(3,4) by blast
  next
    fix i a
    assume h: "Removed i \<notin> E" "\<forall>c\<in>set as. \<not> removes c" "sv_accounts (service_of (db w)) i = Some a"
    then have "Removed i \<notin> ?F" using no_removal by blast
    then show "\<exists>b. sv_accounts (service_of (db w')) i = Some b \<and> (b = a \<or> b = a\<lparr>ac_confirmed := True\<rparr>)"
      using run_not_removed[OF run calm _ h(3)] by (simp add: kept_account_def)
  next
    fix k j
    assume h: "\<forall>i c. Accepted i k c \<notin> E" "\<forall>rq. Serve rq \<in> set as \<longrightarrow> in_FullPath rq \<noteq> ''/api/subscribe''"
      "sv_jobs (service_of (db w)) k = Some j" "jb_phase j \<noteq> Open"
    have "Accepted i k c \<notin> activity_events a" if "a \<in> set as" for a i c
      by (rule no_acceptance) (use h(2) that in auto)
    then have "Accepted i k c \<notin> ?F" for i c using h(1) by blast
    then show "sv_jobs (service_of (db w')) k \<in> {Some j, None}"
      using run_closed[OF run calm _ h(3,4)] by simp
  qed
qed

section \<open>A concrete run\<close>

definition demo_config :: Config where
  "demo_config = config_Load (\<lambda>k. if k = ''BASE_URL'' then ''http://h'' else [])"

definition demo_services :: "nat appServices" where
  "demo_services = setupServices (\<lambda>s. Inl (Opaque ''bad duration'')) \<lparr>tc_parse = (\<lambda>s. None), tc_format = (\<lambda>t. [])\<rparr>
     (gc_httpClient one_repo_github) None (demo_publisher True)
     (\<lambda>t req x. (None, Suc x)) demo_config"

definition demo_prom :: "nat world api_handler" where
  "demo_prom rq w = (reply 200 no_body, w)"

definition demo_run :: "nat activity list \<Rightarrow> nat world" where
  "demo_run as = server_acts (\<lambda>s. s = ''ct'') demo_prom None demo_services as demo_start"

definition demo_link :: "nat activity" where
  "demo_link = Serve (demo_request ''GET'' ''/api/confirm/:token'' None)"

definition demo_mailed :: "nat activity" where
  "demo_mailed = Settle \<lparr>dl_RoutingKey = RoutingKeyEventConfirmationSent,
     dl_Body = marshal_sent \<lparr>cs_SagaID = ''g1''\<rparr>, dl_Ack = (\<lambda>x. x), dl_Nack = (\<lambda>q x. x)\<rparr>"

lemmas demo_run_unfolded = demo_run_def[unfolded demo_services_def, symmetric]

lemma demo_prom_reads [simp]: "reads_only demo_prom"
  by (simp add: reads_only_def demo_prom_def)

lemma demo_run_value:
  "sv_jobs (service_of (db (demo_run [demo_mailed, demo_link]))) ''g1'' =
     Some \<lparr>jb_account = ''s1'', jb_phase = Closed SagaStateCompleted\<rparr>"
  "map_option ac_confirmed (sv_accounts (service_of (db (demo_run [demo_mailed, demo_link]))) ''s1'') = Some True"
  "map_option ac_confirmed (sv_accounts (service_of (db (demo_run [demo_mailed]))) ''s1'') = Some False"
  by code_simp+

theorem server_keeps_tables_witness: "world_ok (demo_run [demo_mailed, Sweep, demo_link])"
  unfolding demo_run_def demo_services_def by (rule server_keeps_tables[OF demo_start_ok(1) demo_prom_reads])

theorem server_refines_service_witness:
  "service_run (insert (Settled ''g1'' SagaStateCompleted) (range Confirmed)) (service_of (db demo_start))
     (service_of (db (demo_run [demo_mailed, demo_link]))) \<and>
   service_of (db (demo_run [demo_mailed, demo_link])) \<noteq> service_of (db demo_start)"
proof -
  have ev: "{} \<union> (\<Union>a\<in>set [demo_mailed, demo_link]. activity_events a) =
      insert (Settled ''g1'' SagaStateCompleted) (range Confirmed)"
    by (simp add: demo_mailed_def demo_link_def reply_events_def request_events_def demo_request_def)
  have "sv_jobs (service_of (db demo_start)) ''g1'' = Some \<lparr>jb_account = ''s1'', jb_phase = Open\<rparr>"
    using demo_start_views(1) by (simp add: service_at job_of_def phase_of_def demo_saga_def)
  then have "service_of (db (demo_run [demo_mailed, demo_link])) \<noteq> service_of (db demo_start)"
    using demo_run_value(1) by auto
  then show ?thesis
    using server_refines_service[OF demo_start_ok(1) quiet_within[OF demo_start_ok(2)] demo_prom_reads
        demo_run_unfolded[of "[demo_mailed, demo_link]"], unfolded ev] by blast
qed

theorem activities_stay_apart_witness:
  "(\<exists>a b. sv_accounts (service_of (db demo_start)) ''s1'' = Some a \<and> \<not> ac_confirmed a \<and>
     sv_accounts (service_of (db (demo_run [demo_mailed, demo_link]))) ''s1'' = Some b \<and> b = a\<lparr>ac_confirmed := True\<rparr>)"
proof -
  obtain a where a: "sv_accounts (service_of (db demo_start)) ''s1'' = Some a" "\<not> ac_confirmed a"
    by (rule that[of "the (sv_accounts (service_of (db demo_start)) ''s1'')"]; code_simp)
  have calm: "\<forall>c\<in>set [demo_mailed, demo_link]. \<not> removes c"
    by (simp add: demo_mailed_def demo_link_def demo_request_def RoutingKeyEventConfirmationFailed_def
        RoutingKeyEventConfirmationSent_def)
  obtain b where b: "sv_accounts (service_of (db (demo_run [demo_mailed, demo_link]))) ''s1'' = Some b"
    "b = a \<or> b = a\<lparr>ac_confirmed := True\<rparr>"
    using activities_stay_apart[OF demo_start_ok(1) quiet_within[OF demo_start_ok(2)] _ demo_prom_reads
        demo_run_unfolded[of "[demo_mailed, demo_link]"], THEN conjunct2, THEN conjunct1, rule_format, of "''s1''" a] calm a(1)
    by auto
  have "ac_confirmed b" using demo_run_value(2) b(1) by simp
  then show ?thesis using a b by auto
qed

end
