(* ===== verification/Migration.thy ===== *)
theory Migration
  imports Sql
begin

text \<open>
  The data statements of the second migration. Up, \<^verbatim>\<open>000002_split_repos.up.sql\<close> moves the repository's
  name and last seen tag out of the subscriptions into a row per repository; down, it writes them
  back. \<open>le\<close> is the order of the database's collation, \<open>gen\<close> the ids \<^verbatim>\<open>gen_random_uuid()\<close> gives.
\<close>

section \<open>The tables before\<close>

record old_row =
  ol_id :: string
  ol_email :: string
  ol_repo :: string
  ol_confirmed :: bool
  ol_confirm_token :: string
  ol_unsubscribe_token :: string
  ol_last_seen_tag :: "string option"
  ol_created_at :: int

definition old_ok :: "old_row list \<Rightarrow> bool" where
  "old_ok rows \<longleftrightarrow> distinct (map ol_id rows) \<and> distinct (map ol_confirm_token rows) \<and>
     distinct (map ol_unsubscribe_token rows) \<and> distinct (map (\<lambda>r. (ol_email r, ol_repo r)) rows)"

section \<open>Up\<close>

text \<open>\<^verbatim>\<open>MAX\<close> over a column of text: NULLs are ignored, and it is NULL for NULLs only.\<close>

fun max_text :: "(string \<Rightarrow> string \<Rightarrow> bool) \<Rightarrow> string option list \<Rightarrow> string option" where
  "max_text le [] = None"
| "max_text le (None # xs) = max_text le xs"
| "max_text le (Some s # xs) =
     (case max_text le xs of None \<Rightarrow> Some s | Some t \<Rightarrow> Some (if le t s then s else t))"

definition rows_of :: "string \<Rightarrow> old_row list \<Rightarrow> old_row list" where
  "rows_of n = filter (\<lambda>r. ol_repo r = n)"

definition insert_repositories ::
    "(string \<Rightarrow> string \<Rightarrow> bool) \<Rightarrow> (string \<Rightarrow> string) \<Rightarrow> old_row list \<Rightarrow> Repository list \<Rightarrow> Repository list" where
  "insert_repositories le gen rows qs =
     qs @ map (\<lambda>n. \<lparr>repo_ID = gen n, repo_FullName = n,
            repo_LastSeenTag = max_text le (map ol_last_seen_tag (rows_of n rows)),
            repo_CreatedAt = Min (set (map ol_created_at (rows_of n rows)))\<rparr>)
          (filter (\<lambda>n. n \<notin> repo_FullName ` set qs) (remdups (map ol_repo rows)))"

text \<open>\<^verbatim>\<open>repo_id\<close> is set from the row of the same name; \<^verbatim>\<open>SET NOT NULL\<close> fails if one is missing.\<close>

definition set_repo_id :: "Repository list \<Rightarrow> old_row \<Rightarrow> sub_row option" where
  "set_repo_id qs r =
     map_option (\<lambda>q. \<lparr>sr_id = ol_id r, sr_email = ol_email r, sr_repo_id = repo_ID q,
         sr_confirmed = ol_confirmed r, sr_confirm_token = ol_confirm_token r,
         sr_unsubscribe_token = ol_unsubscribe_token r, sr_created_at = ol_created_at r\<rparr>)
       (find (\<lambda>q. repo_FullName q = ol_repo r) qs)"

definition split_repos_data ::
    "(string \<Rightarrow> string \<Rightarrow> bool) \<Rightarrow> (string \<Rightarrow> string) \<Rightarrow> Repository list \<Rightarrow> old_row list \<Rightarrow> tables option" where
  "split_repos_data le gen qs rows =
     (let repos = insert_repositories le gen rows qs in
      map_option (\<lambda>subs. \<lparr>t_repositories = repos, t_subscriptions = subs, t_sagas = []\<rparr>)
        (those (map (set_repo_id repos) rows)))"

section \<open>Down\<close>

definition set_repo :: "Repository list \<Rightarrow> sub_row \<Rightarrow> old_row option" where
  "set_repo qs r =
     map_option (\<lambda>q. \<lparr>ol_id = sr_id r, ol_email = sr_email r, ol_repo = repo_FullName q,
         ol_confirmed = sr_confirmed r, ol_confirm_token = sr_confirm_token r,
         ol_unsubscribe_token = sr_unsubscribe_token r, ol_last_seen_tag = repo_LastSeenTag q,
         ol_created_at = sr_created_at r\<rparr>)
       (find (\<lambda>q. repo_ID q = sr_repo_id r) qs)"

definition merge_repos_data :: "tables \<Rightarrow> old_row list option" where
  "merge_repos_data d = those (map (set_repo (t_repositories d)) (t_subscriptions d))"

section \<open>Facts\<close>

lemma those_map: "(\<And>x. x \<in> set xs \<Longrightarrow> f x = Some (g x)) \<Longrightarrow> those (map f xs) = Some (map g xs)"
  by (induction xs) auto

text \<open>The row a repository gets, and what its subscriptions become.\<close>

definition repo_row ::
    "(string \<Rightarrow> string \<Rightarrow> bool) \<Rightarrow> (string \<Rightarrow> string) \<Rightarrow> old_row list \<Rightarrow> string \<Rightarrow> Repository" where
  "repo_row le gen rows n = \<lparr>repo_ID = gen n, repo_FullName = n,
     repo_LastSeenTag = max_text le (map ol_last_seen_tag (rows_of n rows)),
     repo_CreatedAt = Min (set (map ol_created_at (rows_of n rows)))\<rparr>"

lemma repo_row_sel [simp]: "repo_ID (repo_row le gen rows n) = gen n" "repo_FullName (repo_row le gen rows n) = n"
  "repo_LastSeenTag (repo_row le gen rows n) = max_text le (map ol_last_seen_tag (rows_of n rows))"
  by (simp_all add: repo_row_def)

definition new_row :: "(string \<Rightarrow> string) \<Rightarrow> old_row \<Rightarrow> sub_row" where
  "new_row gen r = \<lparr>sr_id = ol_id r, sr_email = ol_email r, sr_repo_id = gen (ol_repo r),
     sr_confirmed = ol_confirmed r, sr_confirm_token = ol_confirm_token r,
     sr_unsubscribe_token = ol_unsubscribe_token r, sr_created_at = ol_created_at r\<rparr>"

lemma insert_repositories_fresh:
  "insert_repositories le gen rows [] = map (repo_row le gen rows) (remdups (map ol_repo rows))"
  by (simp add: insert_repositories_def repo_row_def)

lemma find_by_name:
  assumes "n \<in> ol_repo ` set rows"
  shows "find (\<lambda>q. repo_FullName q = n) (insert_repositories le gen rows []) = Some (repo_row le gen rows n)"
  unfolding insert_repositories_fresh
  by (rule find_key_eq) (use assms in \<open>auto simp: comp_def\<close>)

lemma find_by_id:
  assumes "inj_on gen (ol_repo ` set rows)" "n \<in> ol_repo ` set rows"
  shows "find (\<lambda>q. repo_ID q = gen n) (insert_repositories le gen rows []) = Some (repo_row le gen rows n)"
  unfolding insert_repositories_fresh
  by (rule find_key_eq) (use assms in \<open>auto simp: comp_def distinct_map\<close>)

lemma split_repos_value:
  "split_repos_data le gen [] rows = Some \<lparr>t_repositories = insert_repositories le gen rows [],
     t_subscriptions = map (new_row gen) rows, t_sagas = []\<rparr>"
proof -
  have "those (map (set_repo_id (insert_repositories le gen rows [])) rows) = Some (map (new_row gen) rows)"
    by (rule those_map) (simp add: set_repo_id_def find_by_name new_row_def)
  then show ?thesis by (simp add: split_repos_data_def Let_def)
qed

lemma split_repos_ok:
  assumes "old_ok rows" "inj_on gen (ol_repo ` set rows)"
  shows "db_ok \<lparr>t_repositories = insert_repositories le gen rows [], t_subscriptions = map (new_row gen) rows, t_sagas = []\<rparr>"
proof -
  have "map f (map (new_row gen) rows) = map (f \<circ> new_row gen) rows" for f :: "sub_row \<Rightarrow> string" by simp
  then show ?thesis
    using assms unfolding db_ok_def old_ok_def insert_repositories_fresh
    by (auto simp: comp_def distinct_map new_row_def image_image)
qed

text \<open>
  C22 (roundtrip). The second migration on a database that keeps the constraints of the first, with
  pairwise different generated ids: up gives well-formed tables in which every subscription is
  listed under its old repository; down gives back every row as it was, except that the last
  seen tag of a row has become the textual maximum over the rows of its repository. So the round
  trip is exact if and only if every repository's rows had that tag.
\<close>

theorem split_repos_round_trip:
  assumes "old_ok rows" "inj_on gen (ol_repo ` set rows)"
  shows "\<exists>d. split_repos_data le gen [] rows = Some d \<and> db_ok d \<and>
    map (\<lambda>r. map_option sub_Repo (join_row d r)) (t_subscriptions d) = map (\<lambda>r. Some (ol_repo r)) rows \<and>
    merge_repos_data d = Some (map (\<lambda>r. r\<lparr>ol_last_seen_tag :=
      max_text le (map ol_last_seen_tag (rows_of (ol_repo r) rows))\<rparr>) rows) \<and>
    (merge_repos_data d = Some rows \<longleftrightarrow>
      (\<forall>r\<in>set rows. ol_last_seen_tag r = max_text le (map ol_last_seen_tag (rows_of (ol_repo r) rows))))"
proof -
  let ?d = "\<lparr>t_repositories = insert_repositories le gen rows [], t_subscriptions = map (new_row gen) rows, t_sagas = []\<rparr>"
  let ?down = "\<lambda>r. r\<lparr>ol_last_seen_tag := max_text le (map ol_last_seen_tag (rows_of (ol_repo r) rows))\<rparr>"
  note find = find_by_id[OF assms(2), of _ le]
  have merge: "merge_repos_data ?d = Some (map ?down rows)"
  proof -
    have "those (map (set_repo (t_repositories ?d) \<circ> new_row gen) rows) = Some (map ?down rows)"
      by (rule those_map) (simp add: set_repo_def new_row_def find)
    then show ?thesis by (simp add: merge_repos_data_def)
  qed
  have join: "map (\<lambda>r. map_option sub_Repo (join_row ?d r)) (t_subscriptions ?d) = map (\<lambda>r. Some (ol_repo r)) rows"
    by (simp add: join_row_def new_row_def find)
  have same_tag: "?down r = r \<longleftrightarrow> ol_last_seen_tag r = max_text le (map ol_last_seen_tag (rows_of (ol_repo r) rows))" for r
    by (cases r) auto
  have "map ?down rows = map id rows \<longleftrightarrow> (\<forall>r\<in>set rows. ?down r = id r)" by (rule map_eq_conv)
  then have "map ?down rows = rows \<longleftrightarrow>
      (\<forall>r\<in>set rows. ol_last_seen_tag r = max_text le (map ol_last_seen_tag (rows_of (ol_repo r) rows)))"
    unfolding list.map_id id_apply same_tag .
  then show ?thesis
    using split_repos_value[of le gen rows] split_repos_ok[OF assms, of le] merge join
    by (intro exI[of _ ?d]) auto
qed

section \<open>A concrete database\<close>

text \<open>The order of bytes, as in the C collation.\<close>

fun bytes_le :: "string \<Rightarrow> string \<Rightarrow> bool" where
  "bytes_le [] t = True"
| "bytes_le (a # s) [] = False"
| "bytes_le (a # s) (b # t) =
     ((of_char a :: nat) < of_char b \<or> a = b \<and> bytes_le s t)"

definition old_sub :: "string \<Rightarrow> string \<Rightarrow> string option \<Rightarrow> old_row" where
  "old_sub i repo tag = \<lparr>ol_id = i, ol_email = i @ ''@b.co'', ol_repo = repo, ol_confirmed = True,
     ol_confirm_token = ''c'' @ i, ol_unsubscribe_token = ''u'' @ i, ol_last_seen_tag = tag, ol_created_at = 0\<rparr>"

definition old_rows :: "old_row list" where
  "old_rows = [old_sub ''x'' ''golang/go'' (Some ''v1.9.0''), old_sub ''y'' ''golang/go'' (Some ''v1.10.0''),
     old_sub ''z'' ''a/b'' None]"

text \<open>Two subscribers of one repository have seen v1.9.0 and the newer v1.10.0: the tag that is kept is v1.9.0.\<close>

theorem split_repos_round_trip_witness:
  "\<exists>d. split_repos_data bytes_le (\<lambda>n. n) [] old_rows = Some d \<and> db_ok d \<and>
     merge_repos_data d = Some [old_sub ''x'' ''golang/go'' (Some ''v1.9.0''),
       old_sub ''y'' ''golang/go'' (Some ''v1.9.0''), old_sub ''z'' ''a/b'' None]"
proof -
  have "old_ok old_rows" by (simp add: old_ok_def old_rows_def old_sub_def)
  from split_repos_round_trip[OF this, of "\<lambda>n. n" bytes_le] show ?thesis
    by (auto simp: old_rows_def old_sub_def rows_of_def)
qed

end
