(* ===== verification/NotifierMain.thy ===== *)
theory NotifierMain
  imports Wiring ConsumerTheorems
begin

text \<open>
  The wiring of \<^verbatim>\<open>cmd/notifier/main.go\<close>: what \<^verbatim>\<open>run\<close> builds from its environment, the operational
  HTTP endpoints of its \<^verbatim>\<open>newRouter\<close>, and \<open>notifier_act\<close>, one activity of the running notifier at a time:
  a delivery of the consumer, a call of the gRPC service, a request to the HTTP server. The cache
  of claimed sagas is shared by the first two. The program runs calls and deliveries concurrently;
  how concurrent calls interleave on the cache is \<open>server_step\<close> of \<open>MailerTheorems\<close>.
\<close>

section \<open>The operational endpoints\<close>

text \<open>\<^verbatim>\<open>consumerAlive\<close> looks at a channel that other goroutines close: it is read from the outside state.\<close>

definition notifier_routes ::
    "('x \<Rightarrow> bool) \<Rightarrow> ('x, 'm) proc_scheme api_handler \<Rightarrow>
     ((string \<times> string) \<times> ('x, 'm) proc_scheme api_handler) list" where
  "notifier_routes consumerAlive prom =
     [((''GET'', ''/health''), \<lambda>rq w.
         (if \<not> consumerAlive (outside w) then (reply 503 (health_status ''consumer stopped''), w)
          else (reply 200 (health_status ''ok''), w))),
      ((''GET'', ''/metrics''), prom)]"

definition notifier_newRouter ::
    "('x \<Rightarrow> bool) \<Rightarrow> ('x, 'm) proc_scheme api_handler \<Rightarrow> ('x, 'm) proc_scheme api_handler" where
  "notifier_newRouter consumerAlive prom =
     RequestID (Logger (Prometheus (dispatch_route (notifier_routes consumerAlive prom))))"

text \<open>A probe is answered 200 exactly while the consumer runs.\<close>

lemma notifier_health:
  assumes "in_Method rq = ''GET''" "in_FullPath rq = ''/health''"
  shows "out_Status (fst (notifier_newRouter alive prom rq w)) = (if alive (outside w) then 200 else 503)"
  using assms
  by (simp add: notifier_newRouter_def RequestID_def Logger_def Prometheus_def WithRequestID_def dispatch_route_def
      notifier_routes_def reply_def time_Now_def uuid_New_def Let_def split_def)

section \<open>The services\<close>

record 'x notifier =
  nt_consumer :: "'x node Consumer"
  nt_grpc :: "SendConfirmationRequest \<Rightarrow> 'x node \<Rightarrow> goerr option \<times> 'x node"
  nt_http :: "'x node api_handler http_Server"

definition notifier_services ::
    "(string \<Rightarrow> string) \<Rightarrow> 'x mail_client \<Rightarrow> Renderer \<Rightarrow> (SendConfirmationRequest \<Rightarrow> string option) \<Rightarrow>
     'x Publisher \<Rightarrow> ('x \<Rightarrow> bool) \<Rightarrow> 'x node api_handler \<Rightarrow> 'x notifier" where
  "notifier_services env net renderer validate replies consumerAlive prom =
     (let port = getEnv env ''PORT'' ''8081'';
          resendKey = env ''RESEND_API_KEY'';
          resendURL = getEnv env ''RESEND_API_URL'' ''https://api.resend.com/emails'';
          emailFrom = env ''EMAIL_FROM'';
          sender = NewSender net resendKey emailFrom resendURL renderer
      in \<lparr>nt_consumer = wired_consumer sender replies,
          nt_grpc = notifier_grpc validate sender,
          nt_http = newServer port (notifier_newRouter consumerAlive prom)\<rparr>)"

datatype 'x notifier_activity =
    Deliver "'x delivery"
  | Call SendConfirmationRequest
  | Probe api_request

fun notifier_act :: "'x notifier \<Rightarrow> 'x notifier_activity \<Rightarrow> 'x node \<Rightarrow> 'x node" where
  "notifier_act n (Deliver d) w = Consumer_handle (nt_consumer n) d w"
| "notifier_act n (Call req) w = snd (nt_grpc n req w)"
| "notifier_act n (Probe rq) w = snd (hs_Handler (nt_http n) rq w)"

definition notifier_acts :: "'x notifier \<Rightarrow> 'x notifier_activity list \<Rightarrow> 'x node \<Rightarrow> 'x node" where
  "notifier_acts n = fold (notifier_act n)"


section \<open>The cache under the whole process\<close>

text \<open>
  \<open>remembering i t0 R w v\<close>: from \<open>w\<close> to \<open>v\<close> the clock and the bounds of the cache are kept, and the cache
  goes on remembering \<open>i\<close> as long as the time-to-live since \<open>t0\<close> lasts.
\<close>

definition remembering :: "string \<Rightarrow> int \<Rightarrow> string set \<Rightarrow> 'x node \<Rightarrow> 'x node \<Rightarrow> bool" where
  "remembering i t0 R w v \<longleftrightarrow> clock v = clock w \<and> clock_reads w \<le> clock_reads v \<and>
     dd_max (dedupe v) = dd_max (dedupe w) \<and> dd_ttl (dedupe v) = dd_ttl (dedupe w) \<and>
     (remembers i t0 R w \<longrightarrow> strict_mono (clock w) \<longrightarrow> finite R \<longrightarrow> int (card R) + 1 < dd_max (dedupe w) \<longrightarrow>
      clock w (clock_reads v) \<le> t0 + dd_ttl (dedupe w) \<longrightarrow> remembers i t0 R v)"

lemma remembering_refl: "remembering i t0 R w w"
  by (simp add: remembering_def)

lemma remembering_trans:
  assumes "remembering i t0 R w v" "remembering i t0 R v u"
  shows "remembering i t0 R w u"
proof -
  have c: "clock v = clock w" "clock u = clock w" "clock_reads v \<le> clock_reads u"
    using assms by (simp_all add: remembering_def)
  have "remembers i t0 R v"
    if "remembers i t0 R w" "strict_mono (clock w)" "finite R" "int (card R) + 1 < dd_max (dedupe w)"
      "clock w (clock_reads u) \<le> t0 + dd_ttl (dedupe w)"
  proof -
    have "clock w (clock_reads v) \<le> t0 + dd_ttl (dedupe w)"
      using strict_mono_less_eq[OF that(2)] c(3) that(5) by (meson order_trans)
    then show ?thesis using assms(1) that by (simp add: remembering_def)
  qed
  then show ?thesis using assms c unfolding remembering_def by (auto intro: order_trans)
qed

lemma remembering_same:
  assumes "dedupe v = dedupe w" "clock v = clock w" "clock_reads w \<le> clock_reads v"
  shows "remembering i t0 R w v"
proof -
  have "remembers i t0 R v" if "remembers i t0 R w" "strict_mono (clock w)"
  proof -
    have "clock w (clock_reads w) \<le> clock v (clock_reads v)"
      using strict_mono_less_eq[OF that(2)] assms by simp
    then show ?thesis using that(1) assms(1) by (fastforce simp: remembers_def dedupe_ok_def)
  qed
  then show ?thesis using assms by (simp add: remembering_def)
qed

lemma remembering_op:
  assumes "op \<noteq> OpRelease i" "set (recorded [op]) \<subseteq> insert i R"
  shows "remembering i t0 R w (snd (dd_step op w))"
  using dd_onlyD[OF dd_step_only[of w op]] remembers_step[OF _ _ assms(1,2)] by (auto simp: remembering_def)

interpretation memory: kept_calls "remembering i t0 R" for i t0 R
proof unfold_locales
  show "remembering i t0 R w u" if "remembering i t0 R w v" "remembering i t0 R v u" for w v u
    using that by (rule remembering_trans)
qed (simp_all add: remembering_refl remembering_same time_Now_def ctx_Err_def uuid_New_def inc_def)

interpretation memory_consumer: kept_consumer "remembering i t0 R" "wired_consumer s p" "insert i R"
  for i t0 R and s :: "'x Sender" and p :: "'x Publisher"
proof unfold_locales
  show "remembering i t0 R w (mark k w)" if "co_Mark (wired_consumer s p) = Some mark" "k \<in> insert i R" for mark k w
    using remembering_op[of "OpMark k" i R t0 w] that by (auto simp: wired_consumer_def)
qed (simp_all add: wired_consumer_def memory.kept_Sender PublishConfirmationSent_def PublishConfirmationFailed_def
    memory.kept_publish_call)

text \<open>While \<open>i\<close> is remembered a call for it is refused before anything is sent.\<close>

lemma remembered_call:
  assumes "remembers i t0 R w" "clock w (clock_reads w) \<le> t0 + dd_ttl (dedupe w)" "sr_SagaId req = i"
  shows "Server_SendConfirmation sender req w = (None, snd (time_Now w))"
  using remembers_live(1,3)[OF assms(1,2)] assms(3) by (simp add: Server_SendConfirmation_def split_def)

lemma memory_call:
  assumes "sr_SagaId req \<in> insert i R"
  shows "remembering i t0 R w (snd (notifier_grpc validate s req w))"
proof (cases "validate req")
  case (Some e)
  then show ?thesis by (simp add: notifier_grpc_def ValidationUnaryInterceptor_def remembering_refl)
next
  case None
  let ?k = "sr_SagaId req"
  obtain b w1 where c: "TryClaim ?k w = (b, w1)" by fastforce
  obtain e w2 where m: "Sender_SendConfirmation s (sr_To req) \<lparr>cd_Repo = sr_Repo req, cd_ConfirmURL = sr_ConfirmUrl req\<rparr> w1 = (e, w2)"
    by fastforce
  have w1: "remembering i t0 R w w1" using remembering_op[of "OpTryClaim ?k" i R t0 w] assms c by simp
  have w2: "remembering i t0 R w w2"
    using remembering_trans[OF w1 memory.kept_Sender(1)] m by (metis snd_conv)
  have released: "remembering i t0 R w (Release_claim ?k w2)" if "b"
  proof (cases "?k = i")
    case False
    then show ?thesis using remembering_trans[OF w2] remembering_op[of "OpRelease ?k" i R t0 w2] by simp
  next
    case True
    have "\<not> remembers i t0 R w" if "strict_mono (clock w)" "clock w (clock_reads w2) \<le> t0 + dd_ttl (dedupe w)"
    proof
      assume r: "remembers i t0 R w"
      have "clock w (clock_reads w) \<le> t0 + dd_ttl (dedupe w)"
        using w2 that strict_mono_less_eq[OF that(1)] unfolding remembering_def by (meson order_trans)
      then show False using remembers_live(1)[OF r] c \<open>b\<close> True by simp
    qed
    then show ?thesis
      using w2 dd_onlyD[OF dd_only_ops(3)[of w2 ?k]] unfolding remembering_def
      by (simp add: Release_claim_def set_entries_def) blast
  qed
  show ?thesis
    using None c m w1 w2 released
    by (auto simp: notifier_grpc_def ValidationUnaryInterceptor_def Server_SendConfirmation_def
        split: bool.splits option.splits)
qed

text \<open>The sagas an activity is about.\<close>

fun activity_sagas :: "'x notifier_activity \<Rightarrow> string set" where
  "activity_sagas (Deliver d) = delivery_sagas d"
| "activity_sagas (Call req) = {sr_SagaId req}"
| "activity_sagas (Probe rq) = {}"

lemma finite_sagas [simp]: "finite (activity_sagas a)"
  by (cases a) (auto simp: delivery_sagas_def split: sum.splits)

lemmas services = notifier_services_def Let_def newServer_def notifier_newRouter_def

lemma memory_act:
  assumes prom: "\<And>rq v. snd (prom rq v) = v" and "activity_sagas a \<subseteq> insert i R"
  shows "remembering i t0 R w (notifier_act (notifier_services env net renderer validate replies alive prom) a w)"
proof (cases a)
  case (Deliver d)
  then show ?thesis using memory_consumer.kept_handle assms(2) by (simp add: services)
next
  case (Call req)
  then show ?thesis using memory_call assms(2) by (simp add: services)
next
  case (Probe rq)
  have "snd (dispatch_route (notifier_routes alive prom) q v) = v" for q v
    by (auto simp: dispatch_route_def notifier_routes_def prom split: option.splits)
  then show ?thesis
    using memory.kept_chain[where h = "dispatch_route (notifier_routes alive prom)"] Probe
    by (simp add: services remembering_refl)
qed

text \<open>
  \<open>mails n a w i\<close>: the activity hands the confirmation mail of saga \<open>i\<close> to the provider with success,
  or is a call that has claimed the saga and is answered OK.
\<close>

fun mails :: "'x notifier \<Rightarrow> 'x notifier_activity \<Rightarrow> 'x node \<Rightarrow> string \<Rightarrow> bool" where
  "mails n (Deliver d) w i \<longleftrightarrow> dl_RoutingKey d = RoutingKeyCmdSendConfirmation \<and>
     (case unmarshal_command (dl_Body d) of Inl err \<Rightarrow> False
      | Inr msg \<Rightarrow> sc_SagaID msg = i \<and>
          fst (co_SendConfirmation (nt_consumer n) (sc_To msg)
            \<lparr>cd_Repo = sc_Repo msg, cd_ConfirmURL = sc_ConfirmURL msg\<rparr> (snd (time_Now w))) = None)"
| "mails n (Call req) w i \<longleftrightarrow> sr_SagaId req = i \<and> fst (TryClaim i w) \<and> fst (nt_grpc n req w) = None"
| "mails n (Probe rq) w i \<longleftrightarrow> False"

text \<open>The clock has moved past every entry of the cache.\<close>

definition settled_clock :: "int \<Rightarrow> 'x node \<Rightarrow> bool" where
  "settled_clock t0 w \<longleftrightarrow> dedupe_ok w \<and> strict_mono (clock w) \<and> t0 \<le> clock w (clock_reads w) \<and>
     (\<forall>(k, s) \<in> set (dd_entries (dedupe w)). s < clock w (clock_reads w))"

lemma settled_clock_later:
  assumes "settled_clock t0 w" "dedupe v = dedupe w" "clock v = clock w" "clock_reads w \<le> clock_reads v"
  shows "settled_clock t0 v"
proof -
  have "clock w (clock_reads w) \<le> clock v (clock_reads v)"
    using strict_mono_less_eq assms unfolding settled_clock_def by metis
  then show ?thesis using assms(1-3) by (fastforce simp: settled_clock_def dedupe_ok_def)
qed

lemma settled_insert: "settled_clock t0 w \<Longrightarrow> remembers i t0 R (insertLocked i w)"
  by (simp add: settled_clock_def remembers_new)

lemma send_keeps_cache:
  fixes w :: "'x node"
  assumes "Sender_SendConfirmation s a cd w = (r, v)"
  shows "dedupe v = dedupe w" "clock v = clock w" "clock_reads w \<le> clock_reads v"
  using io_only_node[OF Sender_frames(1)[OF assms]] memory.kept_Sender(1)[of "[]" 0 "{}" w s a cd] assms
  by (simp_all add: remembering_def)

text \<open>After a mail, and once its activity is over, the cache remembers the saga, if the time-to-live lasts.\<close>

definition remembered_after :: "string \<Rightarrow> int \<Rightarrow> string set \<Rightarrow> 'x node \<Rightarrow> 'x node \<Rightarrow> bool" where
  "remembered_after i t0 R w w' \<longleftrightarrow> (\<exists>v. remembers i t0 R v \<and> remembering i t0 R v w' \<and>
     clock v = clock w \<and> dd_max (dedupe v) = dd_max (dedupe w) \<and> dd_ttl (dedupe v) = dd_ttl (dedupe w))"

lemma mailed_by_command:
  assumes "settled_clock t0 w" "dl_RoutingKey d = RoutingKeyCmdSendConfirmation"
    and "unmarshal_command (dl_Body d) = Inr msg"
    and sent: "fst (Sender_SendConfirmation s (sc_To msg)
      \<lparr>cd_Repo = sc_Repo msg, cd_ConfirmURL = sc_ConfirmURL msg\<rparr> (snd (time_Now w))) = None"
  shows "remembered_after (sc_SagaID msg) t0 R w (Consumer_handle (wired_consumer s replies) d w)"
proof -
  let ?i = "sc_SagaID msg"
  obtain v where v: "Sender_SendConfirmation s (sc_To msg)
      \<lparr>cd_Repo = sc_Repo msg, cd_ConfirmURL = sc_ConfirmURL msg\<rparr> (snd (time_Now w)) = (None, v)"
    using sent by (metis prod.collapse)
  note k = send_keeps_cache[OF v]
  have "settled_clock t0 v" by (rule settled_clock_later[OF assms(1)]) (use k in \<open>simp_all add: time_Now_def\<close>)
  then have r: "remembers ?i t0 R (Mark ?i v)" unfolding Mark_def by (rule settled_insert)
  let ?sent = "snd (publishReplyWithRetry (PublishConfirmationSent replies ?i) (Mark ?i v))"
  have act: "Consumer_handle (wired_consumer s replies) d w = inc (RabbitMQMessagesConsumedTotal (dl_RoutingKey d) resultAck)
      (inc (RabbitMQMessageProcessingDuration (dl_RoutingKey d)) (snd (time_Now (ack d ?sent))))"
    using assms(2,3) v by (simp add: Consumer_handle_def dispatch_def wired_consumer_def split_def)
  have "remembering ?i t0 R (Mark ?i v) ?sent"
    unfolding publishReplyWithRetry_def PublishConfirmationSent_def
    by (rule memory.kept_reply_loop) (rule memory.kept_publish_call)
  then have "remembering ?i t0 R (Mark ?i v) (Consumer_handle (wired_consumer s replies) d w)"
    unfolding act by (meson remembering_trans memory.kept_settled(1) memory.kept_now memory.kept_inc)
  then show ?thesis
    unfolding remembered_after_def
    using r k dd_onlyD[OF dd_only_ops(1)[of v ?i]] by (intro exI[of _ "Mark ?i v"]) (simp add: time_Now_def)
qed

lemma mailed_by_call:
  assumes w: "settled_clock t0 w" and c: "fst (TryClaim (sr_SagaId req) w)"
    and ok: "fst (notifier_grpc validate s req w) = None"
  shows "remembered_after (sr_SagaId req) t0 R w (snd (notifier_grpc validate s req w))"
proof -
  obtain v where v: "TryClaim (sr_SagaId req) w = (True, v)" using c by (metis prod.collapse)
  have valid: "validate req = None"
    using ok by (cases "validate req") (simp_all add: notifier_grpc_def ValidationUnaryInterceptor_def)
  have "settled_clock t0 (snd (time_Now w))" by (rule settled_clock_later[OF w]) (simp_all add: time_Now_def)
  then have r: "remembers (sr_SagaId req) t0 R v"
    using v settled_insert[OF w] settled_insert[of t0 "snd (time_Now w)"]
    by (auto simp: TryClaim_def split_def Let_def split: option.splits if_splits)
  have "snd (notifier_grpc validate s req w) =
      snd (Sender_SendConfirmation s (sr_To req) \<lparr>cd_Repo = sr_Repo req, cd_ConfirmURL = sr_ConfirmUrl req\<rparr> v)"
    using ok v valid
    by (auto simp: notifier_grpc_def ValidationUnaryInterceptor_def Server_SendConfirmation_def
        split: prod.splits option.splits)
  then have "remembering (sr_SagaId req) t0 R v (snd (notifier_grpc validate s req w))"
    by (simp add: memory.kept_Sender)
  then show ?thesis
    unfolding remembered_after_def
    using r dd_onlyD[OF dd_only_ops(2)[of w "sr_SagaId req"]] v by (intro exI[of _ v]) simp
qed

lemma mailed_remembered:
  assumes n: "n = notifier_services env net renderer validate replies alive prom"
    and w: "settled_clock t0 w" and m: "mails n a w i"
  shows "remembered_after i t0 R w (notifier_act n a w)"
  using m mailed_by_command[OF w] mailed_by_call[OF w]
  by (cases a) (auto simp: n services wired_consumer_def split: sum.splits)

text \<open>
  C29 (safety). The two paths share the cache. Once the notifier has mailed the confirmation of a
  saga, on a command from the broker or on a call, whatever it handles next (deliveries, calls and
  probes, of fewer than \<^verbatim>\<open>max - 1\<close> other sagas), a valid call for that saga is answered OK and sends
  nothing, up to the end of the time-to-live. The notifier is taken to handle one thing at a time:
  in the program a call that is already sending when the consumer marks its saga, and then fails,
  takes the mark away, after which a call mails again. (The clock is taken to advance strictly
  between readings, and \<^verbatim>\<open>promhttp\<close> to change nothing.)
\<close>

theorem mailed_sagas_are_not_mailed_by_calls:
  fixes w :: "'x node"
  assumes n: "n = notifier_services env net renderer validate replies alive prom"
    and prom: "\<And>rq v. snd (prom rq v) = v"
    and w: "dedupe_ok w" "strict_mono (clock w)" "\<forall>(k, t) \<in> set (dd_entries (dedupe w)). t < clock w (clock_reads w)"
    and m: "mails n a w i"
    and w': "w' = notifier_acts n as (notifier_act n a w)"
    and few: "int (card (\<Union> (activity_sagas ` set as) - {i})) < dd_max (dedupe w) - 1"
    and live: "clock w (clock_reads w') - clock w (clock_reads w) \<le> dd_ttl (dedupe w)"
    and again: "sr_SagaId req = i" "validate req = None"
  shows "nt_grpc n req w' = (None, snd (time_Now w'))"
proof -
  let ?t0 = "clock w (clock_reads w)" and ?R = "\<Union> (activity_sagas ` set as) - {i}"
  let ?w1 = "notifier_act n a w"
  have "settled_clock ?t0 w" using w by (simp add: settled_clock_def)
  then obtain v where r: "remembers i ?t0 ?R v" and v: "remembering i ?t0 ?R v ?w1"
    and same: "clock v = clock w" "dd_max (dedupe v) = dd_max (dedupe w)" "dd_ttl (dedupe v) = dd_ttl (dedupe w)"
    using mailed_remembered[OF n _ m] unfolding remembered_after_def by blast
  have "remembering i ?t0 ?R u (notifier_act n b u)" if "b \<in> set as" for b u
    unfolding n by (rule memory_act[OF prom]) (use that in auto)
  then have "remembering i ?t0 ?R ?w1 w'"
    unfolding w' notifier_acts_def by (rule memory.kept_fold)
  then have k: "remembering i ?t0 ?R v w'" by (rule remembering_trans[OF v])
  have "finite ?R" by simp
  then have "remembers i ?t0 ?R w'" using k r same w(2) few live unfolding remembering_def by simp
  then have "Server_SendConfirmation sender req w' = (None, snd (time_Now w'))" for sender
    by (rule remembered_call) (use k same live again in \<open>simp_all add: remembering_def\<close>)
  then show ?thesis
    using again(2) by (simp add: n services notifier_grpc_def ValidationUnaryInterceptor_def)
qed

text \<open>A command is mailed; then another saga's call is; then the sweeper calls for the first saga.\<close>

definition demo_notifier :: "ledger notifier" where
  "demo_notifier = notifier_services (\<lambda>_. ''e'') (sd_httpClient (ledger_mailer 200)) (sd_renderer (ledger_mailer 200))
     (\<lambda>_. None) no_publisher (\<lambda>_. True) (\<lambda>rq w. (reply 200 no_body, w))"

definition demo_command :: "ledger notifier_activity" where
  "demo_command = Deliver (ledger_delivery RoutingKeyCmdSendConfirmation (marshal_command ledger_command))"

lemma five_attempts: "replyPublishAttempts = Suc (Suc (Suc (Suc (Suc 0))))"
  by (simp add: replyPublishAttempts_def eval_nat_numeral)

lemma demo_reads:
  "clock_reads (notifier_acts demo_notifier [Call (demo_confirmation ''g2'')]
     (notifier_act demo_notifier demo_command (ledger_node (\<lambda>_. False)))) = 4"
  by (simp add: notifier_acts_def demo_command_def demo_notifier_def services Consumer_handle_def dispatch_def
      wired_consumer_def ledger_delivery_def Sender_SendConfirmation_def send_def NewSender_def ledger_mailer_def
      RenderConfirmation_def renderTemplate_def ack_def inc_def call_outside_def ledger_command_def ledger_node_def
      time_Now_def publishReplyWithRetry_def five_attempts PublishConfirmationSent_def publish_not_ready
      no_publisher_def ctx_Err_def Mark_def insertLocked_def at_capacity_def NewDedupe_def set_entries_def
      notifier_grpc_def ValidationUnaryInterceptor_def Server_SendConfirmation_def TryClaim_def demo_confirmation_def)

theorem mailed_sagas_are_not_mailed_by_calls_witness:
  "let w' = notifier_acts demo_notifier [Call (demo_confirmation ''g2'')]
     (notifier_act demo_notifier demo_command (ledger_node (\<lambda>_. False)))
   in nt_grpc demo_notifier (demo_confirmation ''g1'') w' = (None, snd (time_Now w'))"
proof -
  let ?w = "ledger_node (\<lambda>_. False)" and ?as = "[Call (demo_confirmation ''g2'') :: ledger notifier_activity]"
  have m: "mails demo_notifier demo_command ?w ''g1''" by code_simp
  have w: "dedupe_ok ?w" "strict_mono (clock ?w)" "\<forall>(k, t) \<in> set (dd_entries (dedupe ?w)). t < clock ?w (clock_reads ?w)"
    "clock ?w = (\<lambda>n. int n * Second)" "clock_reads ?w = 0" "dd_max (dedupe ?w) = 9" "dd_ttl (dedupe ?w) = Hour"
    by (simp_all add: dedupe_ok_def order_ok_def ledger_node_def NewDedupe_def strict_mono_def duration_defs)
  have sagas: "\<Union> (activity_sagas ` set ?as) - {''g1''} = {''g2''}" by (auto simp: demo_confirmation_def)
  show ?thesis
    unfolding Let_def
    by (rule mailed_sagas_are_not_mailed_by_calls[OF demo_notifier_def _ w(1-3) m refl])
      (use w(4-7) sagas demo_reads in \<open>simp_all add: duration_defs demo_confirmation_def\<close>)
qed

end
