(* ===== verification/History.thy ===== *)
theory History
  imports NotifierMain EndToEnd "HOL-Library.Sublist"
begin

text \<open>
  What the notifier's history tells: of a process that started with an empty cache, the sagas it
  has mailed, and that its cache, its replies and its answers to calls speak of no others.
\<close>

section \<open>The sagas mailed in a history\<close>

fun mailed :: "'x notifier \<Rightarrow> 'x node \<Rightarrow> 'x notifier_activity list \<Rightarrow> string \<Rightarrow> bool" where
  "mailed n w [] i \<longleftrightarrow> False"
| "mailed n w (a # as) i \<longleftrightarrow> mails n a w i \<or> mailed n (notifier_act n a w) as i"

lemma notifier_acts_simps [simp]:
  "notifier_acts n [] w = w" "notifier_acts n (a # as) w = notifier_acts n as (notifier_act n a w)"
  "notifier_acts n (as @ bs) w = notifier_acts n bs (notifier_acts n as w)"
  by (simp_all add: notifier_acts_def)

lemma mailed_append:
  "mailed n w (as @ bs) i \<longleftrightarrow> mailed n w as i \<or> mailed n (notifier_acts n as w) bs i"
  by (induction as arbitrary: w) auto

lemma mailed_prefix: "prefix as bs \<Longrightarrow> mailed n w as i \<Longrightarrow> mailed n w bs i"
  by (auto simp: prefix_def mailed_append)

section \<open>The cache holds mailed sagas only\<close>

definition cached :: "'x node \<Rightarrow> string set" where
  "cached w = fst ` set (dd_entries (dedupe w))"

lemma cached_cong: "dedupe v = dedupe w \<Longrightarrow> cached v = cached w"
  by (simp add: cached_def)

lemma keys_delete: "fst ` set (AList.delete i es) = fst ` set es - {i}"
  by (auto simp: AList.delete_eq)

lemma cached_insert: "cached (insertLocked i w) \<subseteq> insert i (cached w)"
proof -
  have expired: "cached (evictExpiredLocked v) \<subseteq> cached v" for v :: "'a node"
    by (auto simp: cached_def evictExpiredLocked_def Let_def split_def set_entries_def time_Now_def)
  have oldest: "cached (evictOldestLocked v) \<subseteq> cached v" for v :: "'a node"
    by (auto simp: cached_def evictOldestLocked_def Let_def set_entries_def keys_delete split: option.splits)
  let ?w1 = "if at_capacity w then evictExpiredLocked w else w"
  let ?w2 = "if at_capacity ?w1 then evictOldestLocked ?w1 else ?w1"
  have "cached (insertLocked i w) = insert i (cached ?w2)"
    by (simp add: cached_def insertLocked_def Let_def split_def set_entries_def time_Now_def AList.dom_update)
  moreover have "cached ?w1 \<subseteq> cached w" using expired[of w] by simp
  moreover have "cached ?w2 \<subseteq> cached ?w1" by (simp only: oldest subset_refl split: if_split) simp
  ultimately show ?thesis by blast
qed

lemma cached_ops:
  "cached (Mark i w) \<subseteq> insert i (cached w)"
  "cached (Release_claim i w) = cached w - {i}"
  "TryClaim i w = (True, v) \<Longrightarrow> cached v \<subseteq> insert i (cached w)"
  "TryClaim i w = (False, v) \<Longrightarrow> cached v = cached w \<and> i \<in> cached w"
proof -
  show "cached (Mark i w) \<subseteq> insert i (cached w)" by (simp add: Mark_def cached_insert)
  show "cached (Release_claim i w) = cached w - {i}"
    by (simp add: cached_def Release_claim_def set_entries_def keys_delete)
  have now: "cached (snd (time_Now w)) = cached w" by (simp add: cached_def time_Now_def)
  show "TryClaim i w = (True, v) \<Longrightarrow> cached v \<subseteq> insert i (cached w)"
    using cached_insert[of i w] cached_insert[of i "snd (time_Now w)"] now
    by (auto simp: TryClaim_def split_def Let_def split: option.splits if_splits)
  show "TryClaim i w = (False, v) \<Longrightarrow> cached v = cached w \<and> i \<in> cached w"
    using now by (force simp: TryClaim_def split_def Let_def cached_def dest: map_of_SomeD split: option.splits if_splits)
qed

text \<open>Whatever neither marks nor claims leaves the cache alone.\<close>

interpretation same_cache: kept_calls "\<lambda>w v. dedupe v = dedupe (w :: 'x node)"
  by unfold_locales (simp_all add: time_Now_def ctx_Err_def uuid_New_def inc_def)

lemma cached_reply:
  fixes w :: "'x node"
  shows "dedupe (snd (publishReplyWithRetry (publish p k b) w)) = dedupe w"
  unfolding publishReplyWithRetry_def
  by (rule same_cache.kept_reply_loop) (rule same_cache.kept_publish_call)

lemma cached_settled:
  fixes w :: "'x node"
  shows "cached (ack d w) = cached w" "cached (nack b d w) = cached w"
  by (rule cached_cong[OF same_cache.kept_settled(1)] cached_cong[OF same_cache.kept_settled(2)])+

text \<open>A delivery that is no readable command is settled at once or after a release mail.\<close>

lemma other_deliveries:
  assumes run: "dispatch (wired_consumer s p) d w = (res, v)"
    and other: "\<not> (dl_RoutingKey d = RoutingKeyCmdSendConfirmation \<and> (\<exists>msg. unmarshal_command (dl_Body d) = Inr msg))"
  obtains u where "u = w \<or> (\<exists>a rd r. Sender_SendReleaseNotification s a rd w = (r, u))"
    "v = ack d u \<or> (\<exists>b. v = nack b d u)"
proof (cases "\<exists>m. dl_RoutingKey d = RoutingKeyRelease \<and> unmarshal_release (dl_Body d) = Inr m")
  case False
  then have "v = ack d w \<or> (\<exists>b. v = nack b d w)"
    using run other by (cases "unmarshal_command (dl_Body d)"; cases "unmarshal_release (dl_Body d)")
      (auto simp: dispatch_def split: if_splits)
  then show ?thesis using that by blast
next
  case True
  then obtain m where m: "dl_RoutingKey d = RoutingKeyRelease" "unmarshal_release (dl_Body d) = Inr m" by blast
  obtain r u where u: "Sender_SendReleaseNotification s (rm_To m)
      \<lparr>rd_Repo = rm_Repo m, rd_TagName = rm_TagName m, rd_ReleaseName = rm_ReleaseName m, rd_Body = rm_Body m,
       rd_ReleaseURL = rm_ReleaseURL m, rd_UnsubscribeURL = rm_UnsubscribeURL m\<rparr> w = (r, u)" by fastforce
  have "dl_RoutingKey d \<noteq> RoutingKeyCmdSendConfirmation"
    using m(1) by (simp add: RoutingKeyRelease_def RoutingKeyCmdSendConfirmation_def)
  then have "v = ack d u \<or> (\<exists>b. v = nack b d u)"
    using run m u by (cases r) (auto simp: dispatch_def wired_consumer_def)
  then show ?thesis using that u by blast
qed

lemma cached_dispatch:
  fixes w :: "'x node"
  assumes run: "dispatch (wired_consumer s p) d w = (res, v)"
  shows "cached v \<subseteq> cached w \<or> (\<exists>msg. dl_RoutingKey d = RoutingKeyCmdSendConfirmation \<and>
    unmarshal_command (dl_Body d) = Inr msg \<and>
    fst (Sender_SendConfirmation s (sc_To msg) \<lparr>cd_Repo = sc_Repo msg, cd_ConfirmURL = sc_ConfirmURL msg\<rparr> w) = None \<and>
    cached v \<subseteq> insert (sc_SagaID msg) (cached w))"
proof (cases "dl_RoutingKey d = RoutingKeyCmdSendConfirmation \<and> (\<exists>msg. unmarshal_command (dl_Body d) = Inr msg)")
  case False
  from other_deliveries[OF run this] have "cached v = cached w"
    by (metis cached_settled cached_cong same_cache.kept_Sender(2) snd_conv)
  then show ?thesis by simp
next
  case True
  then obtain msg where msg: "dl_RoutingKey d = RoutingKeyCmdSendConfirmation" "unmarshal_command (dl_Body d) = Inr msg"
    by blast
  obtain r u where u: "Sender_SendConfirmation s (sc_To msg)
      \<lparr>cd_Repo = sc_Repo msg, cd_ConfirmURL = sc_ConfirmURL msg\<rparr> w = (r, u)" by fastforce
  have same: "cached u = cached w" by (rule cached_cong) (metis same_cache.kept_Sender(1) snd_conv u)
  have reply: "cached (snd (publishReplyWithRetry (PublishConfirmationSent p i) u)) = cached u"
    "cached (snd (publishReplyWithRetry (PublishConfirmationFailed p i reason) u)) = cached u"
    for i reason and u :: "'x node"
    unfolding PublishConfirmationSent_def PublishConfirmationFailed_def by (rule cached_cong[OF cached_reply])+
  show ?thesis
  proof (cases r)
    case None
    then have "cached v = cached (Mark (sc_SagaID msg) u)"
      using run msg u by (auto simp: dispatch_def wired_consumer_def Let_def split_def cached_settled reply)
    then show ?thesis using cached_ops(1)[of "sc_SagaID msg" u] same msg u None by simp
  next
    case (Some err)
    then have "cached v = cached u"
      using run msg u by (auto simp: dispatch_def wired_consumer_def Let_def split_def cached_settled reply)
    then show ?thesis using same by simp
  qed
qed

lemma cached_call:
  assumes "Server_SendConfirmation (Sender_SendConfirmation s) req w = (r, v)"
  shows "cached v \<subseteq> cached w \<or> (r = None \<and> fst (TryClaim (sr_SagaId req) w) \<and> cached v \<subseteq> insert (sr_SagaId req) (cached w))"
    and "r = None \<Longrightarrow> fst (TryClaim (sr_SagaId req) w) \<or> sr_SagaId req \<in> cached w"
proof -
  obtain b w1 where c: "TryClaim (sr_SagaId req) w = (b, w1)" by fastforce
  have send: "cached u = cached w1" if "Sender_SendConfirmation s a cd w1 = (x, u)" for a cd x u
    using same_cache.kept_Sender(1)[of s a cd w1] that by (intro cached_cong) simp
  show "cached v \<subseteq> cached w \<or> (r = None \<and> fst (TryClaim (sr_SagaId req) w) \<and> cached v \<subseteq> insert (sr_SagaId req) (cached w))"
    using assms c send cached_ops(3)[of "sr_SagaId req" w w1] cached_ops(4)[of "sr_SagaId req" w w1]
    by (cases b) (auto simp: Server_SendConfirmation_def cached_ops(2) split: prod.splits option.splits)
  show "r = None \<Longrightarrow> fst (TryClaim (sr_SagaId req) w) \<or> sr_SagaId req \<in> cached w"
    using c cached_ops(4)[of "sr_SagaId req" w w1] by (cases b) auto
qed

lemma probe_answers:
  assumes "\<And>rq v. snd (prom rq v) = v"
  shows "snd (dispatch_route (notifier_routes alive prom) rq v) = v"
  using assms by (auto simp: dispatch_route_def notifier_routes_def split: option.splits)

text \<open>An activity adds to the cache only what it mails.\<close>

lemma cached_act:
  assumes n: "n = notifier_services env net renderer validate replies alive prom"
    and prom: "\<And>rq v. snd (prom rq v) = v"
  shows "cached (notifier_act n a w) \<subseteq> cached w \<union> {i. mails n a w i}"
proof (cases a)
  case (Deliver d)
  let ?s = "NewSender net (env ''RESEND_API_KEY'') (env ''EMAIL_FROM'') (getEnv env ''RESEND_API_URL'' ''https://api.resend.com/emails'') renderer"
  obtain res v where run: "dispatch (wired_consumer ?s replies) d (snd (time_Now w)) = (res, v)" by fastforce
  have "cached (notifier_act n a w) = cached v" "cached (snd (time_Now w)) = cached w"
    using run by (simp_all add: Deliver n services Consumer_handle_def Let_def split_def cached_def time_Now_def inc_def)
  then show ?thesis
    using cached_dispatch[OF run] by (auto simp: Deliver n services wired_consumer_def)
next
  case (Call req)
  show ?thesis
  proof (cases "validate req")
    case (Some e)
    then show ?thesis by (simp add: Call n services notifier_grpc_def ValidationUnaryInterceptor_def)
  next
    case None
    then show ?thesis
      using cached_call(1)[OF prod.collapse[symmetric], of _ req w]
      by (fastforce simp: Call n services notifier_grpc_def ValidationUnaryInterceptor_def)
  qed
next
  case (Probe rq)
  have "dedupe (notifier_act n a w) = dedupe w"
    using same_cache.kept_chain[where h = "dispatch_route (notifier_routes alive prom)"] by (simp add: Probe n services probe_answers[OF prom])
  from cached_cong[OF this] show ?thesis by blast
qed

section \<open>The replies announce mailed sagas only\<close>

text \<open>Settling a delivery publishes nothing.\<close>

fun settles_silently :: "('x \<Rightarrow> (string \<times> body) list) \<Rightarrow> 'x notifier_activity \<Rightarrow> bool" where
  "settles_silently pubs (Deliver d) \<longleftrightarrow> (\<forall>x. pubs (dl_Ack d x) = pubs x) \<and> (\<forall>q x. pubs (dl_Nack d q x) = pubs x)"
| "settles_silently pubs _ \<longleftrightarrow> True"

lemma other_deliveries_publish_nothing:
  assumes silent: "settles_silently pubs (Deliver d)" and s: "mailer_keeps pubs s"
    and run: "dispatch (wired_consumer s p) d w = (res, v)"
    and other: "\<not> (dl_RoutingKey d = RoutingKeyCmdSendConfirmation \<and> (\<exists>msg. unmarshal_command (dl_Body d) = Inr msg))"
  shows "pubs (outside v) = pubs (outside w)"
proof -
  obtain u where u: "u = w \<or> (\<exists>a rd r. Sender_SendReleaseNotification s a rd w = (r, u))"
    "v = ack d u \<or> (\<exists>b. v = nack b d u)" by (rule other_deliveries[OF run other])
  have "pubs (outside u) = pubs (outside w)" using u(1) log_Sender(2)[OF s] by auto
  then show ?thesis using u(2) silent by (auto simp: ack_def nack_def)
qed

definition announced :: "('x \<Rightarrow> (string \<times> body) list) \<Rightarrow> 'x node \<Rightarrow> body \<Rightarrow> bool" where
  "announced pubs w b \<longleftrightarrow> (RoutingKeyEventConfirmationSent, b) \<in> set (pubs (outside w))"

lemma announced_delivery:
  assumes broker: "records_publications pubs p" and s: "mailer_keeps pubs s"
    and silent: "settles_silently pubs (Deliver d)"
    and run: "dispatch (wired_consumer s p) d w = (res, v)" and new: "announced pubs v b"
  shows "announced pubs w b \<or> (\<exists>msg. dl_RoutingKey d = RoutingKeyCmdSendConfirmation \<and>
    unmarshal_command (dl_Body d) = Inr msg \<and> b = marshal_sent \<lparr>cs_SagaID = sc_SagaID msg\<rparr> \<and>
    fst (Sender_SendConfirmation s (sc_To msg) \<lparr>cd_Repo = sc_Repo msg, cd_ConfirmURL = sc_ConfirmURL msg\<rparr> w) = None)"
proof (cases "dl_RoutingKey d = RoutingKeyCmdSendConfirmation \<and> (\<exists>msg. unmarshal_command (dl_Body d) = Inr msg)")
  case False
  then show ?thesis using other_deliveries_publish_nothing[OF silent s run] new by (simp add: announced_def)
next
  case True
  then obtain msg where d: "dl_RoutingKey d = RoutingKeyCmdSendConfirmation" "unmarshal_command (dl_Body d) = Inr msg"
    by blast
  let ?r = "fst (Sender_SendConfirmation s (sc_To msg) \<lparr>cd_Repo = sc_Repo msg, cd_ConfirmURL = sc_ConfirmURL msg\<rparr> w)"
  obtain m where "pubs (outside v) = pubs (outside w) @ replicate m (reply_message (sc_SagaID msg) ?r)"
    using command_replies[OF broker s _ d run] silent by auto
  then have "announced pubs w b \<or> (RoutingKeyEventConfirmationSent, b) = reply_message (sc_SagaID msg) ?r"
    using new by (auto simp: announced_def in_set_replicate)
  then show ?thesis
    using d by (cases ?r) (auto simp: reply_message_def RoutingKeyEventConfirmationSent_def
        RoutingKeyEventConfirmationFailed_def)
qed

lemma calls_publish_nothing:
  assumes s: "mailer_keeps pubs s" and run: "Server_SendConfirmation (Sender_SendConfirmation s) req w = (r, v)"
  shows "pubs (outside v) = pubs (outside w)"
proof -
  obtain c w1 where c: "TryClaim (sr_SagaId req) w = (c, w1)" by fastforce
  have o: "outside w1 = outside w" using dd_onlyD[OF dd_only_ops(2)[of w "sr_SagaId req"]] c by simp
  obtain e u where u: "Sender_SendConfirmation s (sr_To req) \<lparr>cd_Repo = sr_Repo req, cd_ConfirmURL = sr_ConfirmUrl req\<rparr> w1 = (e, u)"
    by fastforce
  show ?thesis
    using run c u o log_Sender(1)[OF s u] dd_onlyD[OF dd_only_ops(3)[of u "sr_SagaId req"]]
    by (cases c; cases e) (auto simp: Server_SendConfirmation_def)
qed

lemma announced_act:
  assumes n: "n = notifier_services env net renderer validate replies alive prom"
    and prom: "\<And>rq v. snd (prom rq v) = v"
    and broker: "records_publications pubs replies" "\<And>rq x. pubs (snd (mc_Do net rq x)) = pubs x"
    and silent: "settles_silently pubs a"
    and new: "announced pubs (notifier_act n a w) b"
  shows "announced pubs w b \<or> (\<exists>i. b = marshal_sent \<lparr>cs_SagaID = i\<rparr> \<and> mails n a w i)"
proof -
  let ?s = "NewSender net (env ''RESEND_API_KEY'') (env ''EMAIL_FROM'') (getEnv env ''RESEND_API_URL'' ''https://api.resend.com/emails'') renderer"
  have keeps: "mailer_keeps pubs ?s" using broker(2) by (simp add: mailer_keeps_def NewSender_def)
  show ?thesis
  proof (cases a)
    case (Deliver d)
    let ?w = "snd (time_Now w)"
    obtain res v where run: "dispatch (wired_consumer ?s replies) d ?w = (res, v)" by fastforce
    have v: "announced pubs v b"
      using new run by (simp add: Deliver n services Consumer_handle_def Let_def split_def announced_def time_Now_def inc_def)
    have w: "announced pubs ?w b = announced pubs w b" by (simp add: announced_def time_Now_def)
    from announced_delivery[OF broker(1) keeps silent[unfolded Deliver] run v] w show ?thesis
      by (auto simp: Deliver n services wired_consumer_def)
  next
    case (Call req)
    obtain r v where run: "Server_SendConfirmation (Sender_SendConfirmation ?s) req w = (r, v)" by fastforce
    have "pubs (outside (notifier_act n a w)) = pubs (outside w)"
      using calls_publish_nothing[OF keeps run] run
      by (cases "validate req") (simp_all add: Call n services notifier_grpc_def ValidationUnaryInterceptor_def)
    then show ?thesis using new by (simp add: announced_def)
  next
    case (Probe rq)
    have "outside (notifier_act n a w) = outside w"
      by (simp add: Probe n services RequestID_def Logger_def Prometheus_def Let_def split_def probe_answers[OF prom]
          time_Now_def uuid_New_def inc_def WithRequestID_def)
    then show ?thesis using new by (simp add: announced_def)
  qed
qed

section \<open>A whole history\<close>

text \<open>Started with an empty cache and before any reply, the notifier speaks of mailed sagas only.\<close>

definition accounted :: "('x \<Rightarrow> (string \<times> body) list) \<Rightarrow> 'x notifier \<Rightarrow> 'x node \<Rightarrow> bool" where
  "accounted pubs n w0 \<longleftrightarrow>
     (\<forall>as. (\<forall>a \<in> set as. settles_silently pubs a) \<longrightarrow>
        (\<forall>i \<in> cached (notifier_acts n as w0). mailed n w0 as i) \<and>
        (\<forall>b. announced pubs (notifier_acts n as w0) b \<longrightarrow>
           (\<exists>i. b = marshal_sent \<lparr>cs_SagaID = i\<rparr> \<and> mailed n w0 as i)))"

lemma notifier_accounted:
  assumes n: "n = notifier_services env net renderer validate replies alive prom"
    and prom: "\<And>rq v. snd (prom rq v) = v"
    and broker: "records_publications pubs replies" "\<And>rq x. pubs (snd (mc_Do net rq x)) = pubs x"
    and start: "dd_entries (dedupe w0) = []" "pubs (outside w0) = []"
  shows "accounted pubs n w0"
  unfolding accounted_def
proof (intro allI impI)
  fix as assume "\<forall>a \<in> set as. settles_silently pubs a"
  then show "(\<forall>i \<in> cached (notifier_acts n as w0). mailed n w0 as i) \<and>
      (\<forall>b. announced pubs (notifier_acts n as w0) b \<longrightarrow>
         (\<exists>i. b = marshal_sent \<lparr>cs_SagaID = i\<rparr> \<and> mailed n w0 as i))"
  proof (induction as rule: rev_induct)
    case Nil
    then show ?case using start by (simp add: cached_def announced_def)
  next
    case (snoc a as)
    let ?w = "notifier_acts n as w0"
    have "settles_silently pubs a" using snoc.prems by simp
    note step = cached_act[OF n prom, of a ?w] announced_act[OF n prom broker this, of ?w]
    then show ?case using snoc by (fastforce simp: mailed_append)
  qed
qed

text \<open>A call is answered OK only if its saga has been mailed, now or before.\<close>

lemma call_answered_ok:
  assumes n: "n = notifier_services env net renderer validate replies alive prom"
    and acc: "accounted pubs n w0" "\<forall>a \<in> set as. settles_silently pubs a"
    and ok: "fst (nt_grpc n req (notifier_acts n as w0)) = None"
  shows "mailed n w0 (as @ [Call req]) (sr_SagaId req)"
proof -
  let ?w = "notifier_acts n as w0"
  let ?s = "NewSender net (env ''RESEND_API_KEY'') (env ''EMAIL_FROM'') (getEnv env ''RESEND_API_URL'' ''https://api.resend.com/emails'') renderer"
  obtain r v where run: "Server_SendConfirmation (Sender_SendConfirmation ?s) req ?w = (r, v)" by fastforce
  have "r = None"
    using ok run by (cases "validate req") (simp_all add: n services notifier_grpc_def ValidationUnaryInterceptor_def)
  from cached_call(2)[OF run this] show ?thesis
    using acc ok unfolding accounted_def by (auto simp: mailed_append)
qed

end
