(* ===== verification/Deployment.thy ===== *)
theory Deployment
  imports System History
begin

text \<open>
  Server and notifier together. The server's outside has a history, that of the notifier behind
  the broker and behind the gRPC client; it goes on whenever the server looks away, during every
  call the server makes included. A saga can be completed by a reply or by a retried call, and
  both are backed by a mail in that history.
\<close>

section \<open>The server's neighbours\<close>

record ('x, 'y) neighbours =
  nb_history :: "'x \<Rightarrow> 'y notifier_activity list"    \<comment> \<open>what the notifier has done so far\<close>
  nb_github :: "'x http_client"
  nb_redis :: "'x redis_client option"
  nb_publisher :: "'x Publisher"
  nb_notifier :: "int \<Rightarrow> SendConfirmationRequest \<Rightarrow> 'x \<Rightarrow> goerr option \<times> 'x"
  nb_prom :: "'x world api_handler"

definition goes_on :: "('x, 'y) neighbours \<Rightarrow> 'x \<Rightarrow> 'x \<Rightarrow> bool" where
  "goes_on c x x' \<longleftrightarrow> prefix (nb_history c x) (nb_history c x')"

lemma goes_on_refl [simp]: "goes_on c x x"
  by (simp add: goes_on_def)

lemma goes_on_trans: "goes_on c x y \<Longrightarrow> goes_on c y z \<Longrightarrow> goes_on c x z"
  by (auto simp: goes_on_def)

text \<open>No call takes back what the notifier has done; \<^verbatim>\<open>promhttp\<close> leaves the database alone too.\<close>

definition neighbours_ok :: "('x, 'y) neighbours \<Rightarrow> bool" where
  "neighbours_ok c \<longleftrightarrow>
     (\<forall>rq x. goes_on c x (snd (gh_Do (nb_github c) rq x))) \<and>
     (\<forall>rd k x. nb_redis c = Some rd \<longrightarrow> goes_on c x (snd (rd_Get rd k x))) \<and>
     (\<forall>rd k v ttl x. nb_redis c = Some rd \<longrightarrow> goes_on c x (snd (rd_Set rd k v ttl x))) \<and>
     (\<forall>y ch ex k m i b x. pub_ch (nb_publisher c) y = Some ch \<longrightarrow> goes_on c x (snd (ch_Publish ch ex k m i b x))) \<and>
     (\<forall>y ch t x. pub_ch (nb_publisher c) y = Some ch \<longrightarrow> goes_on c x (snd (ch_Wait ch t x))) \<and>
     (\<forall>t rq x. goes_on c x (snd (nb_notifier c t rq x))) \<and>
     (\<forall>rq w. io_only w (snd (nb_prom c rq w)) \<and> goes_on c (outside w) (outside (snd (nb_prom c rq w))))"

text \<open>The gRPC client answers nil only if the notifier has answered this request with OK.\<close>

definition calls_reach :: "'y notifier \<Rightarrow> 'y node \<Rightarrow> ('x, 'y) neighbours \<Rightarrow> bool" where
  "calls_reach n w0 c \<longleftrightarrow>
     (\<forall>t rq x x'. nb_notifier c t rq x = (None, x') \<longrightarrow>
        (\<exists>before after. nb_history c x' = before @ Call rq # after \<and>
           fst (nt_grpc n rq (notifier_acts n before w0)) = None))"

section \<open>Every activity lets the history go on\<close>

definition grows :: "('x, 'y) neighbours \<Rightarrow> 'x world \<Rightarrow> 'x world \<Rightarrow> bool" where
  "grows c w w' \<longleftrightarrow> (neighbours_ok c \<longrightarrow> goes_on c (outside w) (outside w'))"

lemma grows_same: "outside w' = outside w \<Longrightarrow> grows c w w'"
  by (simp add: grows_def)

lemma grows_trans: "grows c w v \<Longrightarrow> grows c v u \<Longrightarrow> grows c w u"
  using goes_on_trans by (auto simp: grows_def)

interpretation grown: kept_own "grows c" for c
  by unfold_locales (auto simp: grows_same time_Now_def ctx_Err_def uuid_New_def inc_def intro: grows_trans)

lemma grows_call:
  assumes "\<And>x. neighbours_ok c \<Longrightarrow> goes_on c x (snd (f x))"
  shows "grows c w (snd (call_outside f w))"
  using assms by (simp add: grows_def call_outside_def split_def)

lemma outside_exec: "exec_sql stmt w = (r, v) \<Longrightarrow> outside v = outside w"
  by (auto simp: exec_sql_def Let_def split: db_outcome.splits)

lemma outside_exec_snd [simp]: "outside (snd (exec_sql stmt w)) = outside w"
  by (rule outside_exec) (rule prod.collapse[symmetric])

lemma outside_rows [simp]:
  "outside (snd (one_row what sel w)) = outside w" "outside (snd (many_rows what' sel' w)) = outside w"
  "outside (snd (exec_affecting what'' stmt w)) = outside w"
  by (auto simp: one_row_def many_rows_def exec_affecting_def dest!: outside_exec
      split: prod.splits sum.splits if_splits db_outcome.splits)

lemma outside_repositories [simp]:
  "outside (snd (markTerminal i st e w)) = outside w"
  "outside (snd (SubscriptionRepository_Delete i w)) = outside w"
  "outside (snd (SubscriptionRepository_Confirm i w)) = outside w"
  "outside (snd (UpdateLastSeenTag i tag w)) = outside w"
  "outside (snd (ExistsByEmailAndRepoID a b w)) = outside w"
  "outside (snd (GetOrCreate nm w)) = outside w"
  by (auto simp: markTerminal_def SubscriptionRepository_Delete_def SubscriptionRepository_Confirm_def
      UpdateLastSeenTag_def ExistsByEmailAndRepoID_def GetOrCreate_def uuid_New_def time_Now_def Let_def
      split_def dest!: outside_exec split: prod.splits sum.splits)

lemma outside_CreateWithSaga [simp]: "outside (snd (CreateWithSaga sub s w)) = outside w"
proof -
  obtain r v where run: "CreateWithSaga sub s w = (r, v)" by fastforce
  then show ?thesis by (cases rule: CreateWithSaga_cases) (simp_all add: run touched_frame(7))
qed

text \<open>The calls to GitHub, Redis, the broker and the notifier.\<close>

lemma grows_publish: "grows c w (snd (publish (nb_publisher c) k b w))"
proof -
  have "goes_on c x (publish_effect (nb_publisher c) k b x)" if "neighbours_ok c" for x
  proof (cases "pub_ch (nb_publisher c) x")
    case (Some ch)
    obtain r x1 where r: "ch_Publish ch ExchangeNotifications k True False b x = (r, x1)" by fastforce
    have "goes_on c x (snd (ch_Publish ch ExchangeNotifications k True False b x))"
      "goes_on c x1 (snd (ch_Wait ch t x1))" for t
      using that Some unfolding neighbours_ok_def by blast+
    then show ?thesis using Some r by (auto simp: publish_effect_def intro: goes_on_trans split: sum.splits)
  qed (simp add: publish_effect_def)
  then show ?thesis by (simp add: grows_def outside_publish)
qed

lemma grows_doRequest: "grows c w (snd (doRequest (nb_github c) token url w))"
proof -
  have "grows c w (snd (call_outside (gh_Do (nb_github c) rq) w))" for rq
    by (rule grows_call) (simp add: neighbours_ok_def)
  then show ?thesis by (simp add: doRequest_def grows_same split: option.splits)
qed

lemma grows_redis:
  assumes "nb_redis c = Some rd"
  shows "grows c w (snd (call_outside (rd_Get rd k) w))" "grows c w (snd (call_outside (rd_Set rd k v ttl) w))"
  by (rule grows_call, use assms in \<open>simp add: neighbours_ok_def\<close>)+

lemma grows_checker: "grows c w (snd (wired_checker (nb_redis c) (NewRepoCheckerClient (nb_github c) token) a b w))"
proof -
  let ?gh = "NewRepoCheckerClient (nb_github c) token"
  note t = grown.kept_trans
  have plain: "grows c u (snd (CheckRepo ?gh a b u))" for u :: "'a world"
  proof -
    have "grows c u v \<and> grows c u (inc m v)" if "doRequest (nb_github c) token url u = (r, v)" for url r v m
      using grows_doRequest[of c u token url] t[OF _ grown.kept_inc] that by simp
    then show ?thesis
      by (auto simp: CheckRepo_def NewRepoCheckerClient_def split: prod.splits sum.splits)
  qed
  show ?thesis
  proof (cases "nb_redis c")
    case None
    then show ?thesis using plain by (simp add: wired_checker_def)
  next
    case (Some rd)
    obtain g w1 where g: "call_outside (rd_Get rd (repo_key a b)) w = (g, w1)" by fastforce
    obtain r w2 where r: "CheckRepo ?gh a b w1 = (r, w2)" by fastforce
    have w1: "grows c w w1" using grows_redis(1)[OF Some, of w] g by (metis snd_conv)
    have w2: "grows c w w2" using t[OF w1 plain] r by (metis snd_conv)
    show ?thesis
      using w1 w2 t[OF w2 grows_redis(2)[OF Some]] g r
      by (auto simp: wired_checker_def Some Cached_CheckRepo_def Let_def split: sum.splits option.splits)
  qed
qed

lemma grows_fetcher: "grows c w (snd (wired_fetcher tc (nb_redis c) (NewReleaseFetcherClient (nb_github c) token) a b w))"
proof -
  let ?gh = "NewReleaseFetcherClient (nb_github c) token"
  note t = grown.kept_trans
  have plain: "grows c u (snd (GetLatestRelease tc ?gh a b u))" for u :: "'a world"
  proof -
    have "grows c u v \<and> grows c u (inc m v)" if "doRequest (nb_github c) token url u = (r, v)" for url r v m
      using grows_doRequest[of c u token url] t[OF _ grown.kept_inc] that by simp
    then show ?thesis
      by (auto simp: GetLatestRelease_def NewReleaseFetcherClient_def Let_def split: prod.splits sum.splits)
  qed
  show ?thesis
  proof (cases "nb_redis c")
    case None
    then show ?thesis using plain by (simp add: wired_fetcher_def)
  next
    case (Some rd)
    obtain g w1 where g: "call_outside (rd_Get rd (release_key a b)) w = (g, w1)" by fastforce
    obtain r w2 where r: "GetLatestRelease tc ?gh a b w1 = (r, w2)" by fastforce
    have w1: "grows c w w1" using grows_redis(1)[OF Some, of w] g by (metis snd_conv)
    have w2: "grows c w w2" using t[OF w1 plain] r by (metis snd_conv)
    show ?thesis
      using w1 w2 t[OF w2 grows_redis(2)[OF Some]] g r
      by (auto simp: wired_fetcher_def Some Cached_GetLatestRelease_def Let_def split: sum.splits option.splits)
  qed
qed

section \<open>The handlers let the history go on\<close>

interpretation grown_compensation: kept_compensation "grows c" "wired p r u" i
  for c and p :: "'x Publisher" and r :: "'x Retrier" and u i
  by unfold_locales (simp_all add: grows_same pg_sagas_def pg_subs_def SagaRepository_Get_def MarkCompensated_def)

interpretation grown_publish: kept_publish "grows c" "wired (nb_publisher c) r u" i
  for c and r :: "'x Retrier" and u i
  by unfold_locales (simp add: SendConfirmationCommand_publish_def grows_publish)

interpretation grown_subscribe: kept_subscribe "grows c"
    "wired_subscribe (nb_publisher c) r u (wired_checker (nb_redis c) (NewRepoCheckerClient (nb_github c) token))" email
  for c and r :: "'x Retrier" and u token email
  by unfold_locales (simp_all add: wired_subscribe_def grows_same grows_checker grown_publish.kept_Publish)

interpretation grown_scanner: kept_scanner "grows c"
    "wired_scanner (nb_publisher c) u k tc (nb_redis c) (NewReleaseFetcherClient (nb_github c) token)"
  for c :: "('x, 'y) neighbours" and u k tc token
  by unfold_locales (simp_all add: grows_same GetAllWithConfirmedSubscriptions_def GetConfirmedByRepoID_def
      grows_fetcher SendReleaseNotification_def grows_publish)

definition deployed_services ::
    "(string \<Rightarrow> goerr + int) \<Rightarrow> time_codec \<Rightarrow> Config \<Rightarrow> ('x, 'y) neighbours \<Rightarrow> 'x appServices" where
  "deployed_services parse tc cfg c =
     setupServices parse tc (nb_github c) (nb_redis c) (nb_publisher c) (nb_notifier c) cfg"

lemma grows_Serve:
  "grows c w (snd (newRouter uuid_ok (nb_prom c) page (NewHandler (deployed_services parse tc cfg c)) rq w))"
proof (rule grown.kept_router, rule grown.kept_route, unfold deployed_services_def NewHandler_setup wired_handler_def Handler.simps)
  fix i :: string and v :: "'a world" and q
  show "grows c v (snd (nb_prom c q v))" by (simp add: grows_def neighbours_ok_def)
  show "grows c v (snd (GetSubscriptions_usecase wired_list email v))" for email
    by (rule grown.kept_GetSubscriptions_usecase) (simp add: wired_list_def GetByEmail_def grows_same)
  show "grows c v (snd (Confirm_usecase wired_confirm token v))" for token
    by (rule grown.kept_Confirm_usecase) (simp_all add: wired_confirm_def GetByConfirmToken_def grows_same)
  show "grows c v (snd (Unsubscribe_usecase wired_unsubscribe token v))" for token
    by (rule grown.kept_Unsubscribe_usecase) (simp_all add: wired_unsubscribe_def GetByUnsubscribeToken_def grows_same)
qed (rule grown_subscribe.kept_Subscribe)

section \<open>Completed sagas are backed by mails\<close>

text \<open>No delivery so far publishes by being settled.\<close>

definition sane :: "('x, 'y) neighbours \<Rightarrow> ('y \<Rightarrow> (string \<times> body) list) \<Rightarrow> 'x \<Rightarrow> bool" where
  "sane c pubs x \<longleftrightarrow> (\<forall>a \<in> set (nb_history c x). settles_silently pubs a)"

lemma sane_before: "goes_on c x x' \<Longrightarrow> sane c pubs x' \<Longrightarrow> sane c pubs x"
  by (auto simp: goes_on_def sane_def dest: set_mono_prefix)

definition backed :: "('x, 'y) neighbours \<Rightarrow> ('y \<Rightarrow> (string \<times> body) list) \<Rightarrow> 'y notifier \<Rightarrow> 'y node \<Rightarrow> event set \<Rightarrow> 'x world \<Rightarrow> bool" where
  "backed c pubs n w0 E w \<longleftrightarrow> world_ok w \<and> within E w \<and>
     (\<forall>k s. sane c pubs (outside w) \<and> saga_at w k = Some s \<and> saga_State s = SagaStateCompleted \<longrightarrow>
        mailed n w0 (nb_history c (outside w)) k)"

text \<open>
  What \<open>backed\<close> needs: calls answered OK are backed by mails, and the other sessions, whatever else
  they do, complete no saga.
\<close>

definition trusted :: "('x, 'y) neighbours \<Rightarrow> ('y \<Rightarrow> (string \<times> body) list) \<Rightarrow> 'y notifier \<Rightarrow> 'y node \<Rightarrow> event set \<Rightarrow> bool" where
  "trusted c pubs n w0 E \<longleftrightarrow> neighbours_ok c \<and> Disturbed \<notin> E \<and> (\<forall>k. Settled k SagaStateCompleted \<notin> E) \<and>
     (\<forall>t rq x x'. nb_notifier c t rq x = (None, x') \<and> sane c pubs x' \<longrightarrow>
        mailed n w0 (nb_history c x') (sr_SagaId rq))"

definition justified ::
    "('x, 'y) neighbours \<Rightarrow> ('y \<Rightarrow> (string \<times> body) list) \<Rightarrow> 'y notifier \<Rightarrow> 'y node \<Rightarrow> event set \<Rightarrow> 'x world \<Rightarrow> 'x world \<Rightarrow> bool" where
  "justified c pubs n w0 E w w' \<longleftrightarrow>
     (trusted c pubs n w0 E \<longrightarrow> goes_on c (outside w) (outside w') \<and> (backed c pubs n w0 E w \<longrightarrow> backed c pubs n w0 E w'))"

text \<open>A step is justified if the completions it may cause are.\<close>

lemma justified_step:
  assumes "obeys E A w w'" "grows c w w'" "Disturbed \<notin> A"
    and "\<And>k. Settled k SagaStateCompleted \<in> A \<Longrightarrow> trusted c pubs n w0 E \<Longrightarrow> sane c pubs (outside w) \<Longrightarrow>
      mailed n w0 (nb_history c (outside w)) k"
  shows "justified c pubs n w0 E w w'"
  unfolding justified_def
proof (intro impI conjI)
  assume t: "trusted c pubs n w0 E"
  then show on: "goes_on c (outside w) (outside w')" using assms(2) by (simp add: grows_def trusted_def)
  assume b: "backed c pubs n w0 E w"
  then have run: "world_ok w'" "db_env w' = db_env w" "service_run (E \<union> A) (service_of (db w)) (service_of (db w'))"
    using assms(1) by (simp_all add: obeys_def backed_def)
  have calm: "Disturbed \<notin> E \<union> A" using t assms(3) by (simp add: trusted_def)
  have "mailed n w0 (nb_history c (outside w)) k"
    if "sane c pubs (outside w')" and s: "saga_at w' k = Some s" "saga_State s = SagaStateCompleted" for k s
  proof -
    have sane: "sane c pubs (outside w)" by (rule sane_before[OF on that(1)])
    have j: "sv_jobs (service_of (db w')) k = Some (job_of s)" "jb_phase (job_of s) = Closed SagaStateCompleted"
      using s by (simp_all add: service_at job_of_def phase_of_def SagaState_distinct)
    from run_was_closed[OF run(3) calm j] show ?thesis
    proof
      assume "Settled k SagaStateCompleted \<in> E \<union> A"
      then show ?thesis using t sane assms(4) by (auto simp: trusted_def)
    next
      assume "sv_jobs (service_of (db w)) k = Some (job_of s)"
      then obtain s0 where s0: "saga_at w k = Some s0" "job_of s0 = job_of s" by (auto simp: service_at)
      then have "saga_State s0 = SagaStateCompleted"
        using s(2) by (auto simp: job_of_def phase_of_def SagaState_distinct split: if_splits)
      then show ?thesis using b sane s0(1) by (simp add: backed_def)
    qed
  qed
  then show "backed c pubs n w0 E w'"
    using b run on by (auto simp: backed_def within_def goes_on_def intro: mailed_prefix)
qed

lemma justified_trans: "justified c pubs n w0 E w v \<Longrightarrow> justified c pubs n w0 E v u \<Longrightarrow> justified c pubs n w0 E w u"
  using goes_on_trans by (auto simp: justified_def)

text \<open>What causes no event at all, and the readings of the process.\<close>

lemma justified_reads: "obeys E {} w w' \<Longrightarrow> grows c w w' \<Longrightarrow> justified c pubs n w0 E w w'"
  by (rule justified_step[where A = "{}"]) simp_all

interpretation just: kept_own "justified c pubs n w0 E" for c :: "('x, 'y) neighbours" and pubs n w0 E
proof unfold_locales
  fix w w' w'' :: "'x world" and m
  show "justified c pubs n w0 E w w" by (simp add: justified_def)
  show "justified c pubs n w0 E w w''" if "justified c pubs n w0 E w w'" "justified c pubs n w0 E w' w''"
    using that by (rule justified_trans)
qed (rule justified_reads; simp add: obedient.kept_now obedient.kept_err obedient.kept_uuid obedient.kept_inc
    grown.kept_now grown.kept_err grown.kept_uuid grown.kept_inc)+

interpretation just_compensation: kept_compensation "justified c pubs n w0 E" "wired p r u" i
  for c :: "('x, 'y) neighbours" and pubs n w0 E and p :: "'x Publisher" and r :: "'x Retrier" and u i
proof unfold_locales
  have calm: "Disturbed \<notin> compensation_events i" "Settled k SagaStateCompleted \<notin> compensation_events i" for k
    by (auto simp: compensation_events_def SagaState_distinct)
  note step = justified_step[where A = "compensation_events i", OF _ _ calm(1)]
  fix w :: "'x world" and j reason
  show "justified c pubs n w0 E w (snd (ss_Get (or_sagas (wired p r u)) i w))"
    by (rule step[OF compensates.kept_Get grown_compensation.kept_Get]) (simp add: calm)
  show "justified c pubs n w0 E w (snd (ss_MarkCompensated (or_sagas (wired p r u)) i reason w))"
    by (rule step[OF compensates.kept_Compensated grown_compensation.kept_Compensated]) (simp add: calm)
  show "justified c pubs n w0 E w (snd (us_Delete (or_subs (wired p r u)) j w))"
    by (rule step[OF compensates.kept_Delete grown_compensation.kept_Delete]) (simp add: calm)
qed

text \<open>A saga is marked completed only where a mail backs it: after a reply that says so, or a retry that succeeded.\<close>

definition vouched :: "('x, 'y) neighbours \<Rightarrow> ('y \<Rightarrow> (string \<times> body) list) \<Rightarrow> 'y notifier \<Rightarrow> 'y node \<Rightarrow> event set \<Rightarrow> string \<Rightarrow> 'x world \<Rightarrow> bool" where
  "vouched c pubs n w0 E i w \<longleftrightarrow>
     (trusted c pubs n w0 E \<and> sane c pubs (outside w) \<longrightarrow> mailed n w0 (nb_history c (outside w)) i)"

interpretation just_saga: kept_saga "justified c pubs n w0 E" "wired p (NewRetrier (nb_notifier c)) u" i "vouched c pubs n w0 E i"
  for c :: "('x, 'y) neighbours" and pubs n w0 E and p :: "'x Publisher" and u i
proof unfold_locales
  let ?oc = "wired p (NewRetrier (nb_notifier c)) u"
  fix w w' :: "'x world" and j to_addr repo url
  show "justified c pubs n w0 E w (snd (ss_MarkCompleted (or_sagas ?oc) i w))" if "vouched c pubs n w0 E i w"
    by (rule justified_step[where A = "{Settled i SagaStateCompleted}"])
      (use that in \<open>simp_all add: pg_sagas_def MarkCompleted_def obeys_mark SagaState_distinct grows_same vouched_def\<close>)
  show "justified c pubs n w0 E w (snd (us_GetByID (or_subs ?oc) j w))"
    by (rule justified_reads) (simp_all add: pg_subs_def GetByID_def obeys_one_row grows_same)
  have call: "grows c w (snd (call_outside (nb_notifier c t rq) w))" for t rq
    by (rule grows_call) (simp add: neighbours_ok_def)
  have "grows c w v" if "call_outside (nb_notifier c t rq) w = (x, v)" for t rq x v
    using call[of t rq] that by simp
  then have "grows c w (snd (Retry (NewRetrier (nb_notifier c)) i to_addr repo url w))"
    by (auto simp: Retry_def NewRetrier_def split: prod.splits option.splits)
  moreover have "obeys E {} w (snd (Retry (NewRetrier (nb_notifier c)) i to_addr repo url w))"
    by (metis obeys_io prod.collapse Retry_frame)
  ultimately show "justified c pubs n w0 E w (snd (or_retrier ?oc i to_addr repo url w))"
    by (simp add: justified_reads)
  show "vouched c pubs n w0 E i w'" if "or_retrier ?oc i to_addr repo url w = (None, w')"
  proof -
    let ?rq = "\<lparr>sr_SagaId = i, sr_To = to_addr, sr_Repo = repo, sr_ConfirmUrl = url\<rparr>"
    obtain e x' where call: "nb_notifier c defaultRetryTimeout ?rq (outside w) = (e, x')" by fastforce
    then have "e = None" "outside w' = x'"
      using that by (auto simp: Retry_def NewRetrier_def call_outside_def split: option.splits)
    then show ?thesis using call by (fastforce simp: vouched_def trusted_def)
  qed
qed

interpretation just_sweeper: kept_sweeper "justified c pubs n w0 E"
    "NewTimeoutSweeper (wired p (NewRetrier (nb_notifier c)) u) timeout interval time_Now ctx_Err"
  for c :: "('x, 'y) neighbours" and pubs n w0 E and p :: "'x Publisher" and u timeout interval
proof unfold_locales
  let ?sw = "NewTimeoutSweeper (wired p (NewRetrier (nb_notifier c)) u) timeout interval time_Now ctx_Err :: 'x world TimeoutSweeper"
  fix w :: "'x world" and th k reason
  show "justified c pubs n w0 E w (snd (sw_now ?sw w))" "justified c pubs n w0 E w (snd (sw_ctxErr ?sw w))"
    by (simp_all add: NewTimeoutSweeper_def just.kept_now just.kept_err)
  show "justified c pubs n w0 E w (snd (sw_GetPendingOlderThan ?sw th w))"
    by (rule justified_reads)
      (simp_all add: NewTimeoutSweeper_def pg_sagas_def GetPendingOlderThan_def obeys_many_rows grows_same)
  show "justified c pubs n w0 E w (snd (sw_AttemptSyncRetry ?sw k w))"
    using just_saga.kept_AttemptSyncRetry by (simp add: NewTimeoutSweeper_def)
  show "justified c pubs n w0 E w (snd (sw_HandleFailed ?sw k reason w))"
    using just_compensation.kept_HandleFailed by (simp add: NewTimeoutSweeper_def)
qed

section \<open>Every activity is justified\<close>

text \<open>Requests complete nothing, and settling a delivery takes back nothing.\<close>

lemma request_completes_nothing:
  "Disturbed \<notin> request_events rq" "Settled k SagaStateCompleted \<notin> request_events rq"
  by (auto simp: request_events_def subscribe_events_def compensation_events_def SagaState_distinct split: sum.splits)

definition settling :: "('x, 'y) neighbours \<Rightarrow> 'x delivery \<Rightarrow> bool" where
  "settling c d \<longleftrightarrow> (\<forall>x. goes_on c x (dl_Ack d x)) \<and> (\<forall>q x. goes_on c x (dl_Nack d q x))"

lemma justified_Settle:
  fixes w :: "'x world"
  assumes "settling c d"
    and vouch: "\<And>i. dl_RoutingKey d = RoutingKeyEventConfirmationSent \<Longrightarrow>
      unmarshal_sent (dl_Body d) = Inr \<lparr>cs_SagaID = i\<rparr> \<Longrightarrow> vouched c pubs n w0 E i w"
  shows "justified c pubs n w0 E w (Replies_handle (wired_replies p (NewRetrier (nb_notifier c)) u) d w)"
proof (rule just.kept_Replies_handle)
  fix b and v :: "'x world"
  show "justified c pubs n w0 E v (ack d v)" "justified c pubs n w0 E v (nack b d v)"
    using assms(1) by (auto intro!: justified_reads obedient.kept_settled simp: settling_def grows_def)
      (simp_all add: ack_def nack_def)
next
  fix i assume "dl_RoutingKey d = RoutingKeyEventConfirmationSent" "unmarshal_sent (dl_Body d) = Inr \<lparr>cs_SagaID = i\<rparr>"
  from vouch[OF this]
  show "justified c pubs n w0 E w (snd (rc_HandleSent (wired_replies p (NewRetrier (nb_notifier c)) u) i w))"
    using just_saga.kept_HandleSent by (simp add: wired_replies_def)
next
  fix i reason
  show "justified c pubs n w0 E w (snd (rc_HandleFailed (wired_replies p (NewRetrier (nb_notifier c)) u) i reason w))"
    using just_compensation.kept_HandleFailed by (simp add: wired_replies_def)
qed

lemma justified_act:
  fixes w :: "'x world"
  assumes "reads_only (nb_prom c)" and "\<And>d. a = Settle d \<Longrightarrow> settling c d"
    and "\<And>d i. a = Settle d \<Longrightarrow> dl_RoutingKey d = RoutingKeyEventConfirmationSent \<Longrightarrow>
      unmarshal_sent (dl_Body d) = Inr \<lparr>cs_SagaID = i\<rparr> \<Longrightarrow> vouched c pubs n w0 E i w"
  shows "justified c pubs n w0 E w (server_act uuid_ok (nb_prom c) page (deployed_services parse tc cfg c) a w)"
proof (cases a)
  case (Serve rq)
  have "obeys E (request_events rq) w (snd (newRouter uuid_ok (nb_prom c) page (NewHandler (deployed_services parse tc cfg c)) rq w))"
    using obeys_Serve[OF assms(1)] by (simp add: deployed_services_def NewHandler_setup)
  then show ?thesis
    using justified_step[OF _ grows_Serve request_completes_nothing(1)] request_completes_nothing(2) Serve by fastforce
next
  case (Settle d)
  then show ?thesis
    using justified_Settle[OF assms(2)[OF Settle] assms(3)[OF Settle]]
    by (simp add: deployed_services_def NewRepliesConsumer_setup)
next
  case Sweep
  then show ?thesis using just_sweeper.kept_sweep by (simp add: deployed_services_def setupServices_def Let_def)
next
  case Scan
  have "justified c pubs n w0 E w (scan (wired_scanner (nb_publisher c) u k tc (nb_redis c)
      (NewReleaseFetcherClient (nb_github c) token)) w)" for u k token
    by (rule justified_reads[OF scans.kept_scan grown_scanner.kept_scan])
  then show ?thesis by (simp add: Scan deployed_services_def setupServices_def Let_def)
qed

section \<open>Runs of the deployment\<close>

text \<open>
  The server runs its activities; a delivery to its replies consumer is one the notifier has
  published by then (\<open>pubs\<close> is what the notifier's broker has accepted). Between activities, too,
  the rest of the world goes on.
\<close>

inductive deployed ::
    "('x world \<Rightarrow> 'x activity \<Rightarrow> 'x world) \<Rightarrow> ('x, 'y) neighbours \<Rightarrow> ('y \<Rightarrow> (string \<times> body) list) \<Rightarrow>
     'y notifier \<Rightarrow> 'y node \<Rightarrow> 'x world \<Rightarrow> 'x world \<Rightarrow> bool"
  for act c pubs n w0 w where
  start: "deployed act c pubs n w0 w w"
| activity: "deployed act c pubs n w0 w v \<Longrightarrow>
    (\<And>d. a = Settle d \<Longrightarrow> settling c d \<and>
       (dl_RoutingKey d, dl_Body d) \<in> set (pubs (outside (notifier_acts n (nb_history c (outside v)) w0)))) \<Longrightarrow>
    deployed act c pubs n w0 w (act v a)"
| elsewhere: "deployed act c pubs n w0 w v \<Longrightarrow> goes_on c (outside v) x \<Longrightarrow>
    deployed act c pubs n w0 w (v\<lparr>outside := x\<rparr>)"

text \<open>What has been announced is vouched for.\<close>

lemma announced_vouched:
  assumes "accounted pubs n w0"
    and "(dl_RoutingKey d, dl_Body d) \<in> set (pubs (outside (notifier_acts n (nb_history c (outside w)) w0)))"
    and "dl_RoutingKey d = RoutingKeyEventConfirmationSent" "unmarshal_sent (dl_Body d) = Inr \<lparr>cs_SagaID = i\<rparr>"
  shows "vouched c pubs n w0 E i w"
  unfolding vouched_def
proof
  assume "trusted c pubs n w0 E \<and> sane c pubs (outside w)"
  moreover have "announced pubs (notifier_acts n (nb_history c (outside w)) w0) (dl_Body d)"
    using assms(2,3) by (simp add: announced_def)
  ultimately obtain j where "dl_Body d = marshal_sent \<lparr>cs_SagaID = j\<rparr>" "mailed n w0 (nb_history c (outside w)) j"
    using assms(1) unfolding accounted_def sane_def by blast
  then show "mailed n w0 (nb_history c (outside w)) i" using assms(4) by simp
qed

lemma deployed_backed:
  assumes "deployed (\<lambda>v a. server_act uuid_ok (nb_prom c) page (deployed_services parse tc cfg c) a v) c pubs n w0 w w'"
    and "accounted pubs n w0" and t: "trusted c pubs n w0 E" and "backed c pubs n w0 E w"
  shows "backed c pubs n w0 E w'"
  using assms(1)
proof (induction rule: deployed.induct)
  case start
  then show ?case by (rule assms(4))
next
  case (activity v a)
  have prom: "reads_only (nb_prom c)" using t by (simp add: trusted_def neighbours_ok_def reads_only_def)
  have "justified c pubs n w0 E v (server_act uuid_ok (nb_prom c) page (deployed_services parse tc cfg c) a v)"
    by (rule justified_act[OF prom]) (use activity.hyps(2) announced_vouched[OF assms(2)] in blast)+
  then show ?case using t activity.IH by (simp add: justified_def)
next
  case (elsewhere v x)
  have "justified c pubs n w0 E v (v\<lparr>outside := x\<rparr>)"
    using elsewhere.hyps(2) obedient.kept_outside by (intro justified_reads) (simp_all add: grows_def)
  then show ?case using t elsewhere.IH by (simp add: justified_def)
qed

text \<open>
  C13 (safety). Across the processes: run the server, in any order and any number of its activities
  (requests, replies, sweeps, scans), whatever its calls answer and whatever other sessions do to
  the tables short of completing sagas; let the notifier handle whatever it is handed meanwhile,
  forged commands included. If a saga is then \<^verbatim>\<open>completed\<close>, the notifier has handed a confirmation
  mail for it to the provider and the provider has taken it. (Replies come from the broker the
  notifier publishes to, a nil answer of the gRPC client from the notifier's own service, and the
  notifier handles one call or delivery at a time.)
\<close>

theorem completed_sagas_were_mailed:
  fixes w w' :: "'x world" and w0 :: "'y node"
  assumes notifier: "n = notifier_services env net renderer validate replies alive prom" "\<And>rq v. snd (prom rq v) = v"
    and broker: "records_publications pubs replies" "\<And>rq x. pubs (snd (mc_Do net rq x)) = pubs x"
      "\<forall>a \<in> set (nb_history c (outside w')). settles_silently pubs a"
    and notifier_start: "dd_entries (dedupe w0) = []" "pubs (outside w0) = []"
    and cloud: "neighbours_ok c" "calls_reach n w0 c"
    and sessions: "within E w" "Disturbed \<notin> E" "\<And>k. Settled k SagaStateCompleted \<notin> E"
    and server_start: "world_ok w" "\<And>k s. saga_at w k = Some s \<Longrightarrow> saga_State s \<noteq> SagaStateCompleted"
    and run: "deployed (\<lambda>v a. server_act uuid_ok (nb_prom c) page (deployed_services parse tc cfg c) a v) c pubs n w0 w w'"
    and completed: "saga_at w' i = Some s" "saga_State s = SagaStateCompleted"
  shows "mailed n w0 (nb_history c (outside w')) i"
proof -
  have acc: "accounted pubs n w0" by (rule notifier_accounted[OF notifier broker(1,2) notifier_start])
  have "mailed n w0 (nb_history c x') (sr_SagaId rq)" if call: "nb_notifier c t rq x = (None, x')" "sane c pubs x'"
    for t rq x x'
  proof -
    obtain before after where h: "nb_history c x' = before @ Call rq # after"
      "fst (nt_grpc n rq (notifier_acts n before w0)) = None"
      using cloud(2) call(1) unfolding calls_reach_def by blast
    have "\<forall>a \<in> set before. settles_silently pubs a" using call(2) h(1) by (simp add: sane_def)
    from call_answered_ok[OF notifier(1) acc this h(2)] show ?thesis
      using mailed_append[of n w0 "before @ [Call rq]" after] h(1) by simp
  qed
  then have "trusted c pubs n w0 E" using cloud(1) sessions(2,3) unfolding trusted_def by blast
  from deployed_backed[OF run acc this] have "backed c pubs n w0 E w'"
    using server_start sessions(1) by (auto simp: backed_def)
  then show ?thesis using completed broker(3) by (auto simp: backed_def sane_def)
qed

text \<open>
  A deployment: the server's outside is the notifier's history, the notifier's the list of its
  publications. The notifier handles the command of a pending saga, then its reply arrives.
\<close>

definition wire_notifier :: "wire notifier" where
  "wire_notifier = notifier_services (\<lambda>_. ''e'') (sd_httpClient wire_mailer) (sd_renderer wire_mailer) (\<lambda>_. None)
     wire_publisher (\<lambda>_. True) (\<lambda>rq w. (reply 200 no_body, w))"

definition wire_neighbours :: "(wire notifier_activity list, wire) neighbours" where
  "wire_neighbours =
     \<lparr>nb_history = (\<lambda>h. h), nb_github = \<lparr>gh_BadURL = (\<lambda>u. None), gh_Do = (\<lambda>rq h. (Inl (Opaque ''refused''), h))\<rparr>,
      nb_redis = None, nb_publisher = \<lparr>pub_ch = (\<lambda>h. None)\<rparr>,
      nb_notifier = (\<lambda>t rq h. (fst (nt_grpc wire_notifier rq (notifier_acts wire_notifier h wire_node)), h @ [Call rq])),
      nb_prom = (\<lambda>rq w. (reply 200 no_body, w))\<rparr>"

definition wire_reply :: "wire notifier_activity list delivery" where
  "wire_reply = \<lparr>dl_RoutingKey = RoutingKeyEventConfirmationSent, dl_Body = marshal_sent \<lparr>cs_SagaID = ''g1''\<rparr>,
     dl_Ack = (\<lambda>h. h), dl_Nack = (\<lambda>q h. h)\<rparr>"

abbreviation wire_run :: "wire notifier_activity list world \<Rightarrow> wire notifier_activity list world \<Rightarrow> bool" where
  "wire_run \<equiv> deployed (\<lambda>v a. server_act (\<lambda>_. True) (nb_prom wire_neighbours) None
     (deployed_services (\<lambda>s. Inr 0) \<lparr>tc_parse = (\<lambda>s. None), tc_format = (\<lambda>t. [])\<rparr> demo_config wire_neighbours) a v)
     wire_neighbours (\<lambda>ms. ms) wire_notifier wire_node"

lemma wire_neighbours_ok: "neighbours_ok wire_neighbours" "calls_reach wire_notifier wire_node wire_neighbours"
  by (auto simp: neighbours_ok_def calls_reach_def wire_neighbours_def goes_on_def)

lemma outside_meters: "outside (inc m v) = outside v" "outside (snd (time_Now v)) = outside v"
  by (simp_all add: inc_def time_Now_def)

lemma wire_announced:
  "outside (notifier_acts wire_notifier [Deliver wire_command] wire_node) = [reply_message ''g1'' None]"
proof -
  let ?s = "NewSender (sd_httpClient wire_mailer) ''e'' ''e'' ''e'' (sd_renderer wire_mailer)"
  let ?w = "snd (time_Now wire_node)"
  have mail: "Sender_SendConfirmation ?s a \<lparr>cd_Repo = rp, cd_ConfirmURL = u\<rparr> v = (None, inc (EmailsSentTotal ''confirmation'') v)"
    for a rp u and v :: "wire node"
    by (simp add: Sender_SendConfirmation_def RenderConfirmation_def renderTemplate_def send_def wire_mailer_def
        call_outside_def NewSender_def)
  have "outside (Mark ''g1'' (inc (EmailsSentTotal ''confirmation'') ?w)) = []"
    by (simp add: inc_def wire_node_def time_Now_def)
  then show ?thesis
    using wire_published[of RoutingKeyEventConfirmationSent "marshal_sent \<lparr>cs_SagaID = ''g1''\<rparr>"
        "Mark ''g1'' (inc (EmailsSentTotal ''confirmation'') ?w)"]
    by (auto simp: wire_notifier_def services getEnv_def Consumer_handle_def dispatch_def wired_consumer_def
        wire_command_def ledger_command_def mail ack_def outside_meters
        publishReplyWithRetry_def replyPublishAttempts_def PublishConfirmationSent_def reply_message_def
        eval_nat_numeral split: prod.splits)
qed

lemma outside_HandleSent: "outside (snd (HandleSent (wired q r u) i w)) = outside w"
proof -
  obtain e v where run: "MarkCompleted i w = (e, v)" by fastforce
  have "outside v = outside w" by (metis run MarkCompleted_def outside_repositories(1) snd_conv)
  then show ?thesis using run by (simp add: HandleSent_def wired_def pg_sagas_def split: option.splits)
qed

lemma wire_settled: "outside (Replies_handle (wired_replies q r u) wire_reply w) = outside w"
  using outside_HandleSent[of q r u "''g1''" w]
  by (auto simp: Replies_handle_def wired_replies_def wire_reply_def ack_def nack_def split: prod.splits option.splits)

theorem completed_sagas_were_mailed_witness:
  "\<exists>w'. wire_run (demo_world [] (db demo_start)) w' \<and>
     (\<exists>g. saga_at w' ''g1'' = Some g \<and> saga_State g = SagaStateCompleted) \<and>
     mailed wire_notifier wire_node (outside w') ''g1''"
proof -
  let ?w = "demo_world [] (db demo_start) :: wire notifier_activity list world"
  let ?v = "?w\<lparr>outside := [Deliver wire_command]\<rparr>"
  let ?r = "NewRetrier (nb_notifier wire_neighbours)"
  let ?w' = "Replies_handle (wired_replies (nb_publisher wire_neighbours) ?r (cfg_BaseURL demo_config)) wire_reply ?v"
  have w: "world_ok ?w" "quiet ?w" "world_ok ?v" "quiet ?v" "healthy ?v"
    using demo_start_ok(1) by (simp_all add: world_ok_def demo_world_def quiet_def healthy_def)
  have v: "saga_at ?v ''g1'' = Some (demo_saga SagaStatePending 0)"
    using demo_start_views(1) by (simp add: saga_at_def demo_world_def)
  have here: "wire_run ?w ?v"
    by (rule deployed.elsewhere[OF deployed.start]) (simp add: goes_on_def wire_neighbours_def demo_world_def)
  have run: "wire_run ?w ?w'"
    using deployed.activity[OF here, of "Settle wire_reply"] wire_announced
    by (simp add: deployed_services_def NewRepliesConsumer_setup settling_def goes_on_def wire_reply_def
        wire_neighbours_def reply_message_def)
  have "marked SagaStateCompleted None ''g1'' (saga_at ?v) (saga_at ?w')"
    using first_reply[OF w(3-5) v _ _ refl, of wire_reply None "nb_publisher wire_neighbours" ?r "cfg_BaseURL demo_config"]
    by (simp add: demo_saga_def wire_reply_def reply_message_def)
  then obtain g where g: "saga_at ?w' ''g1'' = Some g" "saga_State g = SagaStateCompleted"
    by (auto simp: marked_def)
  have out: "outside ?w' = [Deliver wire_command]" by (simp add: wire_settled)
  have "\<forall>a \<in> set (nb_history wire_neighbours (outside ?w')). settles_silently (\<lambda>ms. ms) a"
    unfolding out by (simp add: wire_neighbours_def wire_command_def)
  moreover have "saga_State s \<noteq> SagaStateCompleted" if "saga_at ?w k = Some s" for k s
  proof -
    have "saga_at demo_start k = Some s" using that by (simp add: saga_at_def demo_world_def)
    then show ?thesis using demo_start_views(2)[of k] by (auto simp: demo_saga_def split: if_splits)
  qed
  moreover have "snd (mc_Do (sd_httpClient wire_mailer) rq x) = x" for rq x
    using wire_keeps(2) by (simp add: mailer_keeps_def)
  ultimately have "mailed wire_notifier wire_node (nb_history wire_neighbours (outside ?w')) ''g1''"
    by (intro completed_sagas_were_mailed[OF wire_notifier_def _ wire_keeps(1) _ _ _ _ wire_neighbours_ok
          quiet_within[OF w(2)] _ _ w(1) _ run g]) (simp_all add: wire_node_def NewDedupe_def)
  then show ?thesis using run g out by (auto simp: wire_neighbours_def)
qed

end
