(* ===== verification/Spec2Isabelle.thy ===== *)
theory Spec2Isabelle
  imports SagaTheorems SubscribeTheorems TokenTheorems HttpTheorems ScannerTheorems
    EndToEnd Supervisor System Migration Deployment
begin

text \<open>
  A verification development for the GitHub release notifier: a Go system of two binaries that
  lets users subscribe to the releases of GitHub repositories by mail.

  \<^bold>\<open>The program.\<close> \<^verbatim>\<open>cmd/server\<close> serves the HTTP API, keeps repositories, subscriptions and sagas
  in PostgreSQL, asks GitHub (behind Redis caches) for repositories and releases, and runs two
  tickers: the release scanner and the saga sweeper. \<^verbatim>\<open>cmd/notifier\<close> sends the mail through
  Resend. They talk over RabbitMQ (commands and release messages one way, replies the other) and
  over gRPC (the sweeper's synchronous retry). A subscription is a saga: \<^verbatim>\<open>Subscribe\<close> inserts the
  subscription with a pending saga and publishes a command; the notifier mails and replies; the
  server completes the saga or compensates it by deleting the subscription; the sweeper takes
  care of sagas that stay pending.

  \<^bold>\<open>How the program is modelled.\<close> \<open>World\<close>: a process is a record with its clock, UUID source,
  context, counters and \<open>outside\<close>, the state of everything that is not in the repository.
  Readings of clock, UUIDs and context are functions of the number of readings, so a theorem about
  all states covers all readings. A function of the code is a function from the state to its
  result and the new state; an \<^verbatim>\<open>error\<close> is an optional \<open>goerr\<close> with Go's wrapping, so
  \<^verbatim>\<open>errors.Is\<close> and the message text are the code's. The server's process (\<open>world\<close>) adds the
  tables. Each SQL statement is one atomic step, before which other sessions may change the tables
  (\<open>db_env\<close>) and which can succeed, fail, or take effect with its answer lost (\<open>db_oracle\<close>).
  \<open>quiet\<close> says that there are no other sessions, \<open>healthy\<close> that the database answers and the
  context is not done. The notifier's process (\<open>node\<close>) adds the cache of claimed sagas.

  \<^bold>\<open>The theories, in the order of the layers.\<close>
  \<^item> \<open>Prelude\<close>, \<open>GoLib\<close>, \<open>Json\<close>: shared lemmas; errors, strings and numbers of Go; JSON values.
  \<^item> \<open>Domain\<close>: the structs of the domain packages.
  \<^item> \<open>Schema\<close>, \<open>Migration\<close>, \<open>Sql\<close>, \<open>Postgres\<close>: \<^verbatim>\<open>cmd/server/migrations\<close> up and down, the data statements of
    the second one, the meaning of the statements under the constraints they leave, and the
    repositories of \<^verbatim>\<open>adapter/postgres\<close>.
  \<^item> \<open>Orchestrator\<close>: \<^verbatim>\<open>saga/orchestrator.go\<close> and \<^verbatim>\<open>saga/timeout_sweeper.go\<close> over records of ports.
    \<open>SagaLaws\<close> states the laws of the ports as the locales \<open>saga_view\<close>, \<open>saga_store\<close>, \<open>sub_store\<close>
    and \<open>orchestrator\<close>; \<open>SagaRuns\<close> and \<open>SweeperRuns\<close> prove the handlers and the sweep inside them;
    \<open>Views\<close> says what one statement does to the saga and the subscription of an id, \<open>SagaStore\<close>
    interprets the locales on the PostgreSQL repositories, and \<open>SagaTheorems\<close> states the results
    over the tables. Each handler has a case lemma (\<^verbatim>\<open>HandleFailed_path\<close> and so on) that the proofs
    about it start from. \<open>Retrier\<close>: \<^verbatim>\<open>saga/grpc_retrier.go\<close>.
  \<^item> \<open>Topology\<close>, \<open>Publisher\<close>, \<open>Session\<close>, \<open>Supervisor\<close>: \<^verbatim>\<open>topology.go\<close>, \<^verbatim>\<open>messages.go\<close>, \<^verbatim>\<open>publish\<close>, the
    dials, the backoff, the reconnecting loop of the consumers (locale \<open>reconnecting\<close>), and the
    publisher's supervising goroutine, with its waits for the goroutine that drains returned
    messages, as a step relation.
  \<^item> \<open>Github\<close>, \<open>UseCases\<close>, \<open>SubscribeRuns\<close>, \<open>SubscribeTheorems\<close>, \<open>TokenTheorems\<close>: the GitHub clients and
    their caches, \<^verbatim>\<open>subscription/app\<close>, and what the use cases do to the tables.
  \<^item> \<open>Scanner\<close>, \<open>ScannerTheorems\<close>: \<^verbatim>\<open>release/app/scanner.go\<close>.
  \<^item> \<open>Platform\<close>, \<open>HttpApi\<close>, \<open>HttpTheorems\<close>: \<^verbatim>\<open>internal/platform\<close>, the handlers, the router.
  \<^item> \<open>Dedupe\<close>, \<open>DedupeTheorems\<close>, \<open>Mailer\<close>, \<open>MailerTheorems\<close>: \<^verbatim>\<open>grpcsrv\<close> with its cache, and \<^verbatim>\<open>resend\<close>;
    concurrent gRPC calls are a step relation over the cache's locked sections.
  \<^item> \<open>Consumer\<close>, \<open>ConsumerTheorems\<close>, \<open>Replies\<close>, \<open>RepliesTheorems\<close>: the two RabbitMQ consumers, with the
    interpretations of \<open>reconnecting\<close>. A \<^verbatim>\<open>select\<close> of a session is a look at the context and at the AMQP side
    (\<open>ready\<close>); one that finds nothing blocks, that is, looks again.
  \<^item> \<open>EndToEnd\<close>: the saga across the two processes. \<open>Startup\<close>: \<^verbatim>\<open>main\<close> and \<^verbatim>\<open>run\<close> of both binaries.
    \<open>Wiring\<close>: \<^verbatim>\<open>setupServices\<close> and the running server, one activity (request, reply, sweep, scan) at a
    time. \<open>NotifierMain\<close>: the same for the notifier.
  \<^item> \<open>Frames\<close>: a relation between states that composes and that every port of a handler keeps is kept
    by the handler; one locale per handler, sharing \<open>kept\<close>. \<open>Service\<close>: the abstract service, accounts
    with their phase and their job, as a transition system that knows nothing of tables, ids, brokers
    or statements. \<open>Refinement\<close> and \<open>System\<close>: every activity of the server, in any company and with any
    failing call, is a run of that service, by instantiating the locales of \<open>Frames\<close>.

  \<^item> \<open>History\<close>: the sagas a notifier has mailed since it started; its cache, its replies and its answers to
    calls speak of no others. \<open>Deployment\<close>: both binaries together. The server's outside has the
    notifier's activities as its history, deliveries and nil answers of the gRPC client come from it,
    and a further instance of the locales of \<open>Frames\<close> shows that a completion rests on a mail.

  \<^bold>\<open>What is proved.\<close> The system: whatever the server does, its tables keep their constraints, and its
  effect on them is a run of the abstract service (an account is confirmed only by its link, removed
  only by its link or by a compensation, and a job ends at most once), in which every step is of the
  activity's own kind or another session's; activities on different accounts leave each other's
  alone. The saga: compensation, completion and retry over the tables whatever
  database call fails; a sweep clears what is stuck and touches nothing else; end to end, the saga
  ends as the mail went. The use cases: what \<^verbatim>\<open>Subscribe\<close>
  accepts, that it leaves no orphan, that its errors have no effect; the token links; the
  listing. The scanner: exactly the confirmed subscribers of a repository hear of a new tag, once.
  GitHub: the cached checker agrees with the uncached one. HTTP: statuses, access log, counters.
  The notifier, handling one thing at a time: the cache is bounded; a saga mailed on one path is not mailed
  again by a call on the other, within the time-to-live and the capacity of the cache; of any number of
  concurrent calls for a saga at most one send ends with success; every delivery is settled exactly once; replies are retried within bounds. Both together: a saga
  is completed only if its mail was sent, as long as the notifier handles one thing at a time.
  Connections: failed dials leak nothing; the publisher owns at most one session and stops when closed;
  both consumers run until they are cancelled, and then return even if the broker keeps silent; the
  server's process releases what it opened unless its HTTP server could not listen.
  The schema: the data of the second migration survives the way up and down but for the tags.

  \<^bold>\<open>What modelling showed.\<close> Some theorems state behaviour the code hardly means to
  have: no compensated saga is ever recorded; a completion that lands between the read and the delete of
  a compensation is lost; nothing in the migrated schema prevents duplicate subscriptions; the
  asynchronous path mails without claiming; a concurrent call refused for a claim is answered with OK
  before its mail is sent, and stays so if the send fails; no route checks the API key; a gRPC port that
  cannot be opened leaves the notifier's consumer connected, and an HTTP port that cannot be opened
  everything; the second migration keeps the textually last tag of a repository, not the newest.

  \<^bold>\<open>Bounds and fuel.\<close> The reconnecting loop and the loops of a session take fuel, one unit per
  iteration. Every iteration that goes on reads the context, so there are at most \<open>N\<close> of them when the
  context is done from its reading number \<open>N\<close> on; after that a \<^verbatim>\<open>select\<close> with a delivery ready may pick
  it against the context, \<open>over\<close> times while a session waits and \<open>drains\<close> times while its
  goroutines end. The theorem gives the result for every fuel above \<open>N + over + drains + 1\<close>. A duration of the backoff
  is a 64-bit word. The tickers run over a list of the events they receive. All other loops are
  structural recursions. Statements about the cache's memory bound the number of other sagas by
  its capacity and the time by its time-to-live.

  \<^bold>\<open>Parameters.\<close> GitHub's HTTP answers, Redis, Resend, the AMQP library and its channels, the gRPC
  client, protovalidate, \<^verbatim>\<open>time.ParseDuration\<close>, HTML templates, and the order in which Go ranges over a
  map. Laws assumed of them are named hypotheses (for example \<open>records_publications\<close>: what a
  broker has accepted is what was published with success).

  \<^bold>\<open>Not modelled.\<close> Generated protobuf code, the texts of the HTML templates, the static page, the delivery
  of signals, TLS and sockets; log lines other than the access log (the handler that adds the
  correlation id to each is modelled); the text syntax of JSON (bodies are JSON
  values; strings are taken to be valid UTF-8); the microsecond precision of PostgreSQL's
  timestamps; indexes; \<^verbatim>\<open>gin.Recovery\<close> (no handler of the model panics) and gin's redirects of trailing
  slashes. The notifier's activities are atomic, but for its gRPC calls in \<open>MailerTheorems\<close>. Within a session of the
  notifier's consumer the deliveries of its two queues are handled in one sequence, and contexts of
  single requests are not cancelled between two statements (a statement that fails for that
  reason is one of \<open>db_oracle\<close>'s failures).
\<close>

end
